(* ===== verification/RPC_Prelude.thy ===== *)
theory RPC_Prelude
  imports Main "HOL-Library.Word" "HOL-Library.AList"
begin

text \<open>
  Shared vocabulary of the development: the identities of heap objects, the machine types, the
  objects of the msgpack library as far as the sources inspect them, and generic lemmas on association lists, list updates and machine words.

  Heap objects (the pointees of \<^verbatim>\<open>std::shared_ptr\<close>) live in lists and are named by
  their index, which is their allocation order; a null pointer is \<open>None\<close>.
\<close>

section \<open>Identities and machine types\<close>

type_synonym fid = nat    \<comment> \<open>a \<open>future_impl\<close> object\<close>
type_synonym sid = nat    \<comment> \<open>a \<open>session_impl\<close> object\<close>
type_synonym lid = nat    \<comment> \<open>a \<open>loop_impl\<close> object\<close>
type_synonym cbid = nat   \<comment> \<open>a user function wrapped in a \<open>std::function\<close>\<close>
type_synonym zone = nat   \<comment> \<open>a \<open>msgpack::zone\<close> object\<close>
type_synonym errno = nat  \<comment> \<open>the value of a non-zero \<open>boost::system::error_code\<close>\<close>
type_synonym uint = "32 word"
type_synonym msgid = "32 word"

section \<open>Automation of the development\<close>

named_theorems rpc_defs \<open>definitions of single-object operations, unfolded by the component proofs\<close>

section \<open>msgpack objects\<close>

text \<open>
  \<^verbatim>\<open>msgpack::object\<close> is a tagged union of a third-party library. The sources look at three of
  its tags only: nil (\<^verbatim>\<open>is_nil()\<close>, the default constructor), \<^verbatim>\<open>BIN\<close> with the pointer and size
  of its payload, and \<^verbatim>\<open>POSITIVE_INTEGER\<close> with its 64-bit value. Every other object is an
  uninterpreted value of the type parameter. Two string literals of \<^verbatim>\<open>exception.cc\<close> are
  compared by address, so they are pointers of their own.
\<close>

datatype cptr = NULL | TIMEOUT_ERROR_PTR | CONNECT_ERROR_PTR | Mem nat

datatype 'x object =
    NIL
  | BIN cptr nat
  | POSITIVE_INTEGER "64 word"
  | Opaque 'x

definition is_nil :: "'x object \<Rightarrow> bool" where
  "is_nil ob = (case ob of NIL \<Rightarrow> True | _ \<Rightarrow> False)"

lemma is_nil_simps [simp]:
  "is_nil NIL" "\<not> is_nil (BIN p n)" "\<not> is_nil (POSITIVE_INTEGER u)" "\<not> is_nil (Opaque y)"
  by (simp_all add: is_nil_def)

lemma is_nil_iff [simp]: "is_nil ob \<longleftrightarrow> ob = NIL"
  by (cases ob) auto

section \<open>Association lists as containers\<close>

text \<open>
  \<^verbatim>\<open>boost::unordered_map\<close> and \<^verbatim>\<open>std::map\<close> are association lists with distinct keys, whose
  order is the iteration order of the container.
\<close>

lemma distinct_fst_update [simp]:
  "distinct (map fst m) \<Longrightarrow> distinct (map fst (AList.update k v m))"
  by (simp add: distinct_update)

lemma distinct_fst_delete [simp]:
  "distinct (map fst m) \<Longrightarrow> distinct (map fst (AList.delete k m))"
  by (simp add: distinct_delete)

lemma in_set_update_iff:
  "distinct (map fst m) \<Longrightarrow>
    p \<in> set (AList.update k v m) \<longleftrightarrow> p = (k, v) \<or> p \<in> set m \<and> fst p \<noteq> k"
proof (induction m)
  case Nil
  then show ?case by auto
next
  case (Cons q m)
  then show ?case by (cases q) (force simp: image_iff)
qed

lemma in_set_delete_iff: "p \<in> set (AList.delete k m) \<longleftrightarrow> p \<in> set m \<and> fst p \<noteq> k"
  by (auto simp: AList.delete_eq)

lemma update_fresh: "k \<notin> fst ` set m \<Longrightarrow> AList.update k v m = m @ [(k, v)]"
  by (induction m) auto

lemma delete_snoc_fresh:
  "k \<notin> fst ` set m \<Longrightarrow> AList.delete k (m @ [(k, v)]) = m"
  by (force simp: AList.delete_eq filter_id_conv)

lemma length_delete_present:
  "distinct (map fst m) \<Longrightarrow> k \<in> fst ` set m \<Longrightarrow> Suc (length (AList.delete k m)) = length m"
proof (induction m)
  case Nil
  then show ?case by simp
next
  case (Cons p m)
  show ?case
  proof (cases "fst p = k")
    case True
    with Cons.prems have "AList.delete k m = m"
      by (intro delete_id) auto
    with True show ?thesis by (cases p) simp
  next
    case False
    with Cons show ?thesis by (cases p) auto
  qed
qed

lemma disjoint_insert_cover:
  "A' \<subseteq> insert n A \<Longrightarrow> B' \<subseteq> insert n B \<Longrightarrow> A \<inter> B = {} \<Longrightarrow> n \<notin> A \<Longrightarrow> n \<notin> B \<Longrightarrow>
    A' = A \<or> B' = B \<Longrightarrow> A' \<inter> B' = {}"
  by blast

section \<open>Heaps as lists\<close>

text \<open>An update outside of the list is no update, so reading after writing needs no bound.\<close>

lemma nth_list_update_if:
  "(xs[i := v]) ! j = (if i = j \<and> i < length xs then v else xs ! j)"
  by (cases "i < length xs") (auto simp: nth_list_update list_update_beyond)

section \<open>Machine words\<close>

lemma word_of_nat_inj:
  fixes a b :: nat
  assumes "a < 2 ^ LENGTH('a::len)" "b < 2 ^ LENGTH('a)"
    and "(of_nat a :: 'a word) = of_nat b"
  shows "a = b"
proof -
  have "unat (of_nat a :: 'a word) = unat (of_nat b :: 'a word)"
    using assms(3) by simp
  then show ?thesis
    using assms(1,2) by (simp add: unat_of_nat take_bit_nat_eq_self)
qed

lemma unat_minus_one_pos: "0 < w \<Longrightarrow> unat (w - 1) = unat w - 1" for w :: "'a::len word"
  by (rule unat_minus_one) auto

end
