(* ===== verification/RPC_Protocol.thy ===== *)
theory RPC_Protocol
  imports RPC_Prelude
begin

text \<open>
  The wire protocol (\<^verbatim>\<open>protocol.h\<close>), the atomic counter behind message identifiers
  (\<^verbatim>\<open>atomic_ops.h\<close>) and the exception hierarchy (\<^verbatim>\<open>exception.h\<close>).
\<close>

section \<open>Atomic counter\<close>

text \<open>
  The GCC branch of \<^verbatim>\<open>atomic_ops.h\<close>: \<open>__sync_fetch_and_add\<close> returns the old value and wraps
  around; the pair is (returned value, new value of the counter).
\<close>

definition atomic_increment :: "32 word \<Rightarrow> 32 word \<times> 32 word" where
  "atomic_increment p = (p, p + 1)"

section \<open>Messages\<close>

type_synonym message_type_t = "8 word"
type_synonym error_type_t = "8 word"

definition REQUEST :: message_type_t where "REQUEST = 0"
definition RESPONSE :: message_type_t where "RESPONSE = 1"
definition NOTIFY :: message_type_t where "NOTIFY = 2"
definition UNKNOWN :: message_type_t where "UNKNOWN = 0xff"
definition NO_METHOD_ERROR :: error_type_t where "NO_METHOD_ERROR = 0x01"
definition ARGUMENT_ERROR :: error_type_t where "ARGUMENT_ERROR = 0x02"

lemmas protocol_consts =
  REQUEST_def RESPONSE_def NOTIFY_def UNKNOWN_def NO_METHOD_ERROR_def ARGUMENT_ERROR_def

record msg_rpc =
  rpc_type :: message_type_t

definition new_msg_rpc :: msg_rpc where
  "new_msg_rpc = \<lparr>rpc_type = UNKNOWN\<rparr>"

definition is_request :: "msg_rpc \<Rightarrow> bool" where "is_request m = (rpc_type m = REQUEST)"
definition is_response :: "msg_rpc \<Rightarrow> bool" where "is_response m = (rpc_type m = RESPONSE)"
definition is_notify :: "msg_rpc \<Rightarrow> bool" where "is_notify m = (rpc_type m = NOTIFY)"
definition is_unknown :: "msg_rpc \<Rightarrow> bool" where "is_unknown m = (rpc_type m = UNKNOWN)"

record ('m, 'p) msg_request =
  req_type :: message_type_t
  req_msgid :: msgid
  req_method :: 'm
  req_param :: 'p

definition new_msg_request :: "'m \<Rightarrow> 'p \<Rightarrow> msgid \<Rightarrow> ('m, 'p) msg_request" where
  "new_msg_request method param msgid =
     \<lparr>req_type = REQUEST, req_msgid = msgid, req_method = method, req_param = param\<rparr>"

record ('r, 'e) msg_response =
  res_type :: message_type_t
  res_msgid :: msgid
  res_error :: 'e
  res_result :: 'r

definition new_msg_response :: "'r \<Rightarrow> 'e \<Rightarrow> msgid \<Rightarrow> ('r, 'e) msg_response" where
  "new_msg_response result error msgid =
     \<lparr>res_type = RESPONSE, res_msgid = msgid, res_error = error, res_result = result\<rparr>"

record ('m, 'p) msg_notify =
  ntf_type :: message_type_t
  ntf_method :: 'm
  ntf_param :: 'p

definition new_msg_notify :: "'m \<Rightarrow> 'p \<Rightarrow> ('m, 'p) msg_notify" where
  "new_msg_notify method param =
     \<lparr>ntf_type = NOTIFY, ntf_method = method, ntf_param = param\<rparr>"

section \<open>Exceptions\<close>

text \<open>
  The structs of \<^verbatim>\<open>exception.h\<close>, each with its message (and, for \<open>remote_error\<close>, the future it
  carries), the exceptions of the handlers (\<^verbatim>\<open>closed_exception\<close>, \<^verbatim>\<open>msgpack::type_error\<close>),
  the standard ones the sources throw, and what user code or a library may throw:
  \<open>Std_exception\<close> derives from \<^verbatim>\<open>std::exception\<close>, \<open>Foreign_exception\<close> does not.
  \<open>Null_dereference\<close> is no exception but the undefined behaviour of a null pointer access; no
  handler catches it.
\<close>

datatype exn =
    rpc_error string
  | timeout_error string
  | connect_error string
  | call_error string
  | no_method_error string
  | argument_error string
  | remote_error string fid
  | closed_exception
  | type_error
  | runtime_error string
  | invalid_argument string
  | system_error errno
  | Std_exception string
  | Foreign_exception
  | Null_dereference

fun is_std_exception :: "exn \<Rightarrow> bool" where
  "is_std_exception Foreign_exception = False"
| "is_std_exception Null_dereference = False"
| "is_std_exception _ = True"

fun is_rpc_error :: "exn \<Rightarrow> bool" where
  "is_rpc_error (rpc_error _) = True"
| "is_rpc_error (timeout_error _) = True"
| "is_rpc_error (connect_error _) = True"
| "is_rpc_error (call_error _) = True"
| "is_rpc_error (no_method_error _) = True"
| "is_rpc_error (argument_error _) = True"
| "is_rpc_error (remote_error _ _) = True"
| "is_rpc_error _ = False"

definition new_timeout_error :: exn where
  "new_timeout_error = timeout_error ''request timed out''"
definition new_connect_error :: exn where
  "new_connect_error = connect_error ''connection failed''"
definition new_no_method_error :: exn where
  "new_no_method_error = no_method_error ''method not found''"
definition new_argument_error :: exn where
  "new_argument_error = argument_error ''argument mismatch''"

lemmas exn_consts =
  new_timeout_error_def new_connect_error_def new_no_method_error_def new_argument_error_def

lemma rpc_error_is_std [simp]: "is_rpc_error e \<Longrightarrow> is_std_exception e"
  by (cases e) auto

section \<open>The message identifiers of a session never repeat within a cycle\<close>

fun take_msgids :: "nat \<Rightarrow> 32 word \<Rightarrow> 32 word list \<times> 32 word" where
  "take_msgids 0 rr = ([], rr)"
| "take_msgids (Suc n) rr =
     (let (i, rr') = atomic_increment rr; (is, rr'') = take_msgids n rr' in (i # is, rr''))"

lemma take_msgids_eq:
  "take_msgids n rr = (map (\<lambda>k. rr + of_nat k) [0..<n], rr + of_nat n)"
proof (induction n arbitrary: rr)
  case 0
  then show ?case by simp
next
  case (Suc n)
  have "map (\<lambda>k. rr + of_nat k) [0..<Suc n] = rr # map (\<lambda>k. (rr + 1) + of_nat k) [0..<n]"
    by (simp add: map_upt_Suc add.assoc del: upt_Suc)
  with Suc[of "rr + 1"] show ?case
    by (simp add: atomic_increment_def add.assoc del: upt_Suc)
qed

section \<open>Properties\<close>

text \<open>
  C31: The message identifiers that a session draws from its counter are pairwise distinct for any
  2 ^ 32 consecutive requests, wherever the counter starts; the counter then stands at its start
  plus the number of requests, modulo 2 ^ 32.
\<close>

theorem msgids_distinct:
  assumes "n \<le> 2 ^ 32"
  shows "distinct (fst (take_msgids n rr)) \<and> snd (take_msgids n rr) = rr + of_nat n"
proof -
  have "inj_on (\<lambda>k. rr + of_nat k :: 32 word) {0..<n}"
    using assms by (auto intro!: inj_onI word_of_nat_inj[where 'a = 32])
  then show ?thesis by (simp add: take_msgids_eq distinct_map)
qed

lemma msgids_distinct_witness:
  "distinct (fst (take_msgids 3 0xFFFFFFFF)) \<and> fst (take_msgids 3 0xFFFFFFFF) = [0xFFFFFFFF, 0, 1]"
proof -
  have "fst (take_msgids 3 0xFFFFFFFF) = [0xFFFFFFFF, 0, 1]" by code_simp
  with msgids_distinct[of 3 "0xFFFFFFFF"] show ?thesis by simp
qed

end
