(* ===== verification/RPC_Buffer.thy ===== *)
theory RPC_Buffer
  imports RPC_Protocol
begin

text \<open>
  The byte buffer of \<^verbatim>\<open>buffer.h\<close> and \<^verbatim>\<open>buffer.cc\<close>, which either refers to foreign memory or owns
  a copy. Memory is explicit, since the point of \<open>make_unwrapped\<close> is to stop aliasing: \<open>cells\<close>
  gives the bytes that start at a pointer, \<open>next_mem\<close> the next block that \<^verbatim>\<open>new char[]\<close> returns.
\<close>

section \<open>Definitions\<close>

record memory =
  cells :: "cptr \<Rightarrow> string"
  next_mem :: nat

record buffer =
  m_size :: "32 word"
  m_ptr :: cptr
  s_ptr :: cptr   \<comment> \<open>the \<open>boost::shared_array\<close>, \<open>NULL\<close> when empty\<close>

definition new_buffer :: buffer where
  "new_buffer = \<lparr>m_size = 0, m_ptr = NULL, s_ptr = NULL\<rparr>"

definition new_buffer_ref :: "cptr \<Rightarrow> 32 word \<Rightarrow> buffer" where
  "new_buffer_ref p s = \<lparr>m_size = s, m_ptr = p, s_ptr = NULL\<rparr>"

definition buffer_size :: "buffer \<Rightarrow> int" where
  "buffer_size b = sint (m_size b)"   \<comment> \<open>\<open>uint32_t\<close> returned as \<open>int32_t\<close>\<close>

definition buffer_data :: "buffer \<Rightarrow> cptr" where
  "buffer_data b = m_ptr b"

definition buffer_clear :: "buffer \<Rightarrow> buffer" where
  "buffer_clear b = b\<lparr>s_ptr := NULL, m_size := 0, m_ptr := NULL\<rparr>"

definition buffer_wrap :: "cptr \<Rightarrow> 32 word \<Rightarrow> buffer \<Rightarrow> buffer" where
  "buffer_wrap p s b = b\<lparr>s_ptr := NULL, m_size := s, m_ptr := p\<rparr>"

definition make_unwrapped :: "buffer \<Rightarrow> memory \<Rightarrow> buffer \<times> memory" where
  "make_unwrapped b mem =
     (if s_ptr b \<noteq> NULL then (b, mem)
      else if m_ptr b \<noteq> NULL \<and> m_size b \<noteq> 0 then
        let blk = Mem (next_mem mem);
            mem' = mem\<lparr>cells := (cells mem)(blk := take (unat (m_size b)) (cells mem (m_ptr b))),
                       next_mem := Suc (next_mem mem)\<rparr>
        in (b\<lparr>s_ptr := blk, m_ptr := blk\<rparr>, mem')
      else (buffer_clear b, mem))"

text \<open>\<^verbatim>\<open>operator>>(object, buffer)\<close>; sizes of binary objects are 32-bit.\<close>

definition buffer_of_object ::
  "'x object \<Rightarrow> buffer \<Rightarrow> memory \<Rightarrow> (exn + buffer) \<times> memory" where
  "buffer_of_object ob v mem =
     (case ob of
        BIN p n \<Rightarrow>
          (let (v', mem') = make_unwrapped (buffer_wrap p (of_nat n) v) mem in (Inr v', mem'))
      | _ \<Rightarrow> (Inl type_error, mem))"

text \<open>\<^verbatim>\<open>operator<<(object, buffer)\<close>.\<close>

definition object_of_buffer :: "buffer \<Rightarrow> 'x object" where
  "object_of_buffer v = BIN (m_ptr v) (unat (m_size v))"

text \<open>
  \<^verbatim>\<open>operator<<(packer, buffer)\<close>: \<open>pack_bin\<close> writes a header with the size, \<open>pack_bin_body\<close> the bytes at
  the pointer.
\<close>

definition pack_buffer ::
  "(32 word \<Rightarrow> 'o \<Rightarrow> 'o) \<Rightarrow> (string \<Rightarrow> 'o \<Rightarrow> 'o) \<Rightarrow> memory \<Rightarrow> buffer \<Rightarrow> 'o \<Rightarrow> 'o" where
  "pack_buffer pack_bin pack_bin_body mem v o' =
     pack_bin_body (take (unat (m_size v)) (cells mem (m_ptr v))) (pack_bin (m_size v) o')"

text \<open>The bytes a reader of the buffer sees.\<close>

definition buffer_bytes :: "memory \<Rightarrow> buffer \<Rightarrow> string" where
  "buffer_bytes mem b = take (unat (m_size b)) (cells mem (m_ptr b))"

definition fresh_mem :: "memory \<Rightarrow> cptr \<Rightarrow> bool" where
  "fresh_mem mem p \<longleftrightarrow> (case p of Mem a \<Rightarrow> next_mem mem \<le> a | _ \<Rightarrow> False)"

lemmas buffer_defs [rpc_defs] =
  new_buffer_def new_buffer_ref_def buffer_size_def buffer_data_def buffer_clear_def
  buffer_wrap_def make_unwrapped_def buffer_of_object_def object_of_buffer_def
  buffer_bytes_def fresh_mem_def Let_def

section \<open>Lemmas\<close>

lemma make_unwrapped_bytes:
  "buffer_bytes (snd (make_unwrapped b mem)) (fst (make_unwrapped b mem)) =
     (if s_ptr b = NULL \<and> m_ptr b = NULL then [] else buffer_bytes mem b)"
  by (auto simp: rpc_defs)

lemma make_unwrapped_owned:
  "s_ptr (fst (make_unwrapped b mem)) = NULL \<Longrightarrow>
    fst (make_unwrapped b mem) = \<lparr>m_size = 0, m_ptr = NULL, s_ptr = NULL\<rparr>"
  if "s_ptr b = NULL" for b
  using that by (cases b) (auto simp: rpc_defs split: if_splits)

lemma make_unwrapped_idem:
  "make_unwrapped b mem = (b', mem') \<Longrightarrow> make_unwrapped b' mem' = (b', mem')"
  by (cases b) (auto simp: rpc_defs split: if_splits)

lemma buffer_of_object_BIN:
  assumes "n < 2 ^ 32" "0 < n" "p \<noteq> NULL"
  shows "buffer_of_object (BIN p n) v mem =
    (Inr \<lparr>m_size = of_nat n, m_ptr = Mem (next_mem mem), s_ptr = Mem (next_mem mem), \<dots> = ()\<rparr>,
     mem\<lparr>cells := (cells mem)(Mem (next_mem mem) := take n (cells mem p)),
         next_mem := Suc (next_mem mem)\<rparr>)"
proof -
  have "unat (of_nat n :: 32 word) = n"
    using assms(1) by (simp add: unat_of_nat take_bit_nat_eq_self)
  moreover have "(of_nat n :: 32 word) \<noteq> 0"
    using calculation assms(2) by (metis less_numeral_extra(3) unsigned_0)
  ultimately show ?thesis
    using assms(3) by (cases v) (simp add: rpc_defs)
qed

text \<open>A buffer and the copy that \<open>make_unwrapped\<close> makes of it are packed alike.\<close>

lemma pack_buffer_unwrapped:
  assumes "m_ptr b \<noteq> NULL" "m_size b \<noteq> 0"
  shows "pack_buffer pb body (snd (make_unwrapped b mem)) (fst (make_unwrapped b mem)) = pack_buffer pb body mem b"
  using assms by (auto simp: rpc_defs pack_buffer_def)

lemma buffer_size_bounds:
  "buffer_size b = (if uint (m_size b) < 2 ^ 31 then uint (m_size b)
                    else uint (m_size b) - 2 ^ 32)"
proof -
  let ?u = "uint (m_size b)"
  have range: "0 \<le> ?u" "?u < 2 ^ 32"
    using uint_bounded[of "m_size b"] by simp_all
  have "sint (m_size b) = (?u + 2 ^ 31) mod 2 ^ 32 - 2 ^ 31"
    by (simp add: sint_uint signed_take_bit_eq_take_bit_shift take_bit_eq_mod)
  also have "\<dots> = (if ?u < 2 ^ 31 then ?u else ?u - 2 ^ 32)"
  proof (cases "?u < 2 ^ 31")
    case True
    with range show ?thesis by (simp add: mod_pos_pos_trivial)
  next
    case False
    have "(?u + 2 ^ 31) mod 2 ^ 32 = (?u + 2 ^ 31 - 2 ^ 32) mod 2 ^ 32"
      by (simp only: minus_mod_self2)
    also have "\<dots> = ?u + 2 ^ 31 - 2 ^ 32"
      using range False by (intro mod_pos_pos_trivial) simp_all
    finally show ?thesis using False by simp
  qed
  finally show ?thesis
    by (simp add: buffer_size_def)
qed

section \<open>Properties\<close>

text \<open>
  Converting a non-empty binary object to a buffer copies its bytes: the buffer holds them, owns
  its memory, and what is written to the memory of the object afterwards does not change it. Any
  other object is rejected with \<open>type_error\<close>.
\<close>

lemma buffer_of_object_copies:
  assumes "n < 2 ^ 32" "0 < n" "p \<noteq> NULL" "\<not> fresh_mem mem p"
  shows "\<exists>b mem'. buffer_of_object (BIN p n) v mem = (Inr b, mem') \<and>
    buffer_bytes mem' b = take n (cells mem p) \<and> s_ptr b = m_ptr b \<and> m_ptr b \<noteq> p \<and>
    (\<forall>bs. buffer_bytes (mem'\<lparr>cells := (cells mem')(p := bs)\<rparr>) b = take n (cells mem p)) \<and>
    (\<forall>ob. \<not> (\<exists>p n. ob = BIN p n) \<longrightarrow> buffer_of_object ob v mem = (Inl type_error, mem))"
proof -
  have "unat (of_nat n :: 32 word) = n"
    using assms(1) by (simp add: unat_of_nat take_bit_nat_eq_self)
  moreover have "p \<noteq> Mem (next_mem mem)" using assms(4) by (auto simp: fresh_mem_def)
  moreover have "buffer_of_object ob v mem = (Inl type_error, mem)" if "\<not> (\<exists>p n. ob = BIN p n)" for ob
    using that by (cases ob) (auto simp: buffer_of_object_def)
  ultimately show ?thesis
    unfolding buffer_of_object_BIN[OF assms(1-3), of v mem] by (auto simp: buffer_bytes_def)
qed

text \<open>
  \<open>buffer::size\<close> returns the size as a signed 32-bit number: it is the number of bytes up to
  2 ^ 31 - 1 and negative from 2 ^ 31 on.
\<close>

lemma buffer_size_sign:
  "(if uint (m_size b) < 2 ^ 31 then buffer_size b = uint (m_size b)
    else buffer_size b = uint (m_size b) - 2 ^ 32) \<and>
   (buffer_size b < 0 \<longleftrightarrow> 2 ^ 31 \<le> uint (m_size b))"
  using buffer_size_bounds[of b] uint_bounded[of "m_size b"] by (auto simp: not_less)

end
