(* ===== verification/RPC_Loop.thy ===== *)
theory RPC_Loop
  imports RPC_Protocol
begin

text \<open>
  The event loop wrapper (\<^verbatim>\<open>loop.h\<close>, \<^verbatim>\<open>loop.cc\<close>). The \<^verbatim>\<open>io_service\<close> and the threads are
  Boost's: the model keeps the worker vector, which the sources test in \<open>is_running\<close>, and the
  sequence of calls that the wrapper makes on the \<^verbatim>\<open>io_service\<close> and on its threads.
\<close>

section \<open>Definitions\<close>

datatype io_call =
    Io_run | Io_run_one | Io_poll | Io_stop
  | Io_post cbid fid      \<comment> \<open>\<open>post\<close> of a user callback bound to a future\<close>
  | Thread_spawn nat      \<comment> \<open>\<open>new boost::thread\<close> running \<open>io_service::run\<close>\<close>
  | Thread_join nat
  | Thread_detach nat

record loop_impl =
  l_workers :: "nat list"     \<comment> \<open>the thread handles of \<open>m_workers\<close>\<close>
  l_calls :: "io_call list"
  l_next :: nat               \<comment> \<open>the handle the next thread gets\<close>

definition new_loop :: loop_impl where
  "new_loop = \<lparr>l_workers = [], l_calls = [], l_next = 0\<rparr>"

definition io_log :: "io_call list \<Rightarrow> loop_impl \<Rightarrow> loop_impl" where
  "io_log cs lo = lo\<lparr>l_calls := l_calls lo @ cs\<rparr>"

definition is_running :: "loop_impl \<Rightarrow> bool" where
  "is_running lo = (l_workers lo \<noteq> [])"

fun add_worker :: "nat \<Rightarrow> loop_impl \<Rightarrow> loop_impl" where
  "add_worker 0 lo = lo"
| "add_worker (Suc n) lo =
     add_worker n (lo\<lparr>l_workers := l_workers lo @ [l_next lo],
                      l_calls := l_calls lo @ [Thread_spawn (l_next lo)],
                      l_next := Suc (l_next lo)\<rparr>)"

definition loop_start :: "nat \<Rightarrow> loop_impl \<Rightarrow> exn + loop_impl" where
  "loop_start num lo =
     (if num > 0 then
        (if is_running lo then Inl (runtime_error ''loop is already running'')
         else Inr (add_worker num lo))
      else Inr lo)"

definition loop_run :: "nat \<Rightarrow> loop_impl \<Rightarrow> exn + loop_impl" where
  "loop_run num lo =
     (case (if \<not> is_running lo then loop_start num lo else Inr lo) of
        Inl e \<Rightarrow> Inl e
      | Inr lo' \<Rightarrow> Inr (io_log [Io_run] lo'))"

definition loop_run_once :: "loop_impl \<Rightarrow> loop_impl" where
  "loop_run_once lo = io_log [Io_run_one] lo"

definition loop_end :: "loop_impl \<Rightarrow> loop_impl" where
  "loop_end lo = io_log [Io_stop] lo"

definition loop_flush :: "loop_impl \<Rightarrow> loop_impl" where
  "loop_flush lo = io_log [Io_poll] lo"

definition loop_submit :: "cbid \<Rightarrow> fid \<Rightarrow> loop_impl \<Rightarrow> loop_impl" where
  "loop_submit cb f lo = io_log [Io_post cb f] lo"

text \<open>
  \<open>join\<close> visits the workers in order; a thread whose \<^verbatim>\<open>join\<close> throws \<^verbatim>\<open>thread_resource_error\<close>
  (the argument \<open>fails\<close>) is detached.
\<close>

fun join_workers :: "(nat \<Rightarrow> bool) \<Rightarrow> nat list \<Rightarrow> loop_impl \<Rightarrow> loop_impl" where
  "join_workers fails [] lo = lo"
| "join_workers fails (t # ts) lo =
     join_workers fails ts
       (io_log (if fails t then [Thread_join t, Thread_detach t] else [Thread_join t]) lo)"

definition loop_join :: "(nat \<Rightarrow> bool) \<Rightarrow> loop_impl \<Rightarrow> loop_impl" where
  "loop_join fails lo = (join_workers fails (l_workers lo) lo)\<lparr>l_workers := []\<rparr>"

text \<open>The destructor.\<close>

definition loop_destroy :: "(nat \<Rightarrow> bool) \<Rightarrow> loop_impl \<Rightarrow> loop_impl" where
  "loop_destroy fails lo = loop_join fails (loop_end lo)"

section \<open>Lemmas\<close>

lemma io_log_simps [simp]:
  "l_workers (io_log cs lo) = l_workers lo" "l_next (io_log cs lo) = l_next lo"
  "l_calls (io_log cs lo) = l_calls lo @ cs"
  by (simp_all add: io_log_def)

lemma is_running_io_log [simp]: "is_running (io_log cs lo) = is_running lo"
  by (simp add: is_running_def)

lemma add_worker_eq:
  "add_worker n lo =
     lo\<lparr>l_workers := l_workers lo @ [l_next lo..<l_next lo + n],
        l_calls := l_calls lo @ map Thread_spawn [l_next lo..<l_next lo + n],
        l_next := l_next lo + n\<rparr>"
proof (induction n arbitrary: lo)
  case 0
  then show ?case by simp
next
  case (Suc n)
  have "[l_next lo..<l_next lo + Suc n] = l_next lo # [Suc (l_next lo)..<l_next lo + Suc n]"
    by (simp add: upt_conv_Cons)
  then show ?case by (simp add: Suc del: upt_Suc)
qed

lemma join_workers_eq:
  "join_workers fails ts lo =
     lo\<lparr>l_calls := l_calls lo @
        concat (map (\<lambda>t. if fails t then [Thread_join t, Thread_detach t] else [Thread_join t]) ts)\<rparr>"
  by (induction ts arbitrary: lo) (auto simp: io_log_def)

lemma loop_join_not_running [simp]: "\<not> is_running (loop_join fails lo)"
  by (simp add: loop_join_def is_running_def)

section \<open>Properties\<close>

text \<open>
  Starting a loop that is not running with \<open>num\<close> threads spawns exactly \<open>num\<close> new workers and
  makes it running; starting it again fails with \<open>runtime_error\<close> and spawns nothing; joining it
  joins each of the workers once and leaves it stopped, so that it can be started again.
\<close>

lemma loop_lifecycle:
  assumes "\<not> is_running lo" "0 < num"
  shows "\<exists>lo'. loop_start num lo = Inr lo' \<and> is_running lo' \<and>
    l_workers lo' = [l_next lo..<l_next lo + num] \<and>
    l_calls lo' = l_calls lo @ map Thread_spawn (l_workers lo') \<and>
    (\<forall>m > 0. loop_start m lo' = Inl (runtime_error ''loop is already running'')) \<and>
    \<not> is_running (loop_join (\<lambda>_. False) lo') \<and>
    l_calls (loop_join (\<lambda>_. False) lo') = l_calls lo' @ map Thread_join (l_workers lo')"
proof -
  have "concat (map (\<lambda>t. [Thread_join t]) ts) = map Thread_join ts" for ts
    by (induction ts) auto
  with assms show ?thesis
    by (auto simp: loop_start_def add_worker_eq is_running_def loop_join_def join_workers_eq)
qed

end
