(* ===== verification/RPC_Future.thy ===== *)
theory RPC_Future
  imports RPC_Loop
begin

text \<open>
  Futures (\<^verbatim>\<open>future.h\<close>, \<^verbatim>\<open>future_impl.h\<close>, \<^verbatim>\<open>future.cc\<close>) and the mapping of error objects to
  exceptions (\<^verbatim>\<open>exception.cc\<close>). A \<open>future_impl\<close> is shared between the user, the request table
  and the waiting thread, so the operations work on a heap of futures; the heap also holds the
  loops and a log of what the library does towards waiting threads and user callbacks. User
  callbacks themselves are opaque: a run of a callback is an entry of the log, and what it throws
  is swallowed by \<^verbatim>\<open>callback_real\<close>.
\<close>

section \<open>Definitions\<close>

record 'x future_impl =
  f_msgid :: msgid
  f_session :: "sid option"     \<comment> \<open>\<open>m_session\<close>: reset when the result is set\<close>
  f_loop :: lid
  f_timeout :: uint
  f_callback :: "cbid option"
  f_result :: "'x object"
  f_error :: "'x object"
  f_zone :: "zone option"

datatype effect =
    Notify_all fid            \<comment> \<open>\<open>m_cond.notify_all()\<close>\<close>
  | Run_callback cbid fid     \<comment> \<open>\<open>callback_real(m_callback, ...)\<close> inside \<open>set_result\<close>\<close>

record 'x heap =
  h_futures :: "'x future_impl list"
  h_loops :: "loop_impl list"
  h_log :: "effect list"

subsection \<open>Error objects (exception.cc)\<close>

definition TIMEOUT_ERROR :: "'x object" where
  "TIMEOUT_ERROR = BIN TIMEOUT_ERROR_PTR (length ''request timed out'')"

definition CONNECT_ERROR :: "'x object" where
  "CONNECT_ERROR = BIN CONNECT_ERROR_PTR (length ''connection failed'')"

text \<open>\<open>show_object\<close> is msgpack's stream output of an object.\<close>

definition throw_exception :: "('x object \<Rightarrow> string) \<Rightarrow> fid \<Rightarrow> 'x future_impl \<Rightarrow> exn" where
  "throw_exception show_object f fi =
     (case f_error fi of
        BIN p n \<Rightarrow>
          (if p = TIMEOUT_ERROR_PTR then new_timeout_error
           else if p = CONNECT_ERROR_PTR then new_connect_error
           else remote_error (''remote error: '' @ show_object (f_error fi)) f)
      | POSITIVE_INTEGER u \<Rightarrow>
          (if u = ucast NO_METHOD_ERROR then new_no_method_error
           else if u = ucast ARGUMENT_ERROR then new_argument_error
           else remote_error (''remote error: '' @ show_object (f_error fi)) f)
      | _ \<Rightarrow> remote_error (''remote error: '' @ show_object (f_error fi)) f)"

subsection \<open>future\_impl\<close>

definition new_future_impl :: "msgid \<Rightarrow> sid \<Rightarrow> lid \<Rightarrow> uint \<Rightarrow> 'x future_impl" where
  "new_future_impl msgid s lo timeout =
     \<lparr>f_msgid = msgid, f_session = Some s, f_loop = lo, f_timeout = timeout, f_callback = None,
      f_result = NIL, f_error = NIL, f_zone = None\<rparr>"

definition is_ready :: "'x future_impl \<Rightarrow> bool" where
  "is_ready fi = (f_session fi = None)"

definition step_timeout :: "'x future_impl \<Rightarrow> bool \<times> 'x future_impl" where
  "step_timeout fi =
     (if f_timeout fi > 0 then (False, fi\<lparr>f_timeout := f_timeout fi - 1\<rparr>) else (True, fi))"

abbreviation fut :: "('x, 'z) heap_scheme \<Rightarrow> fid \<Rightarrow> 'x future_impl" where
  "fut h f \<equiv> h_futures h ! f"

abbreviation ready :: "('x, 'z) heap_scheme \<Rightarrow> fid \<Rightarrow> bool" where
  "ready h f \<equiv> is_ready (fut h f)"

definition put_future ::
  "fid \<Rightarrow> 'x future_impl \<Rightarrow> ('x, 'z) heap_scheme \<Rightarrow> ('x, 'z) heap_scheme" where
  "put_future f fi h = h\<lparr>h_futures := (h_futures h)[f := fi]\<rparr>"

definition log_effects :: "effect list \<Rightarrow> ('x, 'z) heap_scheme \<Rightarrow> ('x, 'z) heap_scheme" where
  "log_effects es h = h\<lparr>h_log := h_log h @ es\<rparr>"

definition on_loop ::
  "lid \<Rightarrow> (loop_impl \<Rightarrow> loop_impl) \<Rightarrow> ('x, 'z) heap_scheme \<Rightarrow> ('x, 'z) heap_scheme" where
  "on_loop l g h = h\<lparr>h_loops := (h_loops h)[l := g (h_loops h ! l)]\<rparr>"

definition attach_callback ::
  "fid \<Rightarrow> cbid \<Rightarrow> ('x, 'z) heap_scheme \<Rightarrow> ('x, 'z) heap_scheme" where
  "attach_callback f func h =
     (if f_session (fut h f) = None
      then on_loop (f_loop (fut h f)) (loop_submit func f) h
      else put_future f ((fut h f)\<lparr>f_callback := Some func\<rparr>) h)"

definition set_result ::
  "fid \<Rightarrow> 'x object \<Rightarrow> 'x object \<Rightarrow> zone option \<Rightarrow> ('x, 'z) heap_scheme \<Rightarrow> ('x, 'z) heap_scheme"
where
  "set_result f result error z h =
     (let fi = (fut h f)\<lparr>f_result := result, f_error := error, f_zone := z, f_session := None\<rparr>
      in case f_callback fi of
           None \<Rightarrow> log_effects [Notify_all f] (put_future f fi h)
         | Some cb \<Rightarrow>
             log_effects [Notify_all f, Run_callback cb f]
               (put_future f (fi\<lparr>f_callback := None\<rparr>) h))"

text \<open>
  The blocking operations. \<open>cond_wait\<close> and \<open>cond_timed_wait\<close> (the condition variable; the latter
  returns false when the time is over) and \<open>run_one\<close> (one handler of the event loop) are Boost's:
  while a thread blocks in them, other threads or handlers change the heap.
\<close>

record 'w blocking =
  cond_wait :: "'w \<Rightarrow> 'w"
  cond_timed_wait :: "uint \<Rightarrow> 'w \<Rightarrow> bool \<times> 'w"
  run_one :: "'w \<Rightarrow> 'w"

partial_function (option) wait_loop ::
  "('x, 'z) heap_scheme blocking \<Rightarrow> fid \<Rightarrow> ('x, 'z) heap_scheme \<Rightarrow> ('x, 'z) heap_scheme option"
where
  "wait_loop env f h = (if is_ready (fut h f) then Some h else wait_loop env f (cond_wait env h))"

partial_function (option) timed_wait ::
  "('x, 'z) heap_scheme blocking \<Rightarrow> fid \<Rightarrow> uint \<Rightarrow> ('x, 'z) heap_scheme \<Rightarrow>
   (bool \<times> ('x, 'z) heap_scheme) option"
where
  "timed_wait env f ms h =
     (if is_ready (fut h f) then Some (True, h)
      else if \<not> fst (cond_timed_wait env ms h)
      then Some (False, set_result f NIL TIMEOUT_ERROR None (snd (cond_timed_wait env ms h)))
      else timed_wait env f ms (snd (cond_timed_wait env ms h)))"

partial_function (option) recv ::
  "('x, 'z) heap_scheme blocking \<Rightarrow> fid \<Rightarrow> ('x, 'z) heap_scheme \<Rightarrow> ('x, 'z) heap_scheme option"
where
  "recv env f h = (if is_ready (fut h f) then Some h else recv env f (run_one env h))"

definition join ::
  "('x, 'z) heap_scheme blocking \<Rightarrow> fid \<Rightarrow> ('x, 'z) heap_scheme \<Rightarrow> ('x, 'z) heap_scheme option"
where
  "join env f h =
     (if is_running (h_loops h ! f_loop (fut h f))
      then map_option snd (timed_wait env f (f_timeout (fut h f) * 1000) h)
      else recv env f h)"

subsection \<open>future: the handle\<close>

record future =
  fu_method :: string
  fu_pimpl :: "fid option"

definition future_msgid :: "('x, 'z) heap_scheme \<Rightarrow> future \<Rightarrow> msgid" where
  "future_msgid h fu = (case fu_pimpl fu of None \<Rightarrow> 0 | Some f \<Rightarrow> f_msgid (fut h f))"

definition future_is_nil :: "future \<Rightarrow> bool" where
  "future_is_nil fu = (fu_pimpl fu = None)"

definition future_is_ready :: "('x, 'z) heap_scheme \<Rightarrow> future \<Rightarrow> exn + bool" where
  "future_is_ready h fu =
     (case fu_pimpl fu of None \<Rightarrow> Inl Null_dereference | Some f \<Rightarrow> Inr (is_ready (fut h f)))"

definition get_impl ::
  "('x object \<Rightarrow> string) \<Rightarrow> ('x, 'z) heap_scheme blocking \<Rightarrow> future \<Rightarrow> ('x, 'z) heap_scheme \<Rightarrow>
   ((exn + 'x object) \<times> ('x, 'z) heap_scheme) option"
where
  "get_impl show_object env fu h =
     (case fu_pimpl fu of
        None \<Rightarrow> Some (Inl (runtime_error ''null future reference''), h)
      | Some f \<Rightarrow>
          (case (if \<not> is_ready (fut h f) then join env f h else Some h) of
             None \<Rightarrow> None
           | Some h' \<Rightarrow>
               Some (if \<not> is_nil (f_error (fut h' f))
                     then Inl (throw_exception show_object f (fut h' f))
                     else Inr (f_result (fut h' f)), h')))"

text \<open>\<open>future::get\<close>: \<open>as\<close> is msgpack's conversion, \<open>None\<close> when it throws \<open>type_error\<close>.\<close>

definition future_get ::
  "('x object \<Rightarrow> string) \<Rightarrow> ('x object \<Rightarrow> 'a option) \<Rightarrow> ('x, 'z) heap_scheme blocking \<Rightarrow> future \<Rightarrow>
   ('x, 'z) heap_scheme \<Rightarrow> ((exn + 'a) \<times> ('x, 'z) heap_scheme) option"
where
  "future_get show_object as env fu h =
     map_option (\<lambda>(r, h').
        (case r of
           Inl e \<Rightarrow> Inl e
         | Inr ob \<Rightarrow> (case as ob of None \<Rightarrow> Inl type_error | Some v \<Rightarrow> Inr v), h'))
       (get_impl show_object env fu h)"

text \<open>\<open>future::get(auto_zone*)\<close> also moves the zone of the result out of the future.\<close>

definition future_get_zone ::
  "('x object \<Rightarrow> string) \<Rightarrow> ('x object \<Rightarrow> 'a option) \<Rightarrow> ('x, 'z) heap_scheme blocking \<Rightarrow> future \<Rightarrow>
   ('x, 'z) heap_scheme \<Rightarrow> ((exn + 'a) \<times> zone option \<times> ('x, 'z) heap_scheme) option"
where
  "future_get_zone show_object as env fu h =
     map_option (\<lambda>(r, h').
        (case (r, fu_pimpl fu) of
           (Inr ob, Some f) \<Rightarrow>
             (case as ob of None \<Rightarrow> Inl type_error | Some v \<Rightarrow> Inr v,
              f_zone (fut h' f), put_future f ((fut h' f)\<lparr>f_zone := None\<rparr>) h')
         | (Inr ob, None) \<Rightarrow> (Inl Null_dereference, None, h')
         | (Inl e, _) \<Rightarrow> (Inl e, None, h')))
       (get_impl show_object env fu h)"

definition future_wait ::
  "('x object \<Rightarrow> string) \<Rightarrow> ('x, 'z) heap_scheme blocking \<Rightarrow> bool \<Rightarrow> future \<Rightarrow>
   ('x, 'z) heap_scheme \<Rightarrow> (exn option \<times> ('x, 'z) heap_scheme) option"
where
  "future_wait show_object env rethrow fu h =
     (case (case fu_pimpl fu of
              Some f \<Rightarrow> if \<not> is_ready (fut h f) then join env f h else Some h
            | None \<Rightarrow> Some h) of
        None \<Rightarrow> None
      | Some h' \<Rightarrow>
          (if rethrow
           then map_option (\<lambda>(r, h''). (case r of Inl e \<Rightarrow> Some e | Inr _ \<Rightarrow> None, h''))
                  (get_impl show_object env fu h')
           else Some (None, h')))"

text \<open>The remaining members forward to the implementation; a null handle is dereferenced.\<close>

definition future_timed_wait ::
  "('x, 'z) heap_scheme blocking \<Rightarrow> uint \<Rightarrow> future \<Rightarrow> ('x, 'z) heap_scheme \<Rightarrow>
   ((exn + bool) \<times> ('x, 'z) heap_scheme) option"
where
  "future_timed_wait env ms fu h =
     (case fu_pimpl fu of
        None \<Rightarrow> Some (Inl Null_dereference, h)
      | Some f \<Rightarrow> map_option (\<lambda>(b, h'). (Inr b, h')) (timed_wait env f ms h))"

definition future_result :: "('x, 'z) heap_scheme \<Rightarrow> future \<Rightarrow> exn + 'x object" where
  "future_result h fu =
     (case fu_pimpl fu of None \<Rightarrow> Inl Null_dereference | Some f \<Rightarrow> Inr (f_result (fut h f)))"

definition future_error :: "('x, 'z) heap_scheme \<Rightarrow> future \<Rightarrow> exn + 'x object" where
  "future_error h fu =
     (case fu_pimpl fu of None \<Rightarrow> Inl Null_dereference | Some f \<Rightarrow> Inr (f_error (fut h f)))"

text \<open>
  \<open>result_as\<close> and \<open>error_as\<close> convert without waiting; \<open>get<void>\<close> (also of \<^verbatim>\<open>future::type<void>\<close>)
  converts to msgpack's \<^verbatim>\<open>nil\<close>, by \<open>as_nil\<close>.
\<close>

definition future_result_as ::
  "('x object \<Rightarrow> 'a option) \<Rightarrow> ('x, 'z) heap_scheme \<Rightarrow> future \<Rightarrow> exn + 'a" where
  "future_result_as as h fu =
     (case future_result h fu of
        Inl e \<Rightarrow> Inl e
      | Inr ob \<Rightarrow> (case as ob of None \<Rightarrow> Inl type_error | Some v \<Rightarrow> Inr v))"

definition future_error_as ::
  "('x object \<Rightarrow> 'a option) \<Rightarrow> ('x, 'z) heap_scheme \<Rightarrow> future \<Rightarrow> exn + 'a" where
  "future_error_as as h fu =
     (case future_error h fu of
        Inl e \<Rightarrow> Inl e
      | Inr ob \<Rightarrow> (case as ob of None \<Rightarrow> Inl type_error | Some v \<Rightarrow> Inr v))"

definition future_get_void ::
  "('x object \<Rightarrow> string) \<Rightarrow> ('x object \<Rightarrow> unit option) \<Rightarrow> ('x, 'z) heap_scheme blocking \<Rightarrow> future \<Rightarrow>
   ('x, 'z) heap_scheme \<Rightarrow> ((exn + unit) \<times> ('x, 'z) heap_scheme) option"
where
  "future_get_void show_object as_nil env fu h = future_get show_object as_nil env fu h"

definition future_get_void_zone ::
  "('x object \<Rightarrow> string) \<Rightarrow> ('x object \<Rightarrow> unit option) \<Rightarrow> ('x, 'z) heap_scheme blocking \<Rightarrow> future \<Rightarrow>
   ('x, 'z) heap_scheme \<Rightarrow> ((exn + unit) \<times> zone option \<times> ('x, 'z) heap_scheme) option"
where
  "future_get_void_zone show_object as_nil env fu h = future_get_zone show_object as_nil env fu h"

definition future_void_result ::
  "('x object \<Rightarrow> unit option) \<Rightarrow> ('x, 'z) heap_scheme \<Rightarrow> future \<Rightarrow> exn + unit" where
  "future_void_result as_nil h fu = future_result_as as_nil h fu"

definition future_attach_callback ::
  "cbid \<Rightarrow> future \<Rightarrow> ('x, 'z) heap_scheme \<Rightarrow> exn option \<times> ('x, 'z) heap_scheme" where
  "future_attach_callback func fu h =
     (case fu_pimpl fu of
        None \<Rightarrow> (Some Null_dereference, h)
      | Some f \<Rightarrow> (None, attach_callback f func h))"

definition future_eq :: "future \<Rightarrow> future \<Rightarrow> bool" where
  "future_eq fu gu = (fu_pimpl fu = fu_pimpl gu)"

section \<open>Lemmas on single operations\<close>

lemma put_future_simps [simp]:
  "h_loops (put_future f fi h) = h_loops h" "h_log (put_future f fi h) = h_log h"
  "length (h_futures (put_future f fi h)) = length (h_futures h)"
  "heap.more (put_future f fi h) = heap.more h"
  by (simp_all add: put_future_def)

lemma fut_put_future: "fut (put_future f fi h) g = (if f = g \<and> f < length (h_futures h) then fi else fut h g)"
  by (simp add: put_future_def nth_list_update_if)

lemma log_effects_simps [simp]:
  "h_futures (log_effects es h) = h_futures h" "h_loops (log_effects es h) = h_loops h"
  "h_log (log_effects es h) = h_log h @ es" "heap.more (log_effects es h) = heap.more h"
  by (simp_all add: log_effects_def)

lemma on_loop_simps [simp]:
  "h_futures (on_loop l g h) = h_futures h" "h_log (on_loop l g h) = h_log h"
  "heap.more (on_loop l g h) = heap.more h"
  by (simp_all add: on_loop_def)

lemma set_result_frame [simp]:
  "length (h_futures (set_result f r e z h)) = length (h_futures h)"
  "h_loops (set_result f r e z h) = h_loops h"
  "heap.more (set_result f r e z h) = heap.more h"
  by (auto simp: set_result_def Let_def split: option.split)

lemma fut_set_result:
  "fut (set_result f r e z h) g =
     (if f = g \<and> f < length (h_futures h)
      then (fut h f)\<lparr>f_result := r, f_error := e, f_zone := z, f_session := None, f_callback := None\<rparr>
      else fut h g)"
  by (auto simp: set_result_def Let_def fut_put_future split: option.split)

lemma fut_set_result_other [simp]: "f \<noteq> g \<Longrightarrow> fut (set_result f r e z h) g = fut h g"
  by (simp add: fut_set_result)

lemma f_msgid_set_result [simp]: "f_msgid (fut (set_result f r e z h) g) = f_msgid (fut h g)"
  by (simp add: fut_set_result)

lemma ready_set_result:
  "g < length (h_futures h) \<Longrightarrow> ready (set_result f r e z h) g \<longleftrightarrow> f = g \<or> ready h g"
  by (auto simp: fut_set_result is_ready_def)

lemma h_log_set_result:
  "h_log (set_result f r e z h) =
     h_log h @ Notify_all f # (case f_callback (fut h f) of None \<Rightarrow> [] | Some cb \<Rightarrow> [Run_callback cb f])"
  by (auto simp: set_result_def Let_def split: option.split)

lemma attach_callback_frame [simp]:
  "length (h_futures (attach_callback f cb h)) = length (h_futures h)"
  "h_log (attach_callback f cb h) = h_log h"
  "heap.more (attach_callback f cb h) = heap.more h"
  by (simp_all add: attach_callback_def)

lemma step_timeout_simps [simp]:
  "f_msgid (snd (step_timeout fi)) = f_msgid fi" "f_session (snd (step_timeout fi)) = f_session fi"
  "f_callback (snd (step_timeout fi)) = f_callback fi" "f_result (snd (step_timeout fi)) = f_result fi"
  "f_error (snd (step_timeout fi)) = f_error fi" "f_loop (snd (step_timeout fi)) = f_loop fi"
  by (simp_all add: step_timeout_def)

lemma fst_step_timeout: "fst (step_timeout fi) \<longleftrightarrow> f_timeout fi = 0"
  by (auto simp: step_timeout_def word_gt_0)

lemma unat_step_timeout:
  "unat (f_timeout (snd (step_timeout fi))) = unat (f_timeout fi) - 1"
  by (simp add: step_timeout_def unat_minus_one_pos word_gt_0)

section \<open>Error classification\<close>

lemma throw_exception_rpc_error: "is_rpc_error (throw_exception sh f fi)"
  by (auto simp: throw_exception_def exn_consts split: object.split)

lemma throw_exception_local [simp]:
  "f_error fi = TIMEOUT_ERROR \<Longrightarrow> throw_exception sh f fi = new_timeout_error"
  "f_error fi = CONNECT_ERROR \<Longrightarrow> throw_exception sh f fi = new_connect_error"
  by (simp_all add: throw_exception_def TIMEOUT_ERROR_def CONNECT_ERROR_def)

text \<open>
  On a completed future without error, \<open>get\<close> is \<open>result_as\<close> and does not touch the heap.
\<close>

lemma future_get_ready:
  assumes "fu_pimpl fu = Some f" "ready h f" "is_nil (f_error (fut h f))"
  shows "future_get sh as env fu h = Some (future_result_as as h fu, h)"
  using assms by (simp add: future_get_def get_impl_def future_result_as_def future_result_def)

lemma local_errors_not_nil [simp]: "TIMEOUT_ERROR \<noteq> NIL" "CONNECT_ERROR \<noteq> NIL"
  by (simp_all add: TIMEOUT_ERROR_def CONNECT_ERROR_def)

section \<open>Blocking operations\<close>

lemma timed_wait_ready: "ready h f \<Longrightarrow> timed_wait env f ms h = Some (True, h)"
  by (subst timed_wait.simps) simp

lemma recv_ready: "ready h f \<Longrightarrow> recv env f h = Some h"
  by (subst recv.simps) simp

text \<open>If the future becomes ready after some handlers ran, \<open>recv\<close> returns at the first such point.\<close>

lemma recv_returns:
  assumes "ready ((run_one env ^^ n) h) f"
  shows "\<exists>m \<le> n. recv env f h = Some ((run_one env ^^ m) h) \<and> ready ((run_one env ^^ m) h) f"
  using assms
proof (induction n arbitrary: h)
  case 0
  then show ?case using recv_ready[of h f env] by auto
next
  case (Suc n)
  show ?case
  proof (cases "ready h f")
    case True
    then show ?thesis using recv_ready[of h f env] by (intro exI[of _ 0]) auto
  next
    case False
    from Suc.prems have "ready ((run_one env ^^ n) (run_one env h)) f"
      by (simp add: funpow_swap1)
    from Suc.IH[OF this] obtain m where m: "m \<le> n"
      "recv env f (run_one env h) = Some ((run_one env ^^ m) (run_one env h))"
      "ready ((run_one env ^^ m) (run_one env h)) f" by blast
    have "recv env f h = recv env f (run_one env h)"
      using False by (subst recv.simps) simp
    with m show ?thesis by (intro exI[of _ "Suc m"]) (simp add: funpow_swap1)
  qed
qed

text \<open>The states a waiting thread sees when the condition variable wakes it up.\<close>

fun wake ::
  "('x, 'z) heap_scheme blocking \<Rightarrow> uint \<Rightarrow> nat \<Rightarrow> ('x, 'z) heap_scheme \<Rightarrow> ('x, 'z) heap_scheme"
where
  "wake env ms 0 h = h"
| "wake env ms (Suc n) h = wake env ms n (snd (cond_timed_wait env ms h))"

text \<open>
  \<open>timed_wait\<close> returns if, within finitely many wake-ups, the future is ready or the time is over.
\<close>

lemma timed_wait_returns:
  assumes "ready (wake env ms n h) f \<or> \<not> fst (cond_timed_wait env ms (wake env ms n h))"
  shows "\<exists>b h'. timed_wait env f ms h = Some (b, h')"
  using assms
proof (induction n arbitrary: h)
  case 0
  then show ?case by (subst timed_wait.simps) auto
next
  case (Suc n)
  from Suc.prems have *: "ready (wake env ms n (snd (cond_timed_wait env ms h))) f \<or>
      \<not> fst (cond_timed_wait env ms (wake env ms n (snd (cond_timed_wait env ms h))))"
    by simp
  from Suc.IH[OF this] show ?case
    by (subst timed_wait.simps) auto
qed

text \<open>What a returning \<open>timed_wait\<close> has done.\<close>

lemma timed_wait_result:
  assumes "timed_wait env f ms h = Some (b, h')"
  shows "if b then ready h' f else \<exists>h1. h' = set_result f NIL TIMEOUT_ERROR None h1"
proof -
  have "if fst (b, h') then ready (snd (b, h')) f
        else \<exists>h1. snd (b, h') = set_result f NIL TIMEOUT_ERROR None h1"
    by (rule timed_wait.raw_induct
          [where P = "\<lambda>env f ms h r. if fst r then ready (snd r) f
             else \<exists>h1. snd r = set_result f NIL TIMEOUT_ERROR None h1", OF _ assms])
       (auto split: if_splits)
  then show ?thesis by (auto split: if_splits)
qed

section \<open>Delivery of callbacks\<close>

text \<open>
  The operations that threads perform on one future, in any order. A callback is delivered when
  \<open>set_result\<close> runs it or when \<open>attach_callback\<close> posts it to the loop.
\<close>

datatype 'x fut_op = Attach cbid | Complete "'x object" "'x object" "zone option"

fun apply_op :: "fid \<Rightarrow> 'x fut_op \<Rightarrow> ('x, 'z) heap_scheme \<Rightarrow> ('x, 'z) heap_scheme" where
  "apply_op f (Attach cb) h = attach_callback f cb h"
| "apply_op f (Complete r e z) h = set_result f r e z h"

definition fut_ops :: "fid \<Rightarrow> 'x fut_op list \<Rightarrow> ('x, 'z) heap_scheme \<Rightarrow> ('x, 'z) heap_scheme" where
  "fut_ops f ops h = fold (apply_op f) ops h"

fun is_attach :: "'x fut_op \<Rightarrow> bool" where
  "is_attach (Attach _) = True"
| "is_attach (Complete _ _ _) = False"

definition deliveries :: "fid \<Rightarrow> ('x, 'z) heap_scheme \<Rightarrow> nat" where
  "deliveries f h =
     length (filter (\<lambda>e. case e of Run_callback _ g \<Rightarrow> g = f | _ \<Rightarrow> False) (h_log h)) +
     length (filter (\<lambda>c. case c of Io_post _ g \<Rightarrow> g = f | _ \<Rightarrow> False)
       (l_calls (h_loops h ! f_loop (fut h f))))"

definition waiting_callbacks :: "fid \<Rightarrow> ('x, 'z) heap_scheme \<Rightarrow> nat" where
  "waiting_callbacks f h = (if f_callback (fut h f) = None then 0 else 1)"

definition fut_valid :: "fid \<Rightarrow> ('x, 'z) heap_scheme \<Rightarrow> bool" where
  "fut_valid f h \<longleftrightarrow> f < length (h_futures h) \<and> f_loop (fut h f) < length (h_loops h) \<and>
     (is_ready (fut h f) \<longrightarrow> f_callback (fut h f) = None)"

lemma fut_valid_apply: "fut_valid f h \<Longrightarrow> fut_valid f (apply_op f p h)"
  by (cases p)
     (auto simp: fut_valid_def fut_set_result attach_callback_def fut_put_future is_ready_def on_loop_def)

lemma ready_apply_op:
  "fut_valid f h \<Longrightarrow> ready (apply_op f p h) f \<longleftrightarrow> ready h f \<or> \<not> is_attach p"
  by (cases p)
     (auto simp: fut_valid_def fut_set_result attach_callback_def fut_put_future is_ready_def)

lemma deliveries_attach:
  "fut_valid f h \<Longrightarrow>
    deliveries f (attach_callback f cb h) = deliveries f h + (if ready h f then 1 else 0)"
  by (auto simp: fut_valid_def deliveries_def attach_callback_def fut_put_future on_loop_def
      loop_submit_def is_ready_def)

lemma deliveries_set_result:
  "fut_valid f h \<Longrightarrow> deliveries f (set_result f r e z h) = deliveries f h + waiting_callbacks f h"
  by (auto simp: fut_valid_def deliveries_def h_log_set_result waiting_callbacks_def fut_set_result
      split: option.split)

lemma waiting_apply_op:
  "fut_valid f h \<Longrightarrow>
    waiting_callbacks f (apply_op f p h) = (if is_attach p \<and> \<not> ready h f then 1
      else if is_attach p then waiting_callbacks f h else 0)"
  by (cases p)
     (auto simp: fut_valid_def waiting_callbacks_def fut_set_result attach_callback_def
        fut_put_future is_ready_def)

lemma fut_ops_simps [simp]:
  "fut_ops f [] h = h" "fut_ops f (p # ops) h = fut_ops f ops (apply_op f p h)"
  by (simp_all add: fut_ops_def)

lemma fut_valid_applys: "fut_valid f h \<Longrightarrow> fut_valid f (fut_ops f ops h)"
  by (induction ops arbitrary: h) (auto simp: fut_valid_apply)

lemma deliveries_le_attaches:
  assumes "fut_valid f h"
  shows "deliveries f (fut_ops f ops h) + waiting_callbacks f (fut_ops f ops h) \<le>
    deliveries f h + waiting_callbacks f h + length (filter is_attach ops)"
  using assms
proof (induction ops arbitrary: h)
  case Nil
  then show ?case by simp
next
  case (Cons p ops)
  have step: "deliveries f (apply_op f p h) + waiting_callbacks f (apply_op f p h) \<le>
      deliveries f h + waiting_callbacks f h + (if is_attach p then 1 else 0)"
    using Cons.prems waiting_apply_op[OF Cons.prems, of p]
    by (cases p) (auto simp: deliveries_attach deliveries_set_result)
  from Cons.IH[OF fut_valid_apply[OF Cons.prems], of p] step show ?case by auto
qed

text \<open>Operations that attach nothing deliver exactly what waits, once the future completes.\<close>

lemma deliveries_no_attach:
  assumes "fut_valid f h" "\<forall>p \<in> set ops. \<not> is_attach p" "ops \<noteq> []"
  shows "deliveries f (fut_ops f ops h) = deliveries f h + waiting_callbacks f h"
  using assms
proof (induction ops arbitrary: h)
  case Nil
  then show ?case by simp
next
  case (Cons p ops)
  then obtain r e z where p: "p = Complete r e z" by (cases p) auto
  have w: "waiting_callbacks f (apply_op f p h) = 0"
    using waiting_apply_op[OF Cons.prems(1), of p] p by simp
  have d: "deliveries f (apply_op f p h) = deliveries f h + waiting_callbacks f h"
    using Cons.prems(1) p by (simp add: deliveries_set_result)
  show ?case
  proof (cases "ops = []")
    case True
    with d show ?thesis by simp
  next
    case False
    with Cons.IH[OF fut_valid_apply[OF Cons.prems(1)], of p] Cons.prems w d show ?thesis by simp
  qed
qed

lemma ready_fut_ops:
  "fut_valid f h \<Longrightarrow> ready (fut_ops f ops h) f \<longleftrightarrow> ready h f \<or> (\<exists>p \<in> set ops. \<not> is_attach p)"
  by (induction ops arbitrary: h) (auto simp: fut_valid_apply ready_apply_op)

text \<open>One attached callback is delivered exactly once, whether it comes before the result or after.\<close>

lemma deliveries_single_attach:
  assumes "fut_valid f h" "\<not> ready h f" "f_callback (fut h f) = None"
    and "\<forall>p \<in> set us. \<not> is_attach p" "\<forall>p \<in> set vs. \<not> is_attach p" "us @ vs \<noteq> []"
  shows "deliveries f (fut_ops f (us @ Attach cb # vs) h) = deliveries f h + 1"
proof -
  let ?h1 = "fut_ops f us h"
  let ?h2 = "apply_op f (Attach cb) ?h1"
  have v1: "fut_valid f ?h1" using assms(1) by (rule fut_valid_applys)
  have v2: "fut_valid f ?h2" using v1 by (rule fut_valid_apply)
  have d1: "deliveries f ?h1 = deliveries f h"
    using deliveries_no_attach[OF assms(1,4)] assms(3) by (cases "us = []") (auto simp: waiting_callbacks_def)
  have r1: "ready ?h1 f \<longleftrightarrow> us \<noteq> []"
    using ready_fut_ops[OF assms(1), of us] assms(2,4) by (cases us) auto
  have d2: "deliveries f ?h2 = deliveries f h + (if us = [] then 0 else 1)"
    using deliveries_attach[OF v1, of cb] d1 r1 by simp
  have w2: "waiting_callbacks f ?h2 = (if us = [] then 1 else 0)"
    using waiting_apply_op[OF v1, of "Attach cb"] r1 v1
    by (auto simp: waiting_callbacks_def fut_valid_def split: if_splits)
  have "deliveries f (fut_ops f vs ?h2) = deliveries f h + 1"
    using deliveries_no_attach[OF v2 assms(5)] d2 w2 assms(6) by (cases "vs = []") auto
  then show ?thesis by (simp add: fut_ops_def)
qed

section \<open>What a caller gets\<close>

text \<open>The outcome of \<open>get\<close> on a completed future, by the kind of its error object.\<close>

definition outcome :: "('x object \<Rightarrow> string) \<Rightarrow> fid \<Rightarrow> 'x future_impl \<Rightarrow> exn + 'x object" where
  "outcome sh f fi =
     (if f_error fi = NIL then Inr (f_result fi) else Inl (throw_exception sh f fi))"

lemma get_impl_ready:
  "fu_pimpl fu = Some f \<Longrightarrow> ready h f \<Longrightarrow> get_impl sh env fu h = Some (outcome sh f (fut h f), h)"
  by (simp add: get_impl_def outcome_def)

lemma get_impl_join:
  "fu_pimpl fu = Some f \<Longrightarrow> \<not> ready h f \<Longrightarrow> join env f h = Some h' \<Longrightarrow>
    get_impl sh env fu h = Some (outcome sh f (fut h' f), h')"
  by (simp add: get_impl_def outcome_def)

lemma no_method_word: "(ucast NO_METHOD_ERROR :: 64 word) = 1" "(ucast ARGUMENT_ERROR :: 64 word) = 2"
  by (simp_all add: protocol_consts)

section \<open>Properties\<close>

text \<open>
  C27: A callback that is attached to a future is delivered exactly once, whether it is attached
  before the result arrives (then \<open>set_result\<close> runs it) or after (then it is posted to the loop),
  and however often the future is completed.
\<close>

theorem callback_delivered_once:
  assumes "fut_valid f h" "\<not> ready h f" "f_callback (fut h f) = None"
    and "\<forall>p \<in> set us. \<not> is_attach p" "\<forall>p \<in> set vs. \<not> is_attach p" "us @ vs \<noteq> []"
  shows "deliveries f (fut_ops f (us @ Attach cb # vs) h) = deliveries f h + 1"
  using assms by (rule deliveries_single_attach)

definition sample_heap :: "nat heap" where
  "sample_heap = \<lparr>h_futures = [new_future_impl 1 0 0 30], h_loops = [new_loop], h_log = []\<rparr>"

lemma callback_delivered_once_witness:
  "deliveries 0 (fut_ops 0 [Complete (Opaque 5) NIL None, Attach 9, Complete NIL NIL None] sample_heap) = 1"
  using callback_delivered_once[of 0 sample_heap "[Complete (Opaque 5) NIL None]" "[Complete NIL NIL None]" 9]
  by (simp add: sample_heap_def fut_valid_def new_future_impl_def is_ready_def new_loop_def deliveries_def)

text \<open>
  C28: Without worker threads, \<open>get\<close> runs the event loop itself: if some number of handlers completes
  the future, \<open>get\<close> returns or throws after at most that many, with the outcome of the completed
  future.
\<close>

theorem get_impl_returns:
  assumes "fu_pimpl fu = Some f" "\<not> is_running (h_loops h ! f_loop (fut h f))"
    and "ready ((run_one env ^^ n) h) f"
  shows "\<exists>m \<le> n. ready ((run_one env ^^ m) h) f \<and>
    get_impl sh env fu h = Some (outcome sh f (fut ((run_one env ^^ m) h) f), (run_one env ^^ m) h)"
proof (cases "ready h f")
  case True
  with get_impl_ready[OF assms(1) True] show ?thesis by (intro exI[of _ 0]) simp
next
  case False
  from recv_returns[OF assms(3)] obtain m where m: "m \<le> n" "recv env f h = Some ((run_one env ^^ m) h)"
    "ready ((run_one env ^^ m) h) f" by blast
  with assms(2) have "join env f h = Some ((run_one env ^^ m) h)" by (simp add: join_def)
  with m get_impl_join[OF assms(1) False this] show ?thesis by (intro exI[of _ m]) simp
qed

lemma get_impl_returns_witness:
  "\<exists>h'. get_impl (\<lambda>_. ''x'')
     \<lparr>cond_wait = id, cond_timed_wait = (\<lambda>_ h. (False, h)), run_one = set_result 0 (Opaque 5) NIL None\<rparr>
     \<lparr>fu_method = ''m'', fu_pimpl = Some 0\<rparr> sample_heap = Some (Inr (Opaque 5), h')"
proof -
  let ?env = "\<lparr>cond_wait = id, cond_timed_wait = (\<lambda>_ h. (False, h)), run_one = set_result 0 (Opaque 5) NIL None\<rparr>"
  have "\<exists>m \<le> 1. ready ((run_one ?env ^^ m) sample_heap) 0 \<and>
      get_impl (\<lambda>_. ''x'') ?env \<lparr>fu_method = ''m'', fu_pimpl = Some 0\<rparr> sample_heap =
        Some (outcome (\<lambda>_. ''x'') 0 (fut ((run_one ?env ^^ m) sample_heap) 0), (run_one ?env ^^ m) sample_heap)"
    by (rule get_impl_returns)
       (simp_all add: sample_heap_def new_loop_def is_running_def fut_set_result is_ready_def new_future_impl_def)
  then obtain m :: nat where m: "m \<le> 1" "ready ((run_one ?env ^^ m) sample_heap) 0"
    "get_impl (\<lambda>_. ''x'') ?env \<lparr>fu_method = ''m'', fu_pimpl = Some 0\<rparr> sample_heap =
        Some (outcome (\<lambda>_. ''x'') 0 (fut ((run_one ?env ^^ m) sample_heap) 0), (run_one ?env ^^ m) sample_heap)"
    by blast
  then have "m = 1" by (cases m) (auto simp: sample_heap_def is_ready_def new_future_impl_def)
  with m(3) show ?thesis by (simp add: fut_set_result outcome_def sample_heap_def)
qed

text \<open>
  C29: With worker threads, \<open>get\<close> on a future that is still waiting when the time given by
  \<open>m_timeout * 1000\<close> (in 32-bit arithmetic) is over throws \<open>timeout_error\<close> and leaves the future
  completed with the local timeout error.
\<close>

theorem get_impl_times_out:
  assumes "fu_pimpl fu = Some f" "is_running (h_loops h ! f_loop (fut h f))" "\<not> ready h f"
    and "cond_timed_wait env (f_timeout (fut h f) * 1000) h = (False, h1)" "f < length (h_futures h1)"
  shows "\<exists>h'. get_impl sh env fu h = Some (Inl (timeout_error ''request timed out''), h') \<and>
    ready h' f \<and> f_error (fut h' f) = TIMEOUT_ERROR"
proof -
  let ?h = "set_result f NIL TIMEOUT_ERROR None h1"
  have "timed_wait env f (f_timeout (fut h f) * 1000) h = Some (False, ?h)"
    using assms(3,4) by (subst timed_wait.simps) simp
  with assms(2) have j: "join env f h = Some ?h" by (simp add: join_def)
  have "outcome sh f (fut ?h f) = Inl (timeout_error ''request timed out'')"
    using assms(5) by (simp add: outcome_def fut_set_result exn_consts)
  with get_impl_join[OF assms(1,3) j] assms(5) show ?thesis
    by (simp add: fut_set_result is_ready_def)
qed

lemma get_impl_times_out_witness:
  "\<exists>h'. get_impl (\<lambda>_. ''x'') \<lparr>cond_wait = id, cond_timed_wait = (\<lambda>_ h. (False, h)), run_one = id\<rparr>
     \<lparr>fu_method = ''m'', fu_pimpl = Some 0\<rparr> (sample_heap\<lparr>h_loops := [add_worker 1 new_loop]\<rparr>) =
     Some (Inl (timeout_error ''request timed out''), h')"
  using get_impl_times_out[of "\<lparr>fu_method = ''m'', fu_pimpl = Some 0\<rparr>" 0
      "sample_heap\<lparr>h_loops := [add_worker 1 new_loop]\<rparr>"
      "\<lparr>cond_wait = id, cond_timed_wait = (\<lambda>_ h. (False, h)), run_one = id\<rparr>"
      "sample_heap\<lparr>h_loops := [add_worker 1 new_loop]\<rparr>" "\<lambda>_. ''x''"]
  by (auto simp: sample_heap_def new_future_impl_def is_ready_def is_running_def add_worker_eq new_loop_def)

text \<open>
  \<open>timed_wait\<close> does not look at the future again when the time is over: a result that arrives
  while the thread still waits for the mutex after its timeout is replaced by the timeout error.
\<close>

lemma timed_wait_discards_result:
  assumes "f < length (h_futures h)" "\<not> ready h f"
    and "cond_timed_wait env ms h = (False, set_result f r NIL z h)"
  shows "\<exists>h'. timed_wait env f ms h = Some (False, h') \<and> ready (set_result f r NIL z h) f \<and>
    f_result (fut h' f) = NIL \<and> f_error (fut h' f) = TIMEOUT_ERROR"
  using assms by (subst timed_wait.simps) (simp add: fut_set_result is_ready_def)

end
