(* ===== verification/RPC_Threads.thy ===== *)
theory RPC_Threads
  imports RPC_Future
begin

text \<open>
  Threads inside the member functions of a future (\<^verbatim>\<open>future_impl.h\<close>, \<^verbatim>\<open>future.cc\<close>). The other theories
  take the operations on a future as atomic; here each access to a member is a step of its own, and
  the steps of any number of threads interleave. The mutex \<open>m_mutex\<close> and the condition variable
  \<open>m_cond\<close> behave as Boost documents them: a waiting thread gives up the mutex, is woken by
  \<open>notify_all\<close>, spuriously or by the time-out, and takes the mutex again before it goes on. Accesses
  are sequentially consistent. The handlers that a thread runs in \<open>run_once\<close> count as threads of their
  own.
\<close>

section \<open>Definitions\<close>

subsection \<open>The code of a thread\<close>

text \<open>What a thread has still to do, one constructor per access to the future.\<close>

datatype 'x code =
    Done
  | Lock "'x code"                              \<comment> \<open>\<open>scoped_lock lk(m_mutex)\<close>\<close>
  | Unlock "'x code"                            \<comment> \<open>the end of its scope, or \<open>lk.unlock()\<close>\<close>
  | Put_result "'x object" "'x code"
  | Put_error "'x object" "'x code"
  | Put_zone "zone option" "'x code"
  | Reset_session "'x code"                     \<comment> \<open>\<open>m_session.reset()\<close>\<close>
  | Notify_waiters "'x code"                    \<comment> \<open>\<open>m_cond.notify_all()\<close>\<close>
  | Call_callback "'x code"                     \<comment> \<open>\<open>if (m_callback) callback_real(m_callback, ...)\<close>\<close>
  | Clear_callback "'x code"                    \<comment> \<open>\<open>m_callback = nullptr\<close>\<close>
  | Attach cbid "'x code"                       \<comment> \<open>submits the callback or stores it\<close>
  | Wait_session "'x code"                      \<comment> \<open>\<open>while (m_session) m_cond.wait(lk)\<close>\<close>
  | Timed_wait_session "'x code" "'x code"      \<comment> \<open>the same with \<open>timed_wait\<close>; first the code after a time-out\<close>
  | While_session "'x code"                     \<comment> \<open>\<open>while (m_session) m_loop->run_once()\<close>\<close>
  | If_ready "'x code" "'x code"
  | If_error "'x code"                          \<comment> \<open>\<open>if (!error().is_nil())\<close>; goes on with \<open>Throw\<close> or \<open>Load_result\<close>\<close>
  | Throw "'x code"                             \<comment> \<open>\<open>throw_exception(this)\<close>\<close>
  | Load_result "'x code"                       \<comment> \<open>\<open>return result()\<close>\<close>
  | Return_bool bool "'x code"

text \<open>The member functions, each with the code \<open>k\<close> that follows its call.\<close>

definition set_result_code :: "'x object \<Rightarrow> 'x object \<Rightarrow> zone option \<Rightarrow> 'x code \<Rightarrow> 'x code" where
  "set_result_code result error z k =
     Lock (Put_result result (Put_error error (Put_zone z (Reset_session
       (Notify_waiters (Call_callback (Clear_callback (Unlock k))))))))"

definition attach_callback_code :: "cbid \<Rightarrow> 'x code \<Rightarrow> 'x code" where
  "attach_callback_code func k = Lock (Attach func (Unlock k))"

definition wait_code :: "'x code \<Rightarrow> 'x code" where
  "wait_code k = Lock (Wait_session (Unlock k))"

definition timed_wait_code :: "'x code \<Rightarrow> 'x code" where
  "timed_wait_code k =
     Lock (Timed_wait_session (Unlock (set_result_code NIL TIMEOUT_ERROR None (Return_bool False k)))
       (Unlock (Return_bool True k)))"

definition recv_code :: "'x code \<Rightarrow> 'x code" where
  "recv_code k = While_session k"

text \<open>\<open>running\<close>: whether the loop of the future is running.\<close>

definition join_code :: "bool \<Rightarrow> 'x code \<Rightarrow> 'x code" where
  "join_code running k = (if running then timed_wait_code k else recv_code k)"

definition get_impl_code :: "bool \<Rightarrow> 'x code \<Rightarrow> 'x code" where
  "get_impl_code running k =
     If_ready (If_error k) (join_code running (If_error k))"

definition future_wait_code :: "bool \<Rightarrow> bool \<Rightarrow> 'x code \<Rightarrow> 'x code" where
  "future_wait_code running rethrow k =
     (let rest = (if rethrow then get_impl_code running k else k) in If_ready rest (join_code running rest))"

subsection \<open>Steps\<close>

datatype thread_state = Running | Waiting | Woken | Expired

record 'x thread =
  t_code :: "'x code"
  t_state :: thread_state
  t_out :: "(exn + 'x object) option"    \<comment> \<open>what the last \<open>get\<close> threw or returned\<close>
  t_bool :: "bool option"                \<comment> \<open>what the last \<open>timed_wait\<close> returned\<close>

record 'x threads =
  y_heap :: "'x heap"
  y_lock :: "nat option"                 \<comment> \<open>the owner of \<open>m_mutex\<close>\<close>
  y_threads :: "'x thread list"

abbreviation thr :: "('x, 'z) threads_scheme \<Rightarrow> nat \<Rightarrow> 'x thread" where
  "thr y i \<equiv> y_threads y ! i"

definition put_thread :: "nat \<Rightarrow> 'x thread \<Rightarrow> 'x threads \<Rightarrow> 'x threads" where
  "put_thread i t y = y\<lparr>y_threads := (y_threads y)[i := t]\<rparr>"

text \<open>The effect of one access on the future.\<close>

fun access :: "fid \<Rightarrow> 'x code \<Rightarrow> ('x, 'z) heap_scheme \<Rightarrow> ('x, 'z) heap_scheme" where
  "access f (Put_result r k) h = put_future f ((fut h f)\<lparr>f_result := r\<rparr>) h"
| "access f (Put_error e k) h = put_future f ((fut h f)\<lparr>f_error := e\<rparr>) h"
| "access f (Put_zone z k) h = put_future f ((fut h f)\<lparr>f_zone := z\<rparr>) h"
| "access f (Reset_session k) h = put_future f ((fut h f)\<lparr>f_session := None\<rparr>) h"
| "access f (Notify_waiters k) h = log_effects [Notify_all f] h"
| "access f (Call_callback k) h =
     (case f_callback (fut h f) of None \<Rightarrow> h | Some cb \<Rightarrow> log_effects [Run_callback cb f] h)"
| "access f (Clear_callback k) h = put_future f ((fut h f)\<lparr>f_callback := None\<rparr>) h"
| "access f (Attach func k) h = attach_callback f func h"
| "access f _ h = h"

text \<open>
  The next code after an access; \<open>relocks cb\<close> says that the callback \<open>cb\<close> itself calls a member function
  of its future that takes the mutex (callbacks that only read the future are as if they did not).
\<close>

fun after :: "(cbid \<Rightarrow> bool) \<Rightarrow> fid \<Rightarrow> 'x code \<Rightarrow> ('x, 'z) heap_scheme \<Rightarrow> 'x code" where
  "after relocks f (Put_result r k) h = k"
| "after relocks f (Put_error e k) h = k"
| "after relocks f (Put_zone z k) h = k"
| "after relocks f (Reset_session k) h = k"
| "after relocks f (Notify_waiters k) h = k"
| "after relocks f (Call_callback k) h =
     (case f_callback (fut h f) of None \<Rightarrow> k | Some cb \<Rightarrow> if relocks cb then Lock (Unlock k) else k)"
| "after relocks f (Clear_callback k) h = k"
| "after relocks f (Attach func k) h = k"
| "after relocks f (While_session k) h = (if ready h f then k else While_session k)"
| "after relocks f (If_ready k1 k2) h = (if ready h f then k1 else k2)"
| "after relocks f (If_error k) h = (if is_nil (f_error (fut h f)) then Load_result k else Throw k)"
| "after relocks f (Throw k) h = k"
| "after relocks f (Load_result k) h = k"
| "after relocks f (Return_bool b k) h = k"
| "after relocks f c h = c"

text \<open>What \<open>get\<close> and \<open>timed_wait\<close> return.\<close>

definition returned :: "('x object \<Rightarrow> string) \<Rightarrow> fid \<Rightarrow> ('x, 'z) heap_scheme \<Rightarrow> 'x thread \<Rightarrow> 'x thread" where
  "returned sh f h t =
     (case t_code t of
        Throw k \<Rightarrow> t\<lparr>t_out := Some (Inl (throw_exception sh f (fut h f)))\<rparr>
      | Load_result k \<Rightarrow> t\<lparr>t_out := Some (Inr (f_result (fut h f)))\<rparr>
      | Return_bool b k \<Rightarrow> t\<lparr>t_bool := Some b\<rparr>
      | _ \<Rightarrow> t)"

definition wake :: "'x thread \<Rightarrow> 'x thread" where
  "wake t = (if t_state t = Waiting then t\<lparr>t_state := Woken\<rparr> else t)"

text \<open>The next step of the thread \<open>i\<close>, if it can make one: the mutex must be free to be taken.\<close>

definition exec ::
  "('x object \<Rightarrow> string) \<Rightarrow> (cbid \<Rightarrow> bool) \<Rightarrow> fid \<Rightarrow> nat \<Rightarrow> 'x threads \<Rightarrow> 'x threads option" where
  "exec sh relocks f i y =
     (let t = thr y i; h = y_heap y
      in case t_state t of
           Waiting \<Rightarrow> None
         | Woken \<Rightarrow>
             if y_lock y = None then Some (put_thread i (t\<lparr>t_state := Running\<rparr>) (y\<lparr>y_lock := Some i\<rparr>)) else None
         | Expired \<Rightarrow>
             (case t_code t of
                Timed_wait_session k1 k2 \<Rightarrow>
                  if y_lock y = None
                  then Some (put_thread i (t\<lparr>t_state := Running, t_code := k1\<rparr>) (y\<lparr>y_lock := Some i\<rparr>)) else None
              | _ \<Rightarrow> None)
         | Running \<Rightarrow>
             (case t_code t of
                Done \<Rightarrow> None
              | Lock k \<Rightarrow>
                  if y_lock y = None then Some (put_thread i (t\<lparr>t_code := k\<rparr>) (y\<lparr>y_lock := Some i\<rparr>)) else None
              | Unlock k \<Rightarrow> Some (put_thread i (t\<lparr>t_code := k\<rparr>) (y\<lparr>y_lock := None\<rparr>))
              | Wait_session k \<Rightarrow>
                  if ready h f then Some (put_thread i (t\<lparr>t_code := k\<rparr>) y)
                  else Some (put_thread i (t\<lparr>t_state := Waiting\<rparr>) (y\<lparr>y_lock := None\<rparr>))
              | Timed_wait_session k1 k2 \<Rightarrow>
                  if ready h f then Some (put_thread i (t\<lparr>t_code := k2\<rparr>) y)
                  else Some (put_thread i (t\<lparr>t_state := Waiting\<rparr>) (y\<lparr>y_lock := None\<rparr>))
              | Notify_waiters k \<Rightarrow>
                  Some (put_thread i (t\<lparr>t_code := k\<rparr>)
                    (y\<lparr>y_threads := map wake (y_threads y), y_heap := access f (t_code t) h\<rparr>))
              | c \<Rightarrow>
                  Some (put_thread i ((returned sh f h t)\<lparr>t_code := after relocks f c h\<rparr>)
                    (y\<lparr>y_heap := access f c h\<rparr>))))"

text \<open>
  The operations that change the future, as \<open>RPC_Future\<close> has them, and the operation that the code
  after a \<open>Lock\<close> is the body of.
\<close>

datatype 'x operation = Op_set_result "'x object" "'x object" "zone option" | Op_attach_callback cbid

fun perform :: "fid \<Rightarrow> 'x operation \<Rightarrow> ('x, 'z) heap_scheme \<Rightarrow> ('x, 'z) heap_scheme" where
  "perform f (Op_set_result r e z) h = set_result f r e z h"
| "perform f (Op_attach_callback func) h = attach_callback f func h"

fun body_of :: "'x code \<Rightarrow> 'x operation list" where
  "body_of (Put_result r (Put_error e (Put_zone z k))) = [Op_set_result r e z]"
| "body_of (Attach func k) = [Op_attach_callback func]"
| "body_of _ = []"

definition entered :: "nat \<Rightarrow> 'x threads \<Rightarrow> 'x operation list" where
  "entered i y =
     (case (t_state (thr y i), t_code (thr y i)) of (Running, Lock k) \<Rightarrow> body_of k | _ \<Rightarrow> [])"

text \<open>
  \<open>thread_run sh relocks f y0 ops y\<close>: a run from \<open>y0\<close> reaches \<open>y\<close>; \<open>ops\<close> are the operations whose
  threads have taken the mutex, in that order.
\<close>

inductive thread_run ::
  "('x object \<Rightarrow> string) \<Rightarrow> (cbid \<Rightarrow> bool) \<Rightarrow> fid \<Rightarrow> 'x threads \<Rightarrow> 'x operation list \<Rightarrow> 'x threads \<Rightarrow> bool"
  for sh relocks f y0
where
  thr_init: "thread_run sh relocks f y0 [] y0"
| thr_exec: "thread_run sh relocks f y0 ops y \<Longrightarrow> i < length (y_threads y) \<Longrightarrow> exec sh relocks f i y = Some y' \<Longrightarrow>
    thread_run sh relocks f y0 (ops @ entered i y) y'"
| thr_spurious: "thread_run sh relocks f y0 ops y \<Longrightarrow> i < length (y_threads y) \<Longrightarrow> t_state (thr y i) = Waiting \<Longrightarrow>
    thread_run sh relocks f y0 ops (put_thread i ((thr y i)\<lparr>t_state := Woken\<rparr>) y)"
| thr_expire: "thread_run sh relocks f y0 ops y \<Longrightarrow> i < length (y_threads y) \<Longrightarrow> t_state (thr y i) = Waiting \<Longrightarrow>
    t_code (thr y i) = Timed_wait_session k1 k2 \<Longrightarrow>
    thread_run sh relocks f y0 ops (put_thread i ((thr y i)\<lparr>t_state := Expired\<rparr>) y)"

text \<open>The start: the mutex is free, and each thread is about to call member functions one after the other.\<close>

inductive program :: "'x code \<Rightarrow> bool" where
  prog_done: "program Done"
| prog_set_result: "program k \<Longrightarrow> program (set_result_code r e z k)"
| prog_attach: "program k \<Longrightarrow> program (attach_callback_code func k)"
| prog_wait: "program k \<Longrightarrow> program (wait_code k)"
| prog_timed_wait: "program k \<Longrightarrow> program (timed_wait_code k)"
| prog_get: "program k \<Longrightarrow> program (get_impl_code running k)"
| prog_future_wait: "program k \<Longrightarrow> program (future_wait_code running rethrow k)"

definition new_thread :: "'x code \<Rightarrow> 'x thread" where
  "new_thread c = \<lparr>t_code = c, t_state = Running, t_out = None, t_bool = None\<rparr>"

definition new_threads :: "'x heap \<Rightarrow> 'x code list \<Rightarrow> 'x threads" where
  "new_threads h cs = \<lparr>y_heap = h, y_lock = None, y_threads = map new_thread cs\<rparr>"

section \<open>Critical sections\<close>

text \<open>What remains of a critical section, done at once.\<close>

fun finish :: "fid \<Rightarrow> 'x code \<Rightarrow> 'x heap \<Rightarrow> 'x heap" where
  "finish f (Put_result r k) h = finish f k (access f (Put_result r k) h)"
| "finish f (Put_error e k) h = finish f k (access f (Put_error e k) h)"
| "finish f (Put_zone z k) h = finish f k (access f (Put_zone z k) h)"
| "finish f (Reset_session k) h = finish f k (access f (Reset_session k) h)"
| "finish f (Notify_waiters k) h = finish f k (access f (Notify_waiters k) h)"
| "finish f (Call_callback k) h = finish f k (access f (Call_callback k) h)"
| "finish f (Clear_callback k) h = finish f k (access f (Clear_callback k) h)"
| "finish f (Attach func k) h = finish f k (access f (Attach func k) h)"
| "finish f _ h = h"

text \<open>Whether it will still write the result or the error.\<close>

fun writes :: "'x code \<Rightarrow> bool" where
  "writes (Put_result r k) = True"
| "writes (Put_error e k) = True"
| "writes (Put_zone z k) = writes k"
| "writes (Reset_session k) = writes k"
| "writes (Notify_waiters k) = writes k"
| "writes (Call_callback k) = writes k"
| "writes (Clear_callback k) = writes k"
| "writes (Attach func k) = writes k"
| "writes _ = False"

fun waits :: "'x code \<Rightarrow> bool" where
  "waits (Wait_session k) = True"
| "waits (Timed_wait_session k1 k2) = True"
| "waits _ = False"

text \<open>
  \<open>guarded f b c\<close>: code that runs with the mutex held (\<open>b\<close>) or free of it, writes the future only while
  it holds it, takes it for one whole operation, and announces a completion at once.
\<close>

fun guarded :: "fid \<Rightarrow> bool \<Rightarrow> 'x code \<Rightarrow> bool" where
  "guarded f b Done = (\<not> b)"
| "guarded f b (Lock k) = (\<not> b \<and> guarded f True k \<and>
     (\<forall>h. f < length (h_futures h) \<longrightarrow> finish f k h = fold (perform f) (body_of k) h) \<and>
     (writes k \<longrightarrow> (\<exists>r e z. body_of k = [Op_set_result r e z])))"
| "guarded f b (Unlock k) = (b \<and> guarded f False k)"
| "guarded f b (Put_result r k) = (b \<and> guarded f True k)"
| "guarded f b (Put_error e k) = (b \<and> guarded f True k)"
| "guarded f b (Put_zone z k) = (b \<and> guarded f True k)"
| "guarded f b (Reset_session k) = (b \<and> guarded f True k \<and> \<not> writes k \<and> (\<exists>k'. k = Notify_waiters k'))"
| "guarded f b (Notify_waiters k) = (b \<and> guarded f True k)"
| "guarded f b (Call_callback k) = (b \<and> guarded f True k)"
| "guarded f b (Clear_callback k) = (b \<and> guarded f True k)"
| "guarded f b (Attach func k) = (b \<and> guarded f True k)"
| "guarded f b (Wait_session k) = (b \<and> guarded f True k \<and> (\<exists>k'. k = Unlock k'))"
| "guarded f b (Timed_wait_session k1 k2) =
     (b \<and> guarded f True k1 \<and> guarded f True k2 \<and> (\<exists>k'. k1 = Unlock k') \<and> (\<exists>k'. k2 = Unlock k'))"
| "guarded f b (While_session k) = (\<not> b \<and> guarded f False k)"
| "guarded f b (If_ready k1 k2) = (\<not> b \<and> guarded f False k1 \<and> guarded f False k2)"
| "guarded f b (If_error k) = (\<not> b \<and> guarded f False k)"
| "guarded f b (Throw k) = (\<not> b \<and> guarded f False k)"
| "guarded f b (Load_result k) = (\<not> b \<and> guarded f False k)"
| "guarded f b (Return_bool x k) = (\<not> b \<and> guarded f False k)"

text \<open>\<open>known rd c\<close>: the code reads the outcome only when it has seen that the future is complete.\<close>

fun known :: "bool \<Rightarrow> 'x code \<Rightarrow> bool" where
  "known rd Done = True"
| "known rd (Lock k) = known rd k"
| "known rd (Unlock k) = known rd k"
| "known rd (Put_result r k) = known rd k"
| "known rd (Put_error e k) = known rd k"
| "known rd (Put_zone z k) = known rd k"
| "known rd (Reset_session k) = known True k"
| "known rd (Notify_waiters k) = known rd k"
| "known rd (Call_callback k) = known rd k"
| "known rd (Clear_callback k) = known rd k"
| "known rd (Attach func k) = known rd k"
| "known rd (Wait_session k) = known True k"
| "known rd (Timed_wait_session k1 k2) = (known rd k1 \<and> known True k2)"
| "known rd (While_session k) = known True k"
| "known rd (If_ready k1 k2) = (known True k1 \<and> known rd k2)"
| "known rd (If_error k) = (rd \<and> known rd k)"
| "known rd (Throw k) = False"
| "known rd (Load_result k) = False"
| "known rd (Return_bool x k) = known rd k"

text \<open>A thread may also be between the test of the error and the access that follows.\<close>

fun reading :: "'x code \<Rightarrow> bool" where
  "reading (Throw k) = True"
| "reading (Load_result k) = True"
| "reading _ = False"

fun may_read :: "bool \<Rightarrow> 'x code \<Rightarrow> bool" where
  "may_read rd (Throw k) = (rd \<and> known rd k)"
| "may_read rd (Load_result k) = (rd \<and> known rd k)"
| "may_read rd c = known rd c"

lemma known_may_read [simp]: "known rd c \<Longrightarrow> may_read rd c"
  by (cases c) auto

lemma known_not_reading: "known rd c \<Longrightarrow> \<not> reading c"
  by (cases c) simp_all

lemma known_mono: "known rd c \<Longrightarrow> known True c"
  by (induction c arbitrary: rd) auto

lemma may_read_mono:
  assumes "may_read rd c"
  shows "may_read True c"
proof (cases rd)
  case False
  with assms have "known False c" by (cases c) simp_all
  then show ?thesis by (intro known_may_read known_mono)
qed (use assms in simp)

lemma access_length [simp]: "length (h_futures (access f c h)) = length (h_futures h)"
  by (cases c) (auto simp: attach_callback_def put_future_def split: option.split)

lemma access_ready: "ready h f \<Longrightarrow> f < length (h_futures h) \<Longrightarrow> ready (access f c h) f"
  by (cases c) (auto simp: attach_callback_def is_ready_def fut_put_future on_loop_def log_effects_def split: option.split)

lemma access_outcome:
  assumes "\<not> writes c" "f < length (h_futures h)"
  shows "f_result (fut (access f c h) f) = f_result (fut h f)" "f_error (fut (access f c h) f) = f_error (fut h f)"
  using assms by (cases c; simp add: attach_callback_def fut_put_future split: option.split)+

lemma finish_outcome:
  assumes "\<not> writes c" "f < length (h_futures h)"
  shows "f_result (fut (finish f c h) f) = f_result (fut h f) \<and> f_error (fut (finish f c h) f) = f_error (fut h f)"
  using assms
proof (induction c arbitrary: h)
  case (Call_callback c)
  then show ?case by (simp split: option.split)
next
  case (Attach func c)
  then show ?case by (simp add: attach_callback_def fut_put_future)
qed (simp_all add: fut_put_future)

lemma finish_ready: "f < length (h_futures h) \<Longrightarrow> ready h f \<Longrightarrow> ready (finish f c h) f"
proof (induction c arbitrary: h)
  case (Call_callback c)
  then show ?case by (simp split: option.split)
next
  case (Attach func c)
  then show ?case by (simp add: attach_callback_def is_ready_def)
qed (simp_all add: fut_put_future is_ready_def)

lemma no_callback: "f_callback fi = None \<Longrightarrow> fi\<lparr>f_callback := None\<rparr> = fi"
  by (cases fi) simp

lemma set_result_section:
  assumes "f < length (h_futures h)"
  shows "finish f (Put_result r (Put_error e (Put_zone z (Reset_session (Notify_waiters
    (Call_callback (Clear_callback (Unlock k)))))))) h = set_result f r e z h"
  using assms
  by (auto simp: set_result_def put_future_def log_effects_def Let_def no_callback split: option.split)

lemma guarded_set_result [simp]: "guarded f False (set_result_code r e z k) \<longleftrightarrow> guarded f False k"
  using set_result_section[of f _ r e z k]
  by (auto simp: set_result_code_def put_future_def log_effects_def split: option.split
      simp del: finish.simps(1))

lemma guarded_attach [simp]: "guarded f False (attach_callback_code func k) \<longleftrightarrow> guarded f False k"
  by (simp add: attach_callback_code_def)

lemma guarded_waits [simp]:
  "guarded f False (wait_code k) \<longleftrightarrow> guarded f False k"
  "guarded f False (timed_wait_code k) \<longleftrightarrow> guarded f False k"
  by (simp_all add: wait_code_def timed_wait_code_def)

lemma known_codes [simp]:
  "known rd (attach_callback_code func k) = known rd k" "known rd (wait_code k) = known True k"
  "known rd (set_result_code r e z k) = known True k" "known rd (timed_wait_code k) = known True k"
  by (auto simp: attach_callback_code_def wait_code_def set_result_code_def timed_wait_code_def)

lemma program_ok: "program c \<Longrightarrow> guarded f False c \<and> known rd c"
proof (induction arbitrary: rd rule: program.induct)
  case (prog_get k running)
  then show ?case by (simp add: get_impl_code_def join_code_def recv_code_def)
next
  case (prog_future_wait k running rethrow)
  then show ?case by (simp add: future_wait_code_def get_impl_code_def join_code_def recv_code_def Let_def)
qed simp_all
section \<open>The invariant\<close>

definition thread_ok :: "fid \<Rightarrow> nat option \<Rightarrow> bool \<Rightarrow> nat \<Rightarrow> 'x thread \<Rightarrow> bool" where
  "thread_ok f lk rd i t \<longleftrightarrow>
     (if t_state t = Running then guarded f (lk = Some i) (t_code t)
      else lk \<noteq> Some i \<and> waits (t_code t) \<and> guarded f True (t_code t) \<and>
        (t_state t = Expired \<longrightarrow> (\<exists>k1 k2. t_code t = Timed_wait_session k1 k2))) \<and>
     may_read rd (t_code t) \<and> (t_out t \<noteq> None \<longrightarrow> rd)"

definition section_of :: "'x threads \<Rightarrow> 'x code" where
  "section_of y = (case y_lock y of None \<Rightarrow> Done | Some i \<Rightarrow> t_code (thr y i))"

definition threads_inv :: "fid \<Rightarrow> 'x heap \<Rightarrow> 'x operation list \<Rightarrow> 'x threads \<Rightarrow> bool" where
  "threads_inv f h0 ops y \<longleftrightarrow>
     f < length (h_futures (y_heap y)) \<and>
     (\<forall>i < length (y_threads y). thread_ok f (y_lock y) (ready (y_heap y) f) i (thr y i)) \<and>
     (\<forall>i. y_lock y = Some i \<longrightarrow> i < length (y_threads y) \<and> t_state (thr y i) = Running) \<and>
     finish f (section_of y) (y_heap y) = fold (perform f) ops h0 \<and>
     (ready (y_heap y) f \<and> (\<exists>i < length (y_threads y). t_state (thr y i) = Waiting) \<longrightarrow>
        (\<exists>k. section_of y = Notify_waiters k))"

lemma put_thread_simps [simp]:
  "y_heap (put_thread i t y) = y_heap y" "y_lock (put_thread i t y) = y_lock y"
  "length (y_threads (put_thread i t y)) = length (y_threads y)"
  by (simp_all add: put_thread_def)

lemma thr_put_thread: "i < length (y_threads y) \<Longrightarrow> thr (put_thread i t y) j = (if i = j then t else thr y j)"
  by (simp add: put_thread_def nth_list_update)

lemma thread_ok_mono: "thread_ok f lk rd i t \<Longrightarrow> thread_ok f lk True i t"
  by (auto simp: thread_ok_def intro: may_read_mono)

lemma thread_ok_ready: "thread_ok f lk rd i t \<Longrightarrow> (rd \<Longrightarrow> rd') \<Longrightarrow> thread_ok f lk rd' i t"
  using thread_ok_mono by (cases rd'; cases rd) auto

lemma thread_ok_lock:
  "thread_ok f lk rd i t \<Longrightarrow> lk \<noteq> Some i \<Longrightarrow> lk' \<noteq> Some i \<Longrightarrow> thread_ok f lk' rd i t"
  by (simp add: thread_ok_def split: if_splits)

lemma thread_ok_wake: "thread_ok f lk rd i (wake t) = thread_ok f lk rd i t"
  by (simp add: thread_ok_def wake_def)

text \<open>The kinds of steps of a thread.\<close>

fun plain :: "'x code \<Rightarrow> bool" where
  "plain Done = False"
| "plain (Lock k) = False"
| "plain (Unlock k) = False"
| "plain (Wait_session k) = False"
| "plain (Timed_wait_session k1 k2) = False"
| "plain (Notify_waiters k) = False"
| "plain _ = True"

definition taken :: "'x thread \<Rightarrow> 'x thread option" where
  "taken t =
     (case (t_state t, t_code t) of
        (Running, Lock k) \<Rightarrow> Some (t\<lparr>t_code := k\<rparr>)
      | (Woken, c) \<Rightarrow> Some (t\<lparr>t_state := Running\<rparr>)
      | (Expired, Timed_wait_session k1 k2) \<Rightarrow> Some (t\<lparr>t_state := Running, t_code := k1\<rparr>)
      | _ \<Rightarrow> None)"

lemma exec_cases [consumes 1, case_names take release sleep test notify plain]:
  assumes "exec sh relocks f i y = Some y'"
  obtains t' where "taken (thr y i) = Some t'" "y_lock y = None" "y' = put_thread i t' (y\<lparr>y_lock := Some i\<rparr>)"
  | k where "t_state (thr y i) = Running" "t_code (thr y i) = Unlock k"
      "y' = put_thread i ((thr y i)\<lparr>t_code := k\<rparr>) (y\<lparr>y_lock := None\<rparr>)"
  | "t_state (thr y i) = Running" "waits (t_code (thr y i))" "\<not> ready (y_heap y) f"
      "y' = put_thread i ((thr y i)\<lparr>t_state := Waiting\<rparr>) (y\<lparr>y_lock := None\<rparr>)"
  | k where "t_state (thr y i) = Running" "ready (y_heap y) f"
      "t_code (thr y i) = Wait_session k \<or> (\<exists>k1. t_code (thr y i) = Timed_wait_session k1 k)"
      "y' = put_thread i ((thr y i)\<lparr>t_code := k\<rparr>) y"
  | k where "t_state (thr y i) = Running" "t_code (thr y i) = Notify_waiters k"
      "y' = put_thread i ((thr y i)\<lparr>t_code := k\<rparr>)
        (y\<lparr>y_threads := map wake (y_threads y), y_heap := log_effects [Notify_all f] (y_heap y)\<rparr>)"
  | "t_state (thr y i) = Running" "plain (t_code (thr y i))"
      "y' = put_thread i ((returned sh f (y_heap y) (thr y i))\<lparr>t_code := after relocks f (t_code (thr y i)) (y_heap y)\<rparr>)
        (y\<lparr>y_heap := access f (t_code (thr y i)) (y_heap y)\<rparr>)"
proof (cases "t_state (thr y i)")
  case Running
  show thesis
  proof (cases "plain (t_code (thr y i))")
    case True
    then have "exec sh relocks f i y =
        Some (put_thread i ((returned sh f (y_heap y) (thr y i))\<lparr>t_code := after relocks f (t_code (thr y i)) (y_heap y)\<rparr>)
          (y\<lparr>y_heap := access f (t_code (thr y i)) (y_heap y)\<rparr>))"
      using Running by (cases "t_code (thr y i)") (simp_all add: exec_def Let_def)
    with assms Running True that(6) show ?thesis by simp
  next
    case False
    then consider "t_code (thr y i) = Done" | k where "t_code (thr y i) = Lock k" | k where "t_code (thr y i) = Unlock k"
      | k where "t_code (thr y i) = Wait_session k" | k1 k where "t_code (thr y i) = Timed_wait_session k1 k"
      | k where "t_code (thr y i) = Notify_waiters k" by (cases "t_code (thr y i)") simp_all
    then show ?thesis
    proof cases
      case 1
      with assms Running show ?thesis by (simp add: exec_def)
    next
      case (2 k)
      with assms Running that(1) show ?thesis by (simp add: exec_def Let_def taken_def split: if_splits)
    next
      case (3 k)
      with assms Running that(2) show ?thesis by (simp add: exec_def Let_def)
    next
      case (4 k)
      with assms Running that(3,4) show ?thesis by (simp add: exec_def Let_def split: if_splits)
    next
      case (5 k1 k)
      with assms Running that(3,4) show ?thesis by (simp add: exec_def Let_def split: if_splits)
    next
      case (6 k)
      with assms Running that(5) show ?thesis by (simp add: exec_def Let_def)
    qed
  qed
next
  case Waiting
  with assms show thesis by (simp add: exec_def Let_def)
next
  case Woken
  with assms that(1) show thesis by (simp add: exec_def Let_def taken_def split: if_splits)
next
  case Expired
  with assms obtain k1 k2 where "t_code (thr y i) = Timed_wait_session k1 k2"
    by (cases "t_code (thr y i)") (simp_all add: exec_def Let_def)
  with assms Expired that(1) show thesis by (simp add: exec_def Let_def taken_def split: if_splits)
qed

lemma threads_invD:
  assumes "threads_inv f h0 ops y"
  shows "f < length (h_futures (y_heap y))"
    "\<And>i. i < length (y_threads y) \<Longrightarrow> thread_ok f (y_lock y) (ready (y_heap y) f) i (thr y i)"
    "\<And>i. y_lock y = Some i \<Longrightarrow> i < length (y_threads y) \<and> t_state (thr y i) = Running"
    "finish f (section_of y) (y_heap y) = fold (perform f) ops h0"
    "\<And>i. ready (y_heap y) f \<Longrightarrow> i < length (y_threads y) \<Longrightarrow> t_state (thr y i) = Waiting \<Longrightarrow>
      \<exists>k. section_of y = Notify_waiters k"
  using assms by (auto simp: threads_inv_def)

lemma section_of_put: "i < length (y_threads y) \<Longrightarrow>
    section_of (put_thread i t y) = (if y_lock y = Some i then t_code t else section_of y)"
  by (simp add: section_of_def thr_put_thread split: option.split)

lemma section_of_heap [simp]: "section_of (y\<lparr>y_heap := h\<rparr>) = section_of y"
  by (simp add: section_of_def split: option.split)

lemma step_inv:
  assumes inv: "threads_inv f h0 ops y" and i: "i < length (y_threads y)"
    and lk: "lk = y_lock y \<or> {lk, y_lock y} \<subseteq> {None, Some i}"
    and h': "length (h_futures h') = length (h_futures (y_heap y))" "ready (y_heap y) f \<Longrightarrow> ready h' f"
    and t': "thread_ok f lk (ready h' f) i t'" "lk = Some i \<Longrightarrow> t_state t' = Running"
    and sec: "finish f (section_of (put_thread i t' (y\<lparr>y_lock := lk\<rparr>))) h' = fold (perform f) ops' h0"
    and waiting: "\<And>j. ready h' f \<Longrightarrow> j < length (y_threads y) \<Longrightarrow> t_state (thr (put_thread i t' y) j) = Waiting \<Longrightarrow>
      \<exists>k. section_of (put_thread i t' (y\<lparr>y_lock := lk\<rparr>)) = Notify_waiters k"
  shows "threads_inv f h0 ops' (put_thread i t' (y\<lparr>y_lock := lk, y_heap := h'\<rparr>))"
proof -
  have other: "thread_ok f lk (ready h' f) j (thr y j)" if "j < length (y_threads y)" "j \<noteq> i" for j
    using thread_ok_ready[OF threads_invD(2)[OF inv that(1)] h'(2)] lk that(2) by (auto intro: thread_ok_lock)
  have sec_eq: "section_of (put_thread i t' (y\<lparr>y_lock := lk, y_heap := h'\<rparr>)) = section_of (put_thread i t' (y\<lparr>y_lock := lk\<rparr>))"
    by (simp add: section_of_def put_thread_def split: option.split)
  have thr_eq: "thr (put_thread i t' (y\<lparr>y_lock := lk, y_heap := h'\<rparr>)) j = (if i = j then t' else thr y j)" for j
    using i by (simp add: thr_put_thread)
  have own: "j < length (y_threads y) \<and> t_state (if i = j then t' else thr y j) = Running" if "lk = Some j" for j
    using lk that t'(2) threads_invD(3)[OF inv, of j] i by auto
  have "\<exists>k. section_of (put_thread i t' (y\<lparr>y_lock := lk\<rparr>)) = Notify_waiters k"
    if "ready h' f \<and> (\<exists>j < length (y_threads y). t_state (if i = j then t' else thr y j) = Waiting)"
    using waiting that i by (auto simp: thr_put_thread)
  moreover have "\<forall>j < length (y_threads y). thread_ok f lk (ready h' f) j (if i = j then t' else thr y j)"
    using other t'(1) by simp
  moreover have "\<forall>j. lk = Some j \<longrightarrow> j < length (y_threads y) \<and> t_state (if i = j then t' else thr y j) = Running"
    using own by simp
  ultimately show ?thesis
    using threads_invD(1)[OF inv] h'(1) sec unfolding threads_inv_def sec_eq thr_eq by simp
qed

lemma taken_cases [consumes 1, case_names lock woken expired]:
  assumes "taken t = Some t'"
  obtains k where "t_state t = Running" "t_code t = Lock k" "t' = t\<lparr>t_code := k\<rparr>"
  | "t_state t = Woken" "t' = t\<lparr>t_state := Running\<rparr>"
  | k1 k2 where "t_state t = Expired" "t_code t = Timed_wait_session k1 k2" "t' = t\<lparr>t_state := Running, t_code := k1\<rparr>"
  using assms by (auto simp: taken_def split: thread_state.splits code.splits)

lemma take_inv:
  assumes inv: "threads_inv f h0 ops y" and i: "i < length (y_threads y)"
    and t: "taken (thr y i) = Some t'" and free: "y_lock y = None"
  shows "threads_inv f h0 (ops @ entered i y) (put_thread i t' (y\<lparr>y_lock := Some i\<rparr>))"
proof -
  note ok = threads_invD(2)[OF inv i]
  have sec: "section_of y = Done" using free by (simp add: section_of_def)
  have heap: "y_heap y = fold (perform f) ops h0" using threads_invD(4)[OF inv] sec by simp
  have t': "thread_ok f (Some i) (ready (y_heap y) f) i t' \<and> t_state t' = Running \<and>
      finish f (t_code t') (y_heap y) = fold (perform f) (ops @ entered i y) h0"
    using t
  proof (cases rule: taken_cases)
    case (lock k)
    with ok free threads_invD(1)[OF inv] show ?thesis by (simp add: thread_ok_def entered_def flip: heap)
  next
    case woken
    with ok free show ?thesis
      by (cases "t_code (thr y i)") (simp_all add: thread_ok_def entered_def flip: heap)
  next
    case (expired k1 k2)
    with ok free show ?thesis by (auto simp: thread_ok_def entered_def heap[symmetric])
  qed
  then have "threads_inv f h0 (ops @ entered i y) (put_thread i t' (y\<lparr>y_lock := Some i, y_heap := y_heap y\<rparr>))"
    using free sec threads_invD(5)[OF inv] i
    by (intro step_inv[OF inv i]) (auto simp: section_of_put thr_put_thread split: if_splits)
  then show ?thesis by simp
qed

lemma holder:
  assumes "threads_inv f h0 ops y" "i < length (y_threads y)" "t_state (thr y i) = Running" "guarded f False (t_code (thr y i)) = False"
  shows "y_lock y = Some i" "guarded f True (t_code (thr y i))" "section_of y = t_code (thr y i)"
  using threads_invD(2)[OF assms(1,2)] assms(3,4)
  by (cases "y_lock y = Some i"; simp add: thread_ok_def section_of_def)+

lemma wake_state: "t_state (wake t) \<noteq> Waiting" "t_state (wake t) = Running \<longleftrightarrow> t_state t = Running" "t_code (wake t) = t_code t"
  by (simp_all add: wake_def)

lemma wake_inv:
  assumes "threads_inv f h0 ops y"
  shows "threads_inv f h0 ops (y\<lparr>y_threads := map wake (y_threads y)\<rparr>)"
proof -
  have "section_of (y\<lparr>y_threads := map wake (y_threads y)\<rparr>) = section_of y"
    using threads_invD(3)[OF assms] by (simp add: section_of_def wake_state split: option.split)
  with assms threads_invD(3)[OF assms] show ?thesis
    by (auto simp: threads_inv_def thread_ok_wake wake_state)
qed

lemma locked_access:
  assumes "plain c" "guarded f True c" "f < length (h_futures h)" "k = after relocks f c h"
    and "\<forall>k cb. c = Call_callback k \<and> f_callback (fut h f) = Some cb \<longrightarrow> \<not> relocks cb"
  shows "finish f c h = finish f k (access f c h)" "guarded f True k" "\<not> guarded f False c" "t_code t = c \<Longrightarrow> returned sh f h t = t"
    "may_read (ready h f) c \<Longrightarrow> may_read (ready (access f c h) f) k"
    "ready (access f c h) f \<Longrightarrow> ready h f \<or> \<not> writes k \<and> (\<exists>k'. k = Notify_waiters k')"
proof -
  show "finish f c h = finish f k (access f c h)" "guarded f True k" "\<not> guarded f False c" "t_code t = c \<Longrightarrow> returned sh f h t = t"
    using assms by (cases c; simp add: returned_def split: option.splits)+
  have "known rd k \<or> (\<exists>k'. c = Reset_session k')" if "may_read rd c" for rd
    using assms that by (cases c) (simp_all split: option.splits)
  moreover have "known True k" if "may_read rd (Reset_session k')" "c = Reset_session k'" for rd k'
    using that assms(4) by simp
  moreover have "ready (access f (Reset_session k') h) f" for k' using assms(3) by (simp add: fut_put_future is_ready_def)
  ultimately show "may_read (ready h f) c \<Longrightarrow> may_read (ready (access f c h) f) k"
    using access_ready[OF _ assms(3), of c] known_mono by (cases "ready (access f c h) f") (fastforce intro: known_may_read)+
  show "ready (access f c h) f \<Longrightarrow> ready h f \<or> \<not> writes k \<and> (\<exists>k'. k = Notify_waiters k')"
    using assms by (cases c) (auto simp: attach_callback_def is_ready_def fut_put_future split: option.splits)
qed

lemma unlocked_access:
  assumes "plain c" "guarded f False c" "k = after relocks f c h"
  shows "access f c h = h" "guarded f False k" "\<not> guarded f True c"
    "may_read (ready h f) c \<Longrightarrow> may_read (ready h f) k"
    "t_code t = c \<Longrightarrow> may_read (ready h f) c \<Longrightarrow> t_out (returned sh f h t) \<noteq> t_out t \<Longrightarrow> ready h f"
  using assms by (cases c; auto simp: returned_def dest: known_mono)+

lemma returned_state [simp]: "t_state (returned sh f h t) = t_state t"
  by (simp add: returned_def split: code.split)

lemma exec_inv:
  assumes inv: "threads_inv f h0 ops y" and i: "i < length (y_threads y)"
    and ex: "exec sh relocks f i y = Some y'"
    and cb: "\<forall>k cb. t_code (thr y i) = Call_callback k \<and> f_callback (fut (y_heap y) f) = Some cb \<longrightarrow> \<not> relocks cb"
  shows "threads_inv f h0 (ops @ entered i y) y'"
  using ex
proof (cases rule: exec_cases)
  case (take t')
  with take_inv[OF inv i] show ?thesis by simp
next
  case (release k)
  with holder[OF inv i] have h: "y_lock y = Some i" "guarded f False k" "section_of y = Unlock k" by auto
  have "threads_inv f h0 ops (put_thread i ((thr y i)\<lparr>t_code := k\<rparr>) (y\<lparr>y_lock := None, y_heap := y_heap y\<rparr>))"
    using h release threads_invD(2)[OF inv i] threads_invD(4,5)[OF inv] i
    by (intro step_inv[OF inv i]) (auto simp: section_of_put thr_put_thread thread_ok_def section_of_def split: if_splits)
  with release show ?thesis by (simp add: entered_def)
next
  case sleep
  then have "guarded f False (t_code (thr y i)) = False" by (cases "t_code (thr y i)") simp_all
  from holder[OF inv i sleep(1) this] have h: "y_lock y = Some i" "section_of y = t_code (thr y i)"
    "guarded f True (t_code (thr y i))" by simp_all
  have "finish f (t_code (thr y i)) (y_heap y) = y_heap y" using sleep(2) by (cases "t_code (thr y i)") simp_all
  then have "threads_inv f h0 ops (put_thread i ((thr y i)\<lparr>t_state := Waiting\<rparr>) (y\<lparr>y_lock := None, y_heap := y_heap y\<rparr>))"
    using h sleep threads_invD(2)[OF inv i] threads_invD(4)[OF inv] i
    by (intro step_inv[OF inv i]) (auto simp: section_of_put thr_put_thread thread_ok_def section_of_def split: if_splits)
  with sleep show ?thesis by (cases "t_code (thr y i)") (simp_all add: entered_def)
next
  case (test k)
  then have "guarded f False (t_code (thr y i)) = False" by auto
  from holder[OF inv i test(1) this] have h: "y_lock y = Some i" "section_of y = t_code (thr y i)"
    "guarded f True (t_code (thr y i))" by simp_all
  have k: "finish f k (y_heap y) = y_heap y" "finish f (t_code (thr y i)) (y_heap y) = y_heap y" "guarded f True k"
    "\<And>k'. t_code (thr y i) \<noteq> Notify_waiters k'" using test(3) h(3) by auto
  have "threads_inv f h0 ops (put_thread i ((thr y i)\<lparr>t_code := k\<rparr>) (y\<lparr>y_lock := y_lock y, y_heap := y_heap y\<rparr>))"
    using h k test threads_invD(2)[OF inv i] threads_invD(4,5)[OF inv] i
    by (intro step_inv[OF inv i]) (auto simp: section_of_put thr_put_thread thread_ok_def split: if_splits)
  with test show ?thesis by (auto simp: entered_def)
next
  case (notify k)
  with holder[OF inv i] have h: "y_lock y = Some i" "guarded f True k" "section_of y = Notify_waiters k" by auto
  let ?y = "y\<lparr>y_threads := map wake (y_threads y)\<rparr>"
  have t: "thr ?y i = thr y i" using notify(1) i by (simp add: wake_def)
  have "threads_inv f h0 ops (put_thread i ((thr y i)\<lparr>t_code := k\<rparr>)
      (?y\<lparr>y_lock := y_lock ?y, y_heap := log_effects [Notify_all f] (y_heap ?y)\<rparr>))"
    using h notify threads_invD(2)[OF inv i] threads_invD(4)[OF inv] i
    by (intro step_inv[OF wake_inv[OF inv]]) (auto simp: section_of_put thr_put_thread thread_ok_def wake_state split: if_splits)
  with notify show ?thesis by (simp add: entered_def)
next
  case plain
  let ?c = "t_code (thr y i)" and ?h = "y_heap y"
  let ?k = "after relocks f ?c ?h" and ?t = "returned sh f ?h (thr y i)"
  note ok = threads_invD(2)[OF inv i]
  have "threads_inv f h0 ops (put_thread i (?t\<lparr>t_code := ?k\<rparr>) (y\<lparr>y_lock := y_lock y, y_heap := access f ?c ?h\<rparr>))"
  proof (cases "guarded f False ?c")
    case False
    from holder[OF inv i plain(1)] False have h: "y_lock y = Some i" "guarded f True ?c" "section_of y = ?c" by simp_all
    note acc = locked_access[OF plain(2) h(2) threads_invD(1)[OF inv] refl[of ?k] cb]
    have t: "?t = thr y i" by (rule acc(4)) simp
    have nw: "\<And>k'. ?c \<noteq> Notify_waiters k'" using plain(2) by auto
    show ?thesis
      unfolding t
    proof (rule step_inv[OF inv i])
      show "ready ?h f \<Longrightarrow> ready (access f ?c ?h) f" by (rule access_ready[OF _ threads_invD(1)[OF inv]])
      then show "thread_ok f (y_lock y) (ready (access f ?c ?h) f) i ((thr y i)\<lparr>t_code := ?k\<rparr>)"
        using ok acc(2,5) plain(1) h(1) by (auto simp: thread_ok_def)
      show "\<exists>k. section_of (put_thread i ((thr y i)\<lparr>t_code := ?k\<rparr>) (y\<lparr>y_lock := y_lock y\<rparr>)) = Notify_waiters k"
        if "ready (access f ?c ?h) f" "j < length (y_threads y)"
          "t_state (thr (put_thread i ((thr y i)\<lparr>t_code := ?k\<rparr>) y) j) = Waiting" for j
        using acc(6)[OF that(1)] threads_invD(5)[OF inv _ that(2)] that(3) h(1,3) nw i plain(1)
        by (auto simp: section_of_put thr_put_thread split: if_splits)
    qed (use h plain(1) acc(1) threads_invD(4)[OF inv] i in \<open>simp_all add: section_of_put\<close>)
  next
    case True
    note acc = unlocked_access[OF plain(2) True refl[of ?k]]
    from acc(3) ok plain(1) have nl: "y_lock y \<noteq> Some i" by (auto simp: thread_ok_def)
    have "t_out ?t \<noteq> None \<Longrightarrow> ready ?h f"
      using acc(5)[where t = "thr y i" and sh = sh] ok by (cases "t_out ?t = t_out (thr y i)") (auto simp: thread_ok_def)
    with nl ok acc(2,4) plain(1) i threads_invD(4,5)[OF inv] show ?thesis
      unfolding acc(1)
      by (intro step_inv[OF inv i]) (auto simp: thread_ok_def section_of_put thr_put_thread split: if_splits)
  qed
  with plain show ?thesis by (cases ?c) (simp_all add: entered_def)
qed
lemma thread_ok_stir:
  "t_state t = Waiting \<Longrightarrow> s = Woken \<or> s = Expired \<and> (\<exists>k1 k2. t_code t = Timed_wait_session k1 k2) \<Longrightarrow>
    thread_ok f lk rd i (t\<lparr>t_state := s\<rparr>) = thread_ok f lk rd i t"
  by (auto simp: thread_ok_def)

lemma section_of_stir [simp]:
  "i < length (y_threads y) \<Longrightarrow> section_of (put_thread i ((thr y i)\<lparr>t_state := s\<rparr>) y) = section_of y"
  by (simp add: section_of_put) (simp add: section_of_def)

lemma stir_inv:
  assumes inv: "threads_inv f h0 ops y" and i: "i < length (y_threads y)" "t_state (thr y i) = Waiting"
    and s: "s = Woken \<or> s = Expired \<and> (\<exists>k1 k2. t_code (thr y i) = Timed_wait_session k1 k2)"
  shows "threads_inv f h0 ops (put_thread i ((thr y i)\<lparr>t_state := s\<rparr>) y)"
proof -
  have nl: "y_lock y \<noteq> Some i" using threads_invD(3)[OF inv, of i] i(2) by auto
  have "threads_inv f h0 ops (put_thread i ((thr y i)\<lparr>t_state := s\<rparr>) (y\<lparr>y_lock := y_lock y, y_heap := y_heap y\<rparr>))"
    using i s nl threads_invD(2)[OF inv i(1)] threads_invD(4,5)[OF inv] thread_ok_stir[OF i(2) s]
    by (intro step_inv[OF inv i(1)]) (auto simp: section_of_put thr_put_thread split: if_splits)
  then show ?thesis by simp
qed

lemma new_threads_inv:
  assumes "f < length (h_futures h)" "list_all program cs"
  shows "threads_inv f h [] (new_threads h cs)"
  using assms program_ok[of _ f]
  by (auto simp: threads_inv_def new_threads_def new_thread_def thread_ok_def section_of_def list_all_length)

lemma thread_run_inv:
  assumes "thread_run sh relocks f (new_threads h cs) ops y" "f < length (h_futures h)" "list_all program cs"
    and quiet: "\<And>cb. \<not> relocks cb"
  shows "threads_inv f h ops y"
  using assms(1)
proof induction
  case thr_init
  show ?case by (rule new_threads_inv[OF assms(2,3)])
next
  case (thr_exec ops y i y')
  then show ?case using exec_inv quiet by blast
next
  case (thr_spurious ops y i)
  then show ?case by (simp add: stir_inv)
next
  case (thr_expire ops y i k1 k2)
  then show ?case by (simp add: stir_inv)
qed

text \<open>As long as only one result is set, a completed future has nothing more to be written.\<close>

abbreviation (input) sets :: "'x operation list \<Rightarrow> 'x operation list" where
  "sets ops \<equiv> [op \<leftarrow> ops. \<exists>r e z. op = Op_set_result r e z]"

lemma no_sets_not_ready:
  assumes "sets ops = []" "\<not> ready h f"
  shows "\<not> ready (fold (perform f) ops h) f"
  using assms
proof (induction ops arbitrary: h)
  case (Cons op ops)
  then show ?case
    by (cases op) (auto simp: attach_callback_def is_ready_def fut_put_future split: if_splits)
qed simp
lemma outcome_cong:
  "f_result fi = f_result gi \<Longrightarrow> f_error fi = f_error gi \<Longrightarrow> outcome sh f fi = outcome sh f gi"
  by (simp add: outcome_def throw_exception_def split: object.split)

lemma fold_attach_outcome:
  assumes "sets ops = []" "f < length (h_futures h)"
  shows "f_result (fut (fold (perform f) ops h) f) = f_result (fut h f) \<and>
    f_error (fut (fold (perform f) ops h) f) = f_error (fut h f)"
  using assms
proof (induction ops arbitrary: h)
  case (Cons op ops)
  then show ?case by (cases op) (simp_all add: attach_callback_def fut_put_future)
qed simp

lemma fold_perform_length [simp]: "length (h_futures (fold (perform f) ops h)) = length (h_futures h)"
proof (induction ops arbitrary: h)
  case (Cons op ops)
  then show ?case by (cases op) simp_all
qed simp

text \<open>What a step of a thread does to what the threads have returned and are about to return.\<close>

lemma exec_returns:
  assumes inv: "threads_inv f h0 ops y" and i: "i < length (y_threads y)" and ex: "exec sh relocks f i y = Some y'"
    and cb: "\<forall>k cb. t_code (thr y i) = Call_callback k \<and> f_callback (fut (y_heap y) f) = Some cb \<longrightarrow> \<not> relocks cb"
  shows "length (y_threads y') = length (y_threads y)"
    "j \<noteq> i \<Longrightarrow> j < length (y_threads y) \<Longrightarrow> t_out (thr y' j) = t_out (thr y j) \<and> t_code (thr y' j) = t_code (thr y j)"
    "t_out (thr y' i) = t_out (thr y i) \<or>
      (\<exists>k. t_code (thr y i) = Throw k \<and> t_out (thr y' i) = Some (Inl (throw_exception sh f (fut (y_heap y) f)))) \<or>
      (\<exists>k. t_code (thr y i) = Load_result k \<and> t_out (thr y' i) = Some (Inr (f_result (fut (y_heap y) f))))"
    "reading (t_code (thr y' i)) \<Longrightarrow> \<exists>k. t_code (thr y i) = If_error k \<and>
      t_code (thr y' i) = (if f_error (fut (y_heap y) f) = NIL then Load_result k else Throw k)"
    "\<not> reading (t_code (thr y' i)) \<or> y_heap y' = y_heap y"
proof -
  note ok = threads_invD(2)[OF inv i]
  have "length (y_threads y') = length (y_threads y) \<and>
    (\<forall>j < length (y_threads y). j \<noteq> i \<longrightarrow> t_out (thr y' j) = t_out (thr y j) \<and> t_code (thr y' j) = t_code (thr y j)) \<and>
    (t_out (thr y' i) = t_out (thr y i) \<or>
      (\<exists>k. t_code (thr y i) = Throw k \<and> t_out (thr y' i) = Some (Inl (throw_exception sh f (fut (y_heap y) f)))) \<or>
      (\<exists>k. t_code (thr y i) = Load_result k \<and> t_out (thr y' i) = Some (Inr (f_result (fut (y_heap y) f))))) \<and>
    (reading (t_code (thr y' i)) \<longrightarrow> y_heap y' = y_heap y \<and> (\<exists>k. t_code (thr y i) = If_error k \<and>
      t_code (thr y' i) = (if f_error (fut (y_heap y) f) = NIL then Load_result k else Throw k)))"
    (is "?P y'") using ex
  proof (cases rule: exec_cases)
    case (take t')
    from take(1) ok have "\<not> reading (t_code t')" "t_out t' = t_out (thr y i)"
      by (cases rule: taken_cases; auto simp: thread_ok_def dest: known_not_reading elim: waits.elims)+
    with take i show ?thesis by (simp add: thr_put_thread)
  next
    case (release k)
    with ok i show ?thesis by (auto simp: thr_put_thread thread_ok_def dest: known_not_reading)
  next
    case sleep
    with ok i show ?thesis by (auto simp: thr_put_thread elim: waits.elims)
  next
    case (test k)
    with ok i show ?thesis by (auto simp: thr_put_thread thread_ok_def dest: known_not_reading)
  next
    case (notify k)
    with ok i show ?thesis by (auto simp: thr_put_thread thread_ok_def wake_def dest: known_not_reading)
  next
    case plain
    have "\<not> reading (after relocks f (t_code (thr y i)) (y_heap y)) \<or>
      (\<exists>k. t_code (thr y i) = If_error k)"
      using plain ok cb by (cases "t_code (thr y i)") (auto simp: thread_ok_def dest: known_not_reading split: option.splits)
    with plain i show ?thesis
      by (cases "t_code (thr y i)") (auto simp: thr_put_thread returned_def is_nil_def split: object.splits)
  qed
  then show "length (y_threads y') = length (y_threads y)"
    "j \<noteq> i \<Longrightarrow> j < length (y_threads y) \<Longrightarrow> t_out (thr y' j) = t_out (thr y j) \<and> t_code (thr y' j) = t_code (thr y j)"
    "t_out (thr y' i) = t_out (thr y i) \<or>
      (\<exists>k. t_code (thr y i) = Throw k \<and> t_out (thr y' i) = Some (Inl (throw_exception sh f (fut (y_heap y) f)))) \<or>
      (\<exists>k. t_code (thr y i) = Load_result k \<and> t_out (thr y' i) = Some (Inr (f_result (fut (y_heap y) f))))"
    "reading (t_code (thr y' i)) \<Longrightarrow> \<exists>k. t_code (thr y i) = If_error k \<and>
      t_code (thr y' i) = (if f_error (fut (y_heap y) f) = NIL then Load_result k else Throw k)"
    "\<not> reading (t_code (thr y' i)) \<or> y_heap y' = y_heap y"
    by blast+
qed
definition settled :: "('x object \<Rightarrow> string) \<Rightarrow> fid \<Rightarrow> 'x heap \<Rightarrow> 'x threads \<Rightarrow> bool" where
  "settled sh f h y \<longleftrightarrow> (ready (y_heap y) f \<longrightarrow> \<not> writes (section_of y)) \<and>
     (\<forall>i < length (y_threads y). \<forall>out. t_out (thr y i) = Some out \<longrightarrow> out = outcome sh f (fut h f)) \<and>
     (\<forall>i < length (y_threads y). \<forall>k. (t_code (thr y i) = Throw k \<longrightarrow> f_error (fut h f) \<noteq> NIL) \<and>
        (t_code (thr y i) = Load_result k \<longrightarrow> f_error (fut h f) = NIL))"

lemma settled_heap:
  assumes "threads_inv f h0 ops y" "settled sh f h y" "ready (y_heap y) f"
  shows "f_result (fut (y_heap y) f) = f_result (fut (fold (perform f) ops h0) f)"
    "f_error (fut (y_heap y) f) = f_error (fut (fold (perform f) ops h0) f)"
  using finish_outcome[of "section_of y" f "y_heap y"] assms threads_invD(1,4)[OF assms(1)]
  by (simp_all add: settled_def)

lemma not_ready_settled:
  assumes inv: "threads_inv f h0 ops y" "\<not> ready (y_heap y) f"
  shows "settled sh f h y"
proof -
  have "t_out (thr y i) = None \<and> \<not> reading (t_code (thr y i))" if "i < length (y_threads y)" for i
    using threads_invD(2)[OF inv(1) that] inv(2) by (cases "t_code (thr y i)") (auto simp: thread_ok_def)
  then have "t_out (thr y i) = None" "t_code (thr y i) \<noteq> Throw k" "t_code (thr y i) \<noteq> Load_result k"
    if "i < length (y_threads y)" for i k using that by fastforce+
  with inv(2) show ?thesis by (simp add: settled_def)
qed

text \<open>The section that a step leaves does not write the outcome of a completed future.\<close>

lemma exec_writes:
  assumes inv: "threads_inv f h0 ops y" and i: "i < length (y_threads y)" and ex: "exec sh relocks f i y = Some y'"
    and cb: "\<forall>k cb. t_code (thr y i) = Call_callback k \<and> f_callback (fut (y_heap y) f) = Some cb \<longrightarrow> \<not> relocks cb"
    and st: "ready (y_heap y) f \<Longrightarrow> \<not> writes (section_of y)" and ns: "sets (entered i y) = []" and rd: "ready (y_heap y') f"
  shows "\<not> writes (section_of y')"
  using ex
proof (cases rule: exec_cases)
  case (take t')
  from take(1) threads_invD(2)[OF inv i] ns take(2) have "\<not> writes (t_code t')"
    by (cases rule: taken_cases) (auto simp: thread_ok_def entered_def elim: waits.elims)
  with take i show ?thesis by (simp add: section_of_put)
next
  case (release k)
  with i show ?thesis by (simp add: section_of_put) (simp add: section_of_def)
next
  case sleep
  with i show ?thesis by (simp add: section_of_put) (simp add: section_of_def)
next
  case (test k)
  then have "\<not> guarded f False (t_code (thr y i))" by auto
  with holder[OF inv i test(1)] have "y_lock y = Some i" "guarded f True (t_code (thr y i))" by simp_all
  with test i show ?thesis by (auto simp: section_of_put)
next
  case (notify k)
  with holder[OF inv i] have "y_lock y = Some i" "section_of y = Notify_waiters k" by auto
  with notify st rd i show ?thesis by (simp add: section_of_put)
next
  case plain
  let ?c = "t_code (thr y i)"
  have sec: "section_of y' = (if y_lock y = Some i then after relocks f ?c (y_heap y) else section_of y)"
    using plain(3) i by (simp add: section_of_put)
  show ?thesis
  proof (cases "guarded f False ?c")
    case True
    with unlocked_access(1,3)[OF plain(2) True refl] threads_invD(2)[OF inv i] plain(1)
    have "y_lock y \<noteq> Some i" "y_heap y' = y_heap y" using plain(3) by (auto simp: thread_ok_def)
    with sec st rd show ?thesis by simp
  next
    case False
    from holder[OF inv i plain(1)] False have h: "y_lock y = Some i" "guarded f True ?c" "section_of y = ?c" by simp_all
    have "ready (y_heap y) f \<or> \<not> writes (after relocks f ?c (y_heap y))"
      using locked_access(6)[OF plain(2) h(2) threads_invD(1)[OF inv] refl cb] rd plain(3) by auto
    moreover have "\<not> writes (after relocks f ?c (y_heap y))" if "\<not> writes ?c"
      using that plain(2) h(2) cb by (cases ?c) (auto split: option.splits)
    ultimately show ?thesis using sec h(1,3) st by auto
  qed
qed
lemma settled_cong:
  "settled sh f h y \<Longrightarrow> f_result (fut h' f) = f_result (fut h f) \<Longrightarrow> f_error (fut h' f) = f_error (fut h f) \<Longrightarrow>
    settled sh f h' y"
  using outcome_cong[of "fut h' f" "fut h f" sh f] by (simp add: settled_def)

lemma exec_settled:
  assumes inv: "threads_inv f h0 ops y" and i: "i < length (y_threads y)" and ex: "exec sh relocks f i y = Some y'"
    and cb: "\<forall>k cb. t_code (thr y i) = Call_callback k \<and> f_callback (fut (y_heap y) f) = Some cb \<longrightarrow> \<not> relocks cb"
    and st: "settled sh f (fold (perform f) ops h0) y" and ns: "sets (entered i y) = []"
  shows "settled sh f (fold (perform f) ops h0) y'"
proof -
  let ?F = "fold (perform f) ops h0"
  note r = exec_returns[OF inv i ex cb]
  have rd: "ready (y_heap y) f" if "reading (t_code (thr y i)) \<or> (\<exists>k. t_code (thr y i) = If_error k)"
    using threads_invD(2)[OF inv i] that by (cases "t_code (thr y i)") (auto simp: thread_ok_def)
  note heap = settled_heap[OF inv st]
  have "out = outcome sh f (fut ?F f)" if "t_out (thr y' i) = Some out" for out
    using r(3)
  proof (elim disjE exE conjE)
    assume "t_out (thr y' i) = t_out (thr y i)"
    with that st i show ?thesis by (simp add: settled_def)
  next
    fix k assume k: "t_code (thr y i) = Throw k" "t_out (thr y' i) = Some (Inl (throw_exception sh f (fut (y_heap y) f)))"
    with st i have "f_error (fut ?F f) \<noteq> NIL" by (simp add: settled_def)
    with k that heap rd outcome_cong[of "fut (y_heap y) f" "fut ?F f" sh f] show ?thesis by (simp add: outcome_def)
  next
    fix k assume k: "t_code (thr y i) = Load_result k" "t_out (thr y' i) = Some (Inr (f_result (fut (y_heap y) f)))"
    with st i have "f_error (fut ?F f) = NIL" by (simp add: settled_def)
    with k that heap rd show ?thesis by (simp add: outcome_def)
  qed
  moreover have "(t_code (thr y' i) = Throw k \<longrightarrow> f_error (fut ?F f) \<noteq> NIL) \<and>
      (t_code (thr y' i) = Load_result k \<longrightarrow> f_error (fut ?F f) = NIL)" for k
    using r(4) heap(2) rd by (cases "t_code (thr y' i)") (auto split: if_splits)
  moreover have "ready (y_heap y') f \<longrightarrow> \<not> writes (section_of y')"
    using exec_writes[OF inv i ex cb _ ns] st by (simp add: settled_def)
  moreover have "t_out (thr y' j) = Some out \<Longrightarrow> out = outcome sh f (fut ?F f)"
    "t_code (thr y' j) = Throw k \<Longrightarrow> f_error (fut ?F f) \<noteq> NIL"
    "t_code (thr y' j) = Load_result k \<Longrightarrow> f_error (fut ?F f) = NIL"
    if "j \<noteq> i" "j < length (y_threads y)" for j out k
    using r(2)[OF that] st that(2) by (simp_all add: settled_def)
  ultimately show ?thesis
    unfolding settled_def r(1) by (intro conjI allI impI) (metis+)
qed

lemma entered_heap:
  assumes "exec sh relocks f i y = Some y'" "entered i y \<noteq> []"
  shows "y_heap y' = y_heap y"
proof -
  obtain k where "t_state (thr y i) = Running" "t_code (thr y i) = Lock k"
    using assms(2) by (auto simp: entered_def split: thread_state.splits code.splits)
  with assms(1) show ?thesis by (auto simp: exec_def Let_def split: if_splits)
qed

lemma run_settled:
  assumes "thread_run sh relocks f (new_threads h cs) ops y" "f < length (h_futures h)" "list_all program cs"
    and quiet: "\<And>cb. \<not> relocks cb" and "\<not> ready h f" "length (sets ops) \<le> 1"
  shows "settled sh f (fold (perform f) ops h) y"
  using assms(1,6)
proof induction
  case thr_init
  show ?case by (rule not_ready_settled[OF new_threads_inv[OF assms(2,3)]]) (use assms(5) in \<open>simp add: new_threads_def\<close>)
next
  case (thr_exec ops y i y')
  note inv = thread_run_inv[OF thr_exec.hyps(1) assms(2,3) quiet]
  have cb: "\<forall>k cb. t_code (thr y i) = Call_callback k \<and> f_callback (fut (y_heap y) f) = Some cb \<longrightarrow> \<not> relocks cb"
    using quiet by simp
  show ?case
  proof (cases "sets (entered i y) = []")
    case True
    with thr_exec have "settled sh f (fold (perform f) ops h) y" by simp
    from exec_settled[OF inv thr_exec.hyps(2,3) cb this True]
    show ?thesis
      by (rule settled_cong) (use fold_attach_outcome[OF True, of "f" "fold (perform f) ops h"] assms(2) in simp_all)
  next
    case False
    then have "0 < length (sets (entered i y))" by blast
    with thr_exec.prems have "length (sets ops) = 0" unfolding filter_append length_append by linarith
    then have none: "sets ops = []" by blast
    have "\<not> ready (finish f (section_of y) (y_heap y)) f"
      unfolding threads_invD(4)[OF inv] by (rule no_sets_not_ready[OF none assms(5)])
    then have "\<not> ready (y_heap y) f" using finish_ready threads_invD(1)[OF inv] by metis
    moreover have "y_heap y' = y_heap y" using False entered_heap[OF thr_exec.hyps(3)] by force
    ultimately show ?thesis
      by (intro not_ready_settled[OF exec_inv[OF inv thr_exec.hyps(2,3) cb]]) simp
  qed
next
  case (thr_spurious ops y i)
  then have "settled sh f (fold (perform f) ops h) y" by simp
  with thr_spurious(2) show ?case by (simp add: settled_def thr_put_thread)
next
  case (thr_expire ops y i k1 k2)
  then have "settled sh f (fold (perform f) ops h) y" by simp
  with thr_expire(2) show ?case by (simp add: settled_def thr_put_thread)
qed
section \<open>Callbacks that take the mutex again\<close>

text \<open>The thread \<open>i\<close> holds the mutex and waits for it.\<close>

definition self_locked :: "fid \<Rightarrow> nat \<Rightarrow> 'x code \<Rightarrow> 'x threads \<Rightarrow> bool" where
  "self_locked f i k y \<longleftrightarrow> i < length (y_threads y) \<and> y_lock y = Some i \<and> t_state (thr y i) = Running \<and>
     t_code (thr y i) = Lock k \<and>
     (\<forall>j < length (y_threads y). j \<noteq> i \<longrightarrow> thread_ok f (Some i) (ready (y_heap y) f) j (thr y j))"

lemma self_locked_exec:
  assumes "self_locked f i k y" "j < length (y_threads y)" "exec sh relocks f j y = Some y'"
  shows "self_locked f i k y' \<and> y_heap y' = y_heap y \<and> entered j y = []"
proof -
  have "exec sh relocks f i y = None" using assms(1) by (simp add: self_locked_def exec_def Let_def)
  with assms(3) have ij: "i \<noteq> j" by auto
  with assms have ok: "thread_ok f (Some i) (ready (y_heap y) f) j (thr y j)" and lk: "y_lock y = Some i"
    by (auto simp: self_locked_def)
  show ?thesis using assms(3)
  proof (cases rule: exec_cases)
    case plain
    with ok ij have g: "guarded f False (t_code (thr y j))" by (simp add: thread_ok_def)
    note acc = unlocked_access[OF plain(2) g refl[of "after relocks f (t_code (thr y j)) (y_heap y)"]]
    have "t_out (returned sh f (y_heap y) (thr y j)) \<noteq> None \<Longrightarrow> ready (y_heap y) f"
      using acc(5)[of "thr y j" sh] ok
      by (cases "t_out (returned sh f (y_heap y) (thr y j)) = t_out (thr y j)") (auto simp: thread_ok_def)
    with plain acc(1,2,4) ok have "thread_ok f (Some i) (ready (y_heap y') f) j (thr y' j)"
      using ij assms(2) by (simp add: thread_ok_def thr_put_thread)
    moreover have "entered j y = []" using plain(2) by (cases "t_code (thr y j)") (simp_all add: entered_def split: thread_state.split)
    ultimately show ?thesis
      using assms(1,2) plain(3) acc(1) ij by (auto simp: self_locked_def thr_put_thread split: if_splits)
  next
    case sleep
    with ok ij show ?thesis by (cases "t_code (thr y j)") (simp_all add: thread_ok_def)
  qed (use ok lk ij in \<open>auto simp: thread_ok_def\<close>)
qed

lemma self_locked_stir:
  assumes "self_locked f i k y" "j < length (y_threads y)" "t_state (thr y j) = Waiting"
    and "s = Woken \<or> s = Expired \<and> (\<exists>k1 k2. t_code (thr y j) = Timed_wait_session k1 k2)"
  shows "self_locked f i k (put_thread j ((thr y j)\<lparr>t_state := s\<rparr>) y)"
proof -
  have "j \<noteq> i" using assms(1,3) by (auto simp: self_locked_def)
  with assms thread_ok_stir[OF assms(3,4)] show ?thesis by (simp add: self_locked_def thr_put_thread)
qed

lemma self_locked_run:
  assumes "thread_run sh relocks f y0 ops y" "self_locked f i k y0"
  shows "self_locked f i k y \<and> y_heap y = y_heap y0 \<and> ops = []"
  using assms(1)
proof induction
  case (thr_exec ops y j y')
  then show ?case using self_locked_exec[of f i k y j sh relocks y'] by simp
next
  case (thr_spurious ops y j)
  then show ?case using self_locked_stir[of f i k y j] by simp
next
  case (thr_expire ops y j k1 k2)
  then show ?case using self_locked_stir[of f i k y j] by simp
qed (use assms(2) in simp)
lemma relock_step:
  assumes inv: "threads_inv f h0 ops y" and i: "i < length (y_threads y)"
    and c: "t_code (thr y i) = Call_callback k" "f_callback (fut (y_heap y) f) = Some cb" "relocks cb"
    and ex: "exec sh relocks f i y = Some y'"
  shows "self_locked f i (Unlock k) y'"
proof -
  note ok = threads_invD(2)[OF inv i]
  from ok c(1) have run: "t_state (thr y i) = Running" by (auto simp: thread_ok_def split: if_splits)
  with ok c(1) have lk: "y_lock y = Some i" by (simp add: thread_ok_def)
  have y': "y' = put_thread i ((thr y i)\<lparr>t_code := Lock (Unlock k)\<rparr>) (y\<lparr>y_heap := log_effects [Run_callback cb f] (y_heap y)\<rparr>)"
    using ex run c by (simp add: exec_def returned_def)
  show ?thesis
    using i run lk threads_invD(2)[OF inv] unfolding self_locked_def y' by (simp add: thr_put_thread)
qed

lemma thread_run_cases:
  assumes "thread_run sh relocks f (new_threads h cs) ops y" "f < length (h_futures h)" "list_all program cs"
  shows "threads_inv f h ops y \<or> (\<exists>i k. self_locked f i k y)"
  using assms(1)
proof induction
  case thr_init
  show ?case using new_threads_inv[OF assms(2,3)] by simp
next
  case (thr_exec ops y i y')
  from thr_exec.IH show ?case
  proof (elim disjE exE)
    assume inv: "threads_inv f h ops y"
    show ?thesis
    proof (cases "\<exists>k cb. t_code (thr y i) = Call_callback k \<and> f_callback (fut (y_heap y) f) = Some cb \<and> relocks cb")
      case True
      then obtain k where "self_locked f i (Unlock k) y'" using relock_step[OF inv thr_exec.hyps(2)] thr_exec.hyps(3) by blast
      then show ?thesis by blast
    next
      case False
      then show ?thesis using exec_inv[OF inv thr_exec.hyps(2,3)] by blast
    qed
  next
    fix j k assume "self_locked f j k y"
    then show ?thesis using self_locked_exec thr_exec.hyps(2,3) by blast
  qed
next
  case (thr_spurious ops y i)
  then show ?case using stir_inv self_locked_stir by blast
next
  case (thr_expire ops y i k1 k2)
  then show ?case using stir_inv self_locked_stir by blast
qed

section \<open>Schedules\<close>

text \<open>A run by a given schedule: steps of threads and time-outs.\<close>

datatype move = Step nat | Expire nat

fun play ::
  "('x object \<Rightarrow> string) \<Rightarrow> (cbid \<Rightarrow> bool) \<Rightarrow> fid \<Rightarrow> move list \<Rightarrow> 'x operation list \<Rightarrow> 'x threads \<Rightarrow>
   ('x operation list \<times> 'x threads) option"
where
  "play sh relocks f [] ops y = Some (ops, y)"
| "play sh relocks f (Step i # ms) ops y =
     (case exec sh relocks f i y of
        Some y' \<Rightarrow> if i < length (y_threads y) then play sh relocks f ms (ops @ entered i y) y' else None
      | None \<Rightarrow> None)"
| "play sh relocks f (Expire i # ms) ops y =
     (case t_code (thr y i) of
        Timed_wait_session k1 k2 \<Rightarrow>
          if i < length (y_threads y) \<and> t_state (thr y i) = Waiting
          then play sh relocks f ms ops (put_thread i ((thr y i)\<lparr>t_state := Expired\<rparr>) y) else None
      | _ \<Rightarrow> None)"

lemma play_run:
  "play sh relocks f ms ops y = Some (ops', y') \<Longrightarrow> thread_run sh relocks f y0 ops y \<Longrightarrow>
    thread_run sh relocks f y0 ops' y'"
proof (induction ms arbitrary: ops y)
  case (Cons m ms)
  then show ?case
    by (cases m) (auto split: option.splits if_splits code.splits intro: thr_exec thr_expire)
qed simp

lemmas schedule_simps = exec_def put_thread_def entered_def returned_def wake_def new_threads_def new_thread_def
  set_result_code_def attach_callback_code_def wait_code_def timed_wait_code_def get_impl_code_def join_code_def
  recv_code_def new_future_impl_def is_ready_def put_future_def log_effects_def attach_callback_def

text \<open>One future that waits; two calls of \<open>get\<close>, the completion and a callback.\<close>

definition waiting_heap :: "'x heap" where
  "waiting_heap = \<lparr>h_futures = [new_future_impl 1 0 0 30], h_loops = [new_loop], h_log = []\<rparr>"

section \<open>Properties\<close>

text \<open>
  C10: The operations of a future are atomic for threads: however any number of threads interleave their
  accesses inside \<open>set_result\<close>, \<open>attach_callback\<close>, \<open>wait\<close>, \<open>timed_wait\<close> and \<open>get\<close>, whenever the mutex is free
  the future, the callbacks that ran and those that were submitted are what the operations of
  \<open>RPC_Future\<close> give when they are performed one after the other in the order in which their threads took
  the mutex. No callback may call a function of its future that takes the mutex.
\<close>

theorem threads_refine_atomic:
  assumes "thread_run sh relocks f (new_threads h cs) ops y" "f < length (h_futures h)" "list_all program cs"
    and "\<And>cb. \<not> relocks cb" "y_lock y = None"
  shows "y_heap y = fold (perform f) ops h"
  using threads_invD(4)[OF thread_run_inv[OF assms(1-4)]] assms(5) by (simp add: section_of_def)

lemma threads_refine_atomic_witness:
  "\<exists>ops y. thread_run (\<lambda>_. []) (\<lambda>_. False) 0
      (new_threads (waiting_heap :: nat heap) [set_result_code (Opaque 7) NIL None Done, attach_callback_code 5 Done, wait_code Done]) ops y \<and>
    y_heap y = attach_callback 0 5 (set_result 0 (Opaque 7) NIL None waiting_heap)"
proof -
  let ?y0 = "new_threads (waiting_heap :: nat heap) [set_result_code (Opaque 7) NIL None Done, attach_callback_code 5 Done, wait_code Done]"
  let ?ms = "map Step [2, 2, 0, 0, 0, 0, 0, 0, 0, 0, 0, 2, 2, 2, 1, 1, 1]"
  obtain y where p: "play (\<lambda>_. []) (\<lambda>_. False) 0 ?ms [] ?y0 =
      Some ([Op_set_result (Opaque 7) NIL None, Op_attach_callback 5], y)" "y_lock y = None"
    by (simp add: schedule_simps waiting_heap_def)
  note run = play_run[OF p(1) thr_init]
  have prog: "list_all program [set_result_code (Opaque (7::nat)) NIL None Done, attach_callback_code 5 Done, wait_code Done]"
    by (simp add: program.intros)
  have len: "0 < length (h_futures (waiting_heap :: nat heap))" by (simp add: waiting_heap_def)
  from threads_refine_atomic[OF run len prog _ p(2)] run show ?thesis by auto
qed

text \<open>
  C11: No thread sleeps through the completion of a future: once the result is set, no thread waits on
  the condition variable while the mutex is free, and as long as a thread has not finished, some
  thread can make its next step.
\<close>

theorem no_lost_wakeup:
  assumes "thread_run sh relocks f (new_threads h cs) ops y" "f < length (h_futures h)" "list_all program cs"
    and "\<And>cb. \<not> relocks cb" "ready (y_heap y) f"
  shows "(\<forall>i < length (y_threads y). y_lock y = None \<longrightarrow> t_state (thr y i) \<noteq> Waiting) \<and>
    ((\<forall>i < length (y_threads y). t_state (thr y i) = Running \<and> t_code (thr y i) = Done) \<or>
     (\<exists>i < length (y_threads y). exec sh relocks f i y \<noteq> None))"
proof -
  note inv = thread_run_inv[OF assms(1-4)]
  have awake: "t_state (thr y i) \<noteq> Waiting" if "i < length (y_threads y)" "y_lock y = None" for i
    using threads_invD(5)[OF inv assms(5) that(1)] that(2) by (auto simp: section_of_def)
  have "\<exists>j < length (y_threads y). exec sh relocks f j y \<noteq> None"
    if i: "i < length (y_threads y)" "\<not> (t_state (thr y i) = Running \<and> t_code (thr y i) = Done)" for i
  proof (cases "y_lock y")
    case None
    with threads_invD(2)[OF inv i(1)] awake[OF i(1)] i(2) show ?thesis
      by (intro exI[of _ i] conjI i(1), cases "t_state (thr y i)"; cases "t_code (thr y i)")
         (auto simp: exec_def Let_def thread_ok_def)
  next
    case (Some j)
    from threads_invD(3)[OF inv Some] threads_invD(2)[OF inv, of j] Some show ?thesis
      by (intro exI[of _ j], cases "t_code (thr y j)") (auto simp: exec_def Let_def thread_ok_def)
  qed
  with awake show ?thesis by blast
qed

lemma no_lost_wakeup_witness:
  "\<exists>ops y. thread_run (\<lambda>_. []) (\<lambda>_. False) 0
      (new_threads (waiting_heap :: nat heap) [set_result_code (Opaque 7) NIL None Done, wait_code Done]) ops y \<and>
    ready (y_heap y) 0 \<and> t_state (thr y 1) \<noteq> Waiting"
proof -
  let ?y0 = "new_threads (waiting_heap :: nat heap) [set_result_code (Opaque 7) NIL None Done, wait_code Done]"
  let ?ms = "map Step [1, 1, 0, 0, 0, 0, 0, 0, 0, 0, 0]"
  obtain y where p: "play (\<lambda>_. []) (\<lambda>_. False) 0 ?ms [] ?y0 = Some ([Op_set_result (Opaque 7) NIL None], y)"
      "y_lock y = None" "ready (y_heap y) 0" "length (y_threads y) = 2"
    by (simp add: schedule_simps waiting_heap_def)
  note run = play_run[OF p(1) thr_init]
  have prog: "list_all program [set_result_code (Opaque (7::nat)) NIL None Done, wait_code Done]"
    by (simp add: program.intros)
  have len: "0 < length (h_futures (waiting_heap :: nat heap))" by (simp add: waiting_heap_def)
  from no_lost_wakeup[OF run len prog _ p(3)] p(2,4) have "t_state (thr y 1) \<noteq> Waiting" by simp
  with run p(3) show ?thesis by blast
qed

text \<open>
  C12: \<open>get\<close> reads without the mutex, and yet never sees half of a completion: as long as the result is
  set once, a call of \<open>get\<close> in any thread and at any time returns the result or throws the exception
  of exactly that completion.
\<close>

theorem get_sees_whole_completion:
  assumes "thread_run sh relocks f (new_threads h cs) ops y" "f < length (h_futures h)" "list_all program cs"
    and "\<And>cb. \<not> relocks cb" "\<not> ready h f" "sets ops = [Op_set_result r e z]"
    and "i < length (y_threads y)" "t_out (thr y i) = Some out"
  shows "out = outcome sh f (fut (set_result f r e z h) f)"
proof -
  have "settled sh f (fold (perform f) ops h) y"
    by (rule run_settled[OF assms(1-5)]) (simp add: assms(6))
  with assms(7,8) have out: "out = outcome sh f (fut (fold (perform f) ops h) f)" by (simp add: settled_def)
  obtain as bs where ops: "ops = as @ Op_set_result r e z # bs" "sets as = []" "sets bs = []"
    using assms(6) unfolding filter_eq_Cons_iff by (auto simp: filter_empty_conv eq_commute[of "[]"])
  have "f_result (fut (fold (perform f) ops h) f) = r \<and> f_error (fut (fold (perform f) ops h) f) = e"
    using fold_attach_outcome[OF ops(3), of f "set_result f r e z (fold (perform f) as h)"] assms(2)
    by (simp add: ops(1) fut_set_result)
  then show ?thesis unfolding out by (intro outcome_cong) (use assms(2) in \<open>simp_all add: fut_set_result\<close>)
qed

lemma get_sees_whole_completion_witness:
  "\<exists>ops y. thread_run (\<lambda>_. []) (\<lambda>_. False) 0
      (new_threads (waiting_heap :: nat heap) [set_result_code (Opaque 7) NIL None Done, get_impl_code True Done]) ops y \<and>
    y_lock y = Some 0 \<and> t_out (thr y 1) = Some (Inr (Opaque 7))"
proof -
  let ?y0 = "new_threads (waiting_heap :: nat heap) [set_result_code (Opaque 7) NIL None Done, get_impl_code True Done]"
  let ?ms = "map Step [0, 0, 0, 0, 0, 1, 1, 1]"
  obtain y out where p: "play (\<lambda>_. []) (\<lambda>_. False) 0 ?ms [] ?y0 = Some ([Op_set_result (Opaque 7) NIL None], y)"
      "y_lock y = Some 0" "t_out (thr y 1) = Some out" "length (y_threads y) = 2"
    by (simp add: schedule_simps waiting_heap_def)
  note run = play_run[OF p(1) thr_init]
  have prog: "list_all program [set_result_code (Opaque (7::nat)) NIL None Done, get_impl_code True Done]"
    by (simp add: program.intros)
  have h: "0 < length (h_futures (waiting_heap :: nat heap))" "\<not> ready (waiting_heap :: nat heap) 0"
    by (simp_all add: waiting_heap_def new_future_impl_def is_ready_def)
  from get_sees_whole_completion[OF run h(1) prog _ h(2) _ _ p(3)] p(4)
  have "out = outcome (\<lambda>_. []) 0 (fut (set_result 0 (Opaque 7) NIL None waiting_heap) 0)" by simp
  with run p(2,3) show ?thesis by (auto simp: outcome_def fut_set_result waiting_heap_def)
qed

text \<open>
  C37: With a second completion, \<open>get\<close> may return what nobody set: while the response with the result \<open>r\<close>
  arrives, a timed wait of another thread runs out and sets the time-out error over it; a third thread
  that called \<open>get\<close> finds no error of the response but the nil result of the time-out, and returns nil.
\<close>

theorem get_may_mix_completions:
  "\<exists>y. thread_run sh (\<lambda>cb. False) 0
      (new_threads waiting_heap [set_result_code r NIL z Done, timed_wait_code Done, get_impl_code True Done])
      [Op_set_result r NIL z, Op_set_result NIL TIMEOUT_ERROR None] y \<and>
    t_code (thr y 0) = Done \<and> t_code (thr y 1) = Done \<and> t_code (thr y 2) = Done \<and> t_out (thr y 2) = Some (Inr NIL)"
proof -
  let ?y0 = "new_threads waiting_heap [set_result_code r NIL z Done, timed_wait_code Done, get_impl_code True Done]"
  let ?ms = "[Step 1, Step 1, Expire 1] @ map Step ([0, 0, 0, 0, 0, 0, 0, 0, 0, 2, 2] @ replicate 12 1 @ [2])"
  obtain y where "play sh (\<lambda>cb. False) 0 ?ms [] ?y0 =
      Some ([Op_set_result r NIL z, Op_set_result NIL TIMEOUT_ERROR None], y)"
    "t_code (thr y 0) = Done" "t_code (thr y 1) = Done" "t_code (thr y 2) = Done" "t_out (thr y 2) = Some (Inr NIL)"
    by (simp add: schedule_simps waiting_heap_def numeral_eq_Suc)
  then show ?thesis using play_run[OF _ thr_init] by blast
qed

text \<open>
  C38: A callback that calls a function of its own future that takes the mutex (\<open>attach_callback\<close>,
  \<open>timed_wait\<close>) blocks for ever: \<open>set_result\<close> runs it while it holds the mutex. From then on, in every run,
  its thread holds the mutex and waits for it, no other operation enters, and the future does not change.
\<close>

theorem callback_relock_deadlock:
  assumes "thread_run sh relocks f (new_threads h cs) ops y" "f < length (h_futures h)" "list_all program cs"
    and i: "i < length (y_threads y)" and c: "t_code (thr y i) = Call_callback k"
    and cb: "f_callback (fut (y_heap y) f) = Some cb" "relocks cb"
  shows "\<exists>y1. exec sh relocks f i y = Some y1 \<and>
    (\<forall>ops' y'. thread_run sh relocks f y1 ops' y' \<longrightarrow> y_lock y' = Some i \<and> t_code (thr y' i) = Lock (Unlock k) \<and>
       exec sh relocks f i y' = None \<and> ops' = [] \<and> y_heap y' = y_heap y1)"
proof -
  have "\<not> self_locked f j k' y" for j k'
    using i c by (cases "j = i") (auto simp: self_locked_def thread_ok_def)
  then have inv: "threads_inv f h ops y" using thread_run_cases[OF assms(1-3)] by blast
  have "t_state (thr y i) = Running" using threads_invD(2)[OF inv i] c by (auto simp: thread_ok_def split: if_splits)
  then obtain y1 where y1: "exec sh relocks f i y = Some y1" using c by (simp add: exec_def Let_def)
  note stuck = self_locked_run[OF _ relock_step[OF inv i c cb y1]]
  show ?thesis
  proof (intro exI[of _ y1] conjI y1 allI impI)
    fix ops' y' assume "thread_run sh relocks f y1 ops' y'"
    from stuck[OF this] show "y_lock y' = Some i" "t_code (thr y' i) = Lock (Unlock k)" "exec sh relocks f i y' = None"
      "ops' = []" "y_heap y' = y_heap y1" by (auto simp: self_locked_def exec_def Let_def)
  qed
qed

lemma callback_relock_deadlock_witness:
  "\<exists>ops y y1. thread_run (\<lambda>_. []) (\<lambda>cb. cb = 5) 0
      (new_threads (waiting_heap :: nat heap) [set_result_code (Opaque 7) NIL None Done, attach_callback_code 5 Done]) ops y \<and>
    exec (\<lambda>_. []) (\<lambda>cb. cb = 5) 0 0 y = Some y1 \<and>
    (\<forall>ops' y'. thread_run (\<lambda>_. []) (\<lambda>cb. cb = 5) 0 y1 ops' y' \<longrightarrow> exec (\<lambda>_. []) (\<lambda>cb. cb = 5) 0 0 y' = None)"
proof -
  let ?y0 = "new_threads (waiting_heap :: nat heap) [set_result_code (Opaque 7) NIL None Done, attach_callback_code 5 Done]"
  obtain y where p: "play (\<lambda>_. []) (\<lambda>cb. cb = 5) 0 (map Step [1, 1, 1, 0, 0, 0, 0, 0, 0]) [] ?y0 =
      Some ([Op_attach_callback 5, Op_set_result (Opaque 7) NIL None], y)" "length (y_threads y) = 2"
      "t_code (thr y 0) = Call_callback (Clear_callback (Unlock Done))" "f_callback (fut (y_heap y) 0) = Some 5"
    by (simp add: schedule_simps waiting_heap_def)
  note run = play_run[OF p(1) thr_init]
  have prog: "list_all program [set_result_code (Opaque (7::nat)) NIL None Done, attach_callback_code 5 Done]"
    by (simp add: program.intros)
  have len: "0 < length (h_futures (waiting_heap :: nat heap))" by (simp add: waiting_heap_def)
  from callback_relock_deadlock[OF run len prog _ p(3,4)] p(2) run show ?thesis by fastforce
qed

end
