(* ===== verification/RPC_Reqtable.thy ===== *)
theory RPC_Reqtable
  imports RPC_Future
begin

text \<open>
  The table of outstanding requests (\<^verbatim>\<open>reqtable.h\<close>, \<^verbatim>\<open>reqtable.cc\<close>). Every operation holds the
  table's mutex from its first to its last statement, so each is one atomic function. The
  contract that a session relies on is the locale \<open>request_table\<close>; the table of the source is an
  interpretation of it.
\<close>

section \<open>Definitions\<close>

type_synonym reqtable = "(msgid \<times> fid) list"

definition new_reqtable :: reqtable where
  "new_reqtable = []"

definition reqtable_insert :: "msgid \<Rightarrow> fid \<Rightarrow> reqtable \<Rightarrow> reqtable" where
  "reqtable_insert msgid f m = AList.update msgid f m"

definition reqtable_erase :: "msgid \<Rightarrow> reqtable \<Rightarrow> reqtable" where
  "reqtable_erase msgid m = AList.delete msgid m"

definition reqtable_take :: "msgid \<Rightarrow> reqtable \<Rightarrow> fid option \<times> reqtable" where
  "reqtable_take msgid m =
     (case map_of m msgid of
        None \<Rightarrow> (None, m)
      | Some f \<Rightarrow> (Some f, AList.delete msgid m))"

text \<open>
  The loops of \<open>take_all\<close> and \<open>step_timeout\<close> walk over the table with an iterator; the argument
  \<open>all\<close> (\<open>timedout\<close>) is the caller's vector, to which they append.
\<close>

fun reqtable_take_all :: "fid list \<Rightarrow> reqtable \<Rightarrow> fid list \<times> reqtable" where
  "reqtable_take_all all [] = (all, [])"
| "reqtable_take_all all ((k, f) # m) = reqtable_take_all (all @ [f]) m"

fun reqtable_step_timeout ::
  "fid list \<Rightarrow> reqtable \<Rightarrow> 'x future_impl list \<Rightarrow> fid list \<times> reqtable \<times> 'x future_impl list"
where
  "reqtable_step_timeout timedout [] fs = (timedout, [], fs)"
| "reqtable_step_timeout timedout ((k, f) # m) fs =
     (let (expired, fi) = step_timeout (fs ! f); fs' = fs[f := fi]
      in if expired
         then reqtable_step_timeout (timedout @ [f]) m fs'
         else let (timedout', m', fs'') = reqtable_step_timeout timedout m fs'
              in (timedout', (k, f) # m', fs''))"

definition reqtable_size :: "reqtable \<Rightarrow> nat" where
  "reqtable_size m = length m"

definition reqtable_invar :: "reqtable \<Rightarrow> bool" where
  "reqtable_invar m = distinct (map fst m)"

section \<open>The contract\<close>

locale request_table =
  fixes tab_insert :: "msgid \<Rightarrow> fid \<Rightarrow> 't \<Rightarrow> 't"
    and tab_erase :: "msgid \<Rightarrow> 't \<Rightarrow> 't"
    and tab_take :: "msgid \<Rightarrow> 't \<Rightarrow> fid option \<times> 't"
    and tab_take_all :: "fid list \<Rightarrow> 't \<Rightarrow> fid list \<times> 't"
    and tab_size :: "'t \<Rightarrow> nat"
    and tab_lookup :: "'t \<Rightarrow> msgid \<Rightarrow> fid option"
    and tab_invar :: "'t \<Rightarrow> bool"
  assumes lookup_insert: "tab_invar t \<Longrightarrow> tab_lookup (tab_insert k f t) = (tab_lookup t)(k \<mapsto> f)"
    and lookup_erase: "tab_invar t \<Longrightarrow> tab_lookup (tab_erase k t) = (tab_lookup t)(k := None)"
    and take_fst: "tab_invar t \<Longrightarrow> fst (tab_take k t) = tab_lookup t k"
    and take_snd: "tab_invar t \<Longrightarrow> tab_lookup (snd (tab_take k t)) = (tab_lookup t)(k := None)"
    and take_all_fst: "tab_invar t \<Longrightarrow>
          set (fst (tab_take_all all t)) = set all \<union> ran (tab_lookup t)"
    and take_all_length: "tab_invar t \<Longrightarrow>
          length (fst (tab_take_all all t)) = length all + tab_size t"
    and take_all_snd: "tab_invar t \<Longrightarrow> tab_lookup (snd (tab_take_all all t)) = Map.empty"
    and size_card: "tab_invar t \<Longrightarrow> tab_size t = card (dom (tab_lookup t))"
    and invar_insert: "tab_invar t \<Longrightarrow> tab_invar (tab_insert k f t)"
    and invar_erase: "tab_invar t \<Longrightarrow> tab_invar (tab_erase k t)"
    and invar_take: "tab_invar t \<Longrightarrow> tab_invar (snd (tab_take k t))"
    and invar_take_all: "tab_invar t \<Longrightarrow> tab_invar (snd (tab_take_all all t))"
begin

lemma take_inserted: "tab_invar t \<Longrightarrow> fst (tab_take k (tab_insert k f t)) = Some f"
  by (simp add: take_fst invar_insert lookup_insert)

lemma take_other_inserted:
  "tab_invar t \<Longrightarrow> k \<noteq> k' \<Longrightarrow> fst (tab_take k' (tab_insert k f t)) = fst (tab_take k' t)"
  by (simp add: take_fst invar_insert lookup_insert)

lemma take_again: "tab_invar t \<Longrightarrow> fst (tab_take k (snd (tab_take k t))) = None"
  by (simp add: take_fst invar_take take_snd)

lemma take_other: "tab_invar t \<Longrightarrow> k \<noteq> k' \<Longrightarrow> fst (tab_take k' (snd (tab_take k t))) = fst (tab_take k' t)"
  by (simp add: take_fst invar_take take_snd)

lemma take_after_take_all: "tab_invar t \<Longrightarrow> fst (tab_take k (snd (tab_take_all all t))) = None"
  by (simp add: take_fst invar_take_all take_all_snd)

lemma take_erased: "tab_invar t \<Longrightarrow> fst (tab_take k (tab_erase k t)) = None"
  by (simp add: take_fst invar_erase lookup_erase)

lemma insert_take_restores:
  "tab_invar t \<Longrightarrow> tab_lookup t k = None \<Longrightarrow> tab_lookup (snd (tab_take k (tab_insert k f t))) = tab_lookup t"
  by (auto simp: take_snd invar_insert lookup_insert)

lemma size_insert_fresh:
  "tab_invar t \<Longrightarrow> finite (dom (tab_lookup t)) \<Longrightarrow> tab_lookup t k = None \<Longrightarrow>
    tab_size (tab_insert k f t) = Suc (tab_size t)"
  by (simp add: size_card invar_insert lookup_insert domIff)

lemma size_take_all: "tab_invar t \<Longrightarrow> tab_size (snd (tab_take_all all t)) = 0"
  by (simp add: size_card invar_take_all take_all_snd)

end

section \<open>The table of the source fulfils the contract\<close>

lemma reqtable_invar_Nil [simp]: "reqtable_invar []"
  by (simp add: reqtable_invar_def)

lemma reqtable_take_all_eq: "reqtable_take_all all m = (all @ map snd m, [])"
  by (induction all m rule: reqtable_take_all.induct) auto

lemma ran_map_of_distinct: "distinct (map fst m) \<Longrightarrow> ran (map_of m) = set (map snd m)"
  by (simp add: ran_distinct)

interpretation rt: request_table reqtable_insert reqtable_erase reqtable_take reqtable_take_all
  reqtable_size map_of reqtable_invar
proof (unfold_locales, goal_cases)
  case (1 t k f)
  then show ?case by (simp add: reqtable_insert_def update_conv')
next
  case (2 t k)
  then show ?case by (simp add: reqtable_erase_def delete_conv')
next
  case (3 t k)
  then show ?case by (simp add: reqtable_take_def split: option.split)
next
  case (4 t k)
  then show ?case by (auto simp: reqtable_take_def delete_conv' fun_eq_iff split: option.split)
next
  case (5 t all)
  then show ?case by (simp add: reqtable_take_all_eq reqtable_invar_def ran_map_of_distinct)
next
  case (6 t all)
  then show ?case by (simp add: reqtable_take_all_eq reqtable_size_def)
next
  case (7 t all)
  then show ?case by (simp add: reqtable_take_all_eq)
next
  case (8 t)
  then show ?case
    by (simp add: reqtable_size_def reqtable_invar_def dom_map_of_conv_image_fst card_image
        distinct_map distinct_card)
next
  case (9 t k f)
  then show ?case by (simp add: reqtable_invar_def reqtable_insert_def)
next
  case (10 t k)
  then show ?case by (simp add: reqtable_invar_def reqtable_erase_def)
next
  case (11 t k)
  then show ?case by (auto simp: reqtable_invar_def reqtable_take_def split: option.split)
next
  case (12 t all)
  then show ?case by (simp add: reqtable_invar_def reqtable_take_all_eq)
qed

lemmas reqtable_laws =
  rt.lookup_insert rt.lookup_erase rt.take_fst rt.take_snd rt.invar_insert rt.invar_erase
  rt.invar_take rt.invar_take_all

section \<open>One step of the timeout clock\<close>

text \<open>
  One call of \<open>step_timeout\<close> splits the table by the remaining time of its futures: those at zero
  are reported and leave the table, the others lose one second and stay.
\<close>

definition tick :: "fid \<Rightarrow> 'x future_impl list \<Rightarrow> 'x future_impl list" where
  "tick f fs = fs[f := snd (step_timeout (fs ! f))]"

lemma tick_frame: "f \<noteq> g \<Longrightarrow> tick f fs ! g = fs ! g"
  by (simp add: tick_def)

lemma length_tick [simp]: "length (tick f fs) = length fs"
  by (simp add: tick_def)

lemma nth_tick: "tick f fs ! g = (if f = g \<and> f < length fs then snd (step_timeout (fs ! g)) else fs ! g)"
  by (auto simp: tick_def nth_list_update_if)

lemma length_fold_tick [simp]: "length (fold tick ids fs) = length fs"
  by (induction ids arbitrary: fs) auto

lemma nth_fold_tick:
  "distinct ids \<Longrightarrow> g < length fs \<Longrightarrow>
    fold tick ids fs ! g = (if g \<in> set ids then snd (step_timeout (fs ! g)) else fs ! g)"
proof (induction ids arbitrary: fs)
  case Nil
  then show ?case by simp
next
  case (Cons f ids)
  then show ?case by (auto simp: nth_tick)
qed

lemma reqtable_step_timeout_eq:
  assumes "distinct (map snd m)"
  shows "reqtable_step_timeout to m fs =
    (to @ map snd (filter (\<lambda>(k, f). f_timeout (fs ! f) = 0) m),
     filter (\<lambda>(k, f). f_timeout (fs ! f) \<noteq> 0) m,
     fold tick (map snd m) fs)"
  using assms
proof (induction m arbitrary: to fs)
  case Nil
  then show ?case by simp
next
  case (Cons p m)
  obtain k f where p: "p = (k, f)" by (cases p)
  have same: "tick f fs ! g = fs ! g" if "(k', g) \<in> set m" for k' g
    using that Cons.prems p by (intro tick_frame) force
  have eqs: "filter (\<lambda>(k, g). f_timeout (tick f fs ! g) = 0) m =
             filter (\<lambda>(k, g). f_timeout (fs ! g) = 0) m"
    "filter (\<lambda>(k, g). f_timeout (tick f fs ! g) \<noteq> 0) m =
             filter (\<lambda>(k, g). f_timeout (fs ! g) \<noteq> 0) m"
    using same by (auto intro!: filter_cong)
  have IH: "reqtable_step_timeout to' m (tick f fs) =
      (to' @ map snd (filter (\<lambda>(k, g). f_timeout (fs ! g) = 0) m),
       filter (\<lambda>(k, g). f_timeout (fs ! g) \<noteq> 0) m, fold tick (map snd m) (tick f fs))" for to'
    using Cons.IH[of to' "tick f fs"] Cons.prems eqs by simp
  show ?case
    using IH p fst_step_timeout[of "fs ! f"] by (auto simp: Let_def tick_def[of f fs] split: prod.splits)
qed

section \<open>Properties\<close>

text \<open>
  C30: The request table implements a finite map from message identifiers to futures: \<open>insert\<close>,
  \<open>erase\<close> and \<open>take\<close> are the map operations, \<open>take\<close> returns the entry it removes, \<open>take_all\<close> appends
  each future once to the caller's vector and leaves nothing, \<open>size\<close> counts the entries; every
  operation keeps the keys distinct.
\<close>

theorem reqtable_refines_map:
  assumes "reqtable_invar m"
  shows "map_of (reqtable_insert k f m) = (map_of m)(k \<mapsto> f) \<and>
    map_of (reqtable_erase k m) = (map_of m)(k := None) \<and>
    fst (reqtable_take k m) = map_of m k \<and>
    map_of (snd (reqtable_take k m)) = (map_of m)(k := None) \<and>
    set (fst (reqtable_take_all all m)) = set all \<union> ran (map_of m) \<and>
    length (fst (reqtable_take_all all m)) = length all + card (dom (map_of m)) \<and>
    map_of (snd (reqtable_take_all all m)) = Map.empty \<and>
    reqtable_size m = card (dom (map_of m)) \<and>
    reqtable_invar (reqtable_insert k f m) \<and> reqtable_invar (reqtable_erase k m) \<and>
    reqtable_invar (snd (reqtable_take k m)) \<and> reqtable_invar (snd (reqtable_take_all all m))"
  using assms rt.take_all_fst[OF assms] rt.take_all_length[OF assms] rt.size_card[OF assms] rt.take_all_snd[OF assms]
  by (simp add: reqtable_laws)

lemma reqtable_refines_map_witness:
  "reqtable_invar [(1, 10), (2, 20)] \<and> fst (reqtable_take 2 [(1, 10), (2, 20)]) = Some 20 \<and>
   map_of (snd (reqtable_take 2 [(1, 10), (2, 20)])) 2 = None"
proof -
  have i: "reqtable_invar [(1, 10), (2, 20)]" by (simp add: reqtable_invar_def)
  with reqtable_refines_map[OF i, of 2] show ?thesis by simp
qed

end
