(* ===== verification/RPC_Address.thy ===== *)
theory RPC_Address
  imports RPC_Protocol "HOL-Library.Word"
begin

text \<open>
  Network addresses (\<^verbatim>\<open>address.h\<close>, \<^verbatim>\<open>address.cc\<close>). The IP address type of Boost.Asio is a type
  parameter with a linear order (\<^verbatim>\<open>boost::asio::ip::address\<close> provides \<open>==\<close> and \<open><\<close>); its
  \<open>is_v4\<close>, \<open>to_string\<close> and the resolver are arguments of the definitions that call them.
\<close>

section \<open>Definitions\<close>

datatype 'ip address = Address (m_address: 'ip) (m_port: "16 word")

text \<open>\<^verbatim>\<open>operator==\<close> and \<^verbatim>\<open>operator<\<close>, as the source writes them.\<close>

definition address_eq :: "'ip::linorder address \<Rightarrow> 'ip address \<Rightarrow> bool" where
  "address_eq a1 a2 = (m_address a1 = m_address a2 \<and> m_port a1 = m_port a2)"

definition address_less :: "'ip::linorder address \<Rightarrow> 'ip address \<Rightarrow> bool" where
  "address_less a1 a2 =
     (if m_address a1 = m_address a2 then m_port a1 < m_port a2
      else m_address a1 < m_address a2)"

definition get_addr :: "'ip address \<Rightarrow> 'ip" where "get_addr a = m_address a"
definition get_port :: "'ip address \<Rightarrow> 16 word" where "get_port a = m_port a"

definition address_is_v4 :: "('ip \<Rightarrow> bool) \<Rightarrow> 'ip address \<Rightarrow> bool" where
  "address_is_v4 is_v4 a = is_v4 (m_address a)"

text \<open>
  A resolver maps a host and a service name to the endpoints it found, or throws. The loop of
  \<^verbatim>\<open>address::resolve\<close> returns the first IPv4 endpoint.
\<close>

type_synonym 'ip resolver = "string \<Rightarrow> string \<Rightarrow> exn + ('ip \<times> 16 word) list"

fun first_v4 :: "('ip \<Rightarrow> bool) \<Rightarrow> ('ip \<times> 16 word) list \<Rightarrow> 'ip address option" where
  "first_v4 is_v4 [] = None"
| "first_v4 is_v4 ((ip, port) # it) =
     (if is_v4 ip then Some (Address ip port) else first_v4 is_v4 it)"

definition resolve ::
  "('ip \<Rightarrow> bool) \<Rightarrow> 'ip resolver \<Rightarrow> string \<Rightarrow> string \<Rightarrow> exn + 'ip address" where
  "resolve is_v4 resolver host service =
     (case resolver host service of
        Inl e \<Rightarrow> Inl e
      | Inr it \<Rightarrow>
          (case first_v4 is_v4 it of
             Some a \<Rightarrow> Inr a
           | None \<Rightarrow> Inl (invalid_argument (''can't resolve address: '' @ host))))"

text \<open>Decimal digits of a number, as \<^verbatim>\<open>lexical_cast\<close> and \<^verbatim>\<open>operator<<\<close> print an unsigned short.\<close>

fun decimal :: "nat \<Rightarrow> string" where
  "decimal n = (if n < 10 then [char_of (48 + n)] else decimal (n div 10) @ [char_of (48 + n mod 10)])"

declare decimal.simps [simp del]

definition address_host_port ::
  "('ip \<Rightarrow> bool) \<Rightarrow> 'ip resolver \<Rightarrow> string \<Rightarrow> 16 word \<Rightarrow> exn + 'ip address" where
  "address_host_port is_v4 resolver host port_num = resolve is_v4 resolver host (decimal (unat port_num))"

definition address_host_service ::
  "('ip \<Rightarrow> bool) \<Rightarrow> 'ip resolver \<Rightarrow> string \<Rightarrow> string \<Rightarrow> exn + 'ip address" where
  "address_host_service is_v4 resolver host service = resolve is_v4 resolver host service"

text \<open>
  \<^verbatim>\<open>std::string::find(':')\<close>: the index of the first occurrence, \<open>None\<close> for \<^verbatim>\<open>npos\<close> (which the
  conversion to \<^verbatim>\<open>int\<close> turns into \<open>-1\<close>).
\<close>

fun find_char :: "char \<Rightarrow> string \<Rightarrow> nat option" where
  "find_char c [] = None"
| "find_char c (d # s) = (if c = d then Some 0 else map_option Suc (find_char c s))"

definition address_of_string ::
  "('ip \<Rightarrow> bool) \<Rightarrow> 'ip resolver \<Rightarrow> string \<Rightarrow> exn + 'ip address" where
  "address_of_string is_v4 resolver addr =
     (case find_char CHR '':'' addr of
        None \<Rightarrow> Inl (invalid_argument (''invalid address: '' @ addr))
      | Some colon_pos \<Rightarrow>
          resolve is_v4 resolver (take colon_pos addr) (drop (colon_pos + 1) addr))"

text \<open>\<^verbatim>\<open>operator<<\<close> on streams.\<close>

definition show_address :: "('ip \<Rightarrow> bool) \<Rightarrow> ('ip \<Rightarrow> string) \<Rightarrow> 'ip address \<Rightarrow> string" where
  "show_address is_v4 to_string a =
     (if address_is_v4 is_v4 a
      then to_string (get_addr a) @ '':'' @ decimal (unat (get_port a))
      else ''['' @ to_string (get_addr a) @ '']:'' @ decimal (unat (get_port a)))"

section \<open>Addresses are linearly ordered\<close>

text \<open>
  The keys of the session pool's \<^verbatim>\<open>std::map\<close>: \<open>address_less\<close> is the strict part of a linear
  order whose equality is \<open>address_eq\<close>.
\<close>

lemma address_eq_iff [simp]: "address_eq a b \<longleftrightarrow> a = b"
  by (cases a; cases b) (auto simp: address_eq_def)

instantiation address :: (linorder) linorder
begin
definition less_address :: "'a address \<Rightarrow> 'a address \<Rightarrow> bool" where
  "less_address a b = address_less a b"
definition less_eq_address :: "'a address \<Rightarrow> 'a address \<Rightarrow> bool" where
  "less_eq_address a b = (address_less a b \<or> address_eq a b)"
instance
proof
  fix x y z :: "'a address"
  show "x < y \<longleftrightarrow> x \<le> y \<and> \<not> y \<le> x"
    by (cases x; cases y)
       (auto simp: less_address_def less_eq_address_def address_less_def address_eq_def)
  show "x \<le> x"
    by (simp add: less_eq_address_def address_eq_def)
  show "x \<le> y \<Longrightarrow> y \<le> z \<Longrightarrow> x \<le> z"
    by (cases x; cases y; cases z)
       (auto simp: less_eq_address_def address_less_def address_eq_def split: if_splits)
  show "x \<le> y \<Longrightarrow> y \<le> x \<Longrightarrow> x = y"
    by (cases x; cases y)
       (auto simp: less_eq_address_def address_less_def address_eq_def split: if_splits)
  show "x \<le> y \<or> y \<le> x"
    by (cases x; cases y)
       (auto simp: less_eq_address_def address_less_def address_eq_def split: if_splits)
qed
end

section \<open>Resolution and parsing\<close>

lemma first_v4_find:
  "first_v4 is_v4 it =
    map_option (\<lambda>(ip, port). Address ip port) (List.find (\<lambda>p. is_v4 (fst p)) it)"
  by (induction is_v4 it rule: first_v4.induct) auto

lemma resolve_cases:
  "resolve is_v4 resolver host service =
     (case resolver host service of
        Inl e \<Rightarrow> Inl e
      | Inr it \<Rightarrow>
          (if \<exists>p \<in> set it. is_v4 (fst p)
           then Inr (case the (List.find (\<lambda>p. is_v4 (fst p)) it) of (ip, port) \<Rightarrow> Address ip port)
           else Inl (invalid_argument (''can't resolve address: '' @ host))))"
  by (auto simp: resolve_def first_v4_find find_None_iff split: sum.split option.split)
     (metis find_None_iff option.distinct(1))

lemma first_v4_None: "first_v4 is_v4 it = None \<longleftrightarrow> (\<forall>p \<in> set it. \<not> is_v4 (fst p))"
  by (induction is_v4 it rule: first_v4.induct) auto

lemma find_char_append:
  "c \<notin> set s \<Longrightarrow> find_char c (s @ c # t) = Some (length s)"
  by (induction s) auto

lemma find_char_None: "find_char c s = None \<longleftrightarrow> c \<notin> set s"
  by (induction s) auto

lemma address_of_string_split:
  "CHR '':'' \<notin> set h \<Longrightarrow> address_of_string v4 r (h @ '':'' @ t) = resolve v4 r h t"
  by (simp add: address_of_string_def find_char_append)

lemma resolve_first: "v4 ip \<Longrightarrow> r h t = Inr ((ip, p) # rest) \<Longrightarrow> resolve v4 r h t = Inr (Address ip p)"
  by (simp add: resolve_def)

section \<open>Properties\<close>

text \<open>
  C39: \<open>operator<\<close> on addresses is a strict linear order whose equivalence is \<open>operator==\<close>, as
  \<^verbatim>\<open>std::map\<close> requires of the key comparison of the session pool.
\<close>

theorem address_strict_order:
  "\<not> address_less a a \<and>
   (address_less a b \<longrightarrow> \<not> address_less b a) \<and>
   (address_less a b \<longrightarrow> address_less b c \<longrightarrow> address_less a c) \<and>
   (\<not> address_less a b \<and> \<not> address_less b a \<longleftrightarrow> address_eq a b)"
  by (auto simp flip: less_address_def)

lemma address_strict_order_witness:
  "address_less (Address (1 :: nat) 80) (Address 1 81) \<and> \<not> address_less (Address (1 :: nat) 81) (Address 1 80)"
  using address_strict_order[of "Address (1 :: nat) 80" "Address 1 81"] by (simp add: address_less_def)

text \<open>
  C40: The printed form of an IPv4 address is read back to the same address, for every port, if the
  resolver maps the dotted form and the decimal port to that endpoint and the dotted form has no
  colon.
\<close>

theorem address_roundtrip_v4:
  assumes "is_v4 ip" "CHR '':'' \<notin> set (to_string ip)"
    and "resolver (to_string ip) (decimal (unat port)) = Inr ((ip, port) # rest)"
  shows "address_of_string is_v4 resolver (show_address is_v4 to_string (Address ip port)) =
    Inr (Address ip port)"
  using address_of_string_split[OF assms(2), of is_v4 resolver "decimal (unat port)"] assms
  by (simp add: show_address_def address_is_v4_def get_addr_def get_port_def resolve_first)

lemma address_roundtrip_v4_witness:
  "address_of_string (\<lambda>_. True)
     (\<lambda>h t. if h = ''10.0.0.1'' \<and> t = ''80'' then Inr [(7 :: nat, 80)] else Inr [])
     (show_address (\<lambda>_. True) (\<lambda>_. ''10.0.0.1'') (Address (7 :: nat) 80)) = Inr (Address 7 80)"
proof -
  have dec: "decimal 80 = ''80''" by code_simp
  show ?thesis by (rule address_roundtrip_v4[where rest = "[]"]) (simp_all add: dec)
qed

text \<open>
  The printed form of an IPv6 address is split at its first colon, inside the brackets: it is
  resolved as a host that starts with a bracket, so it is never read back as that address unless
  the resolver knows such a host.
\<close>

lemma address_show_v6_split:
  assumes "\<not> is_v4 ip" "to_string ip = pre @ '':'' @ post" "CHR '':'' \<notin> set pre"
  shows "address_of_string is_v4 resolver (show_address is_v4 to_string (Address ip port)) =
    resolve is_v4 resolver (''['' @ pre) (post @ '']:'' @ decimal (unat port))"
  using address_of_string_split[of "''['' @ pre" is_v4 resolver "post @ '']:'' @ decimal (unat port)"] assms
  by (simp add: show_address_def address_is_v4_def get_addr_def get_port_def)

text \<open>
  \<open>address::resolve\<close> returns the first IPv4 endpoint among the results of the resolver; it throws
  \<open>invalid_argument\<close> exactly when there is none, and passes on what the resolver throws.
\<close>

lemma resolve_spec:
  "(resolver host service = Inr (vs @ (ip, port) # rest) \<longrightarrow> (\<forall>p \<in> set vs. \<not> is_v4 (fst p)) \<longrightarrow> is_v4 ip \<longrightarrow>
      resolve is_v4 resolver host service = Inr (Address ip port)) \<and>
   (resolver host service = Inr vs \<longrightarrow>
      (resolve is_v4 resolver host service = Inl (invalid_argument (''can't resolve address: '' @ host))
         \<longleftrightarrow> (\<forall>p \<in> set vs. \<not> is_v4 (fst p)))) \<and>
   (resolver host service = Inl e \<longrightarrow> resolve is_v4 resolver host service = Inl e)"
proof -
  have "first_v4 is_v4 (vs @ (ip, port) # rest) = Some (Address ip port)"
    if "\<forall>p \<in> set vs. \<not> is_v4 (fst p)" "is_v4 ip"
    using that by (induction vs) auto
  moreover have "(\<exists>a. first_v4 is_v4 vs = Some a) \<longleftrightarrow> \<not> (\<forall>p \<in> set vs. \<not> is_v4 (fst p))"
    using first_v4_None[of is_v4 vs] by auto
  ultimately show ?thesis by (auto simp: resolve_def split: option.split)
qed

end
