(* ===== verification/RPC_Session.thy ===== *)
theory RPC_Session
  imports RPC_Reqtable RPC_Address
begin

text \<open>
  Sessions (\<^verbatim>\<open>session.h\<close>, \<^verbatim>\<open>session_impl.h\<close>, \<^verbatim>\<open>session.cc\<close>) and the interface to the transport
  below them (\<^verbatim>\<open>transport.h\<close>, \<^verbatim>\<open>message_sendable.h\<close>). The world extends the heap of futures by
  the sessions and by the state of the network, an opaque component that only the operations of
  Boost.Asio read and change. The transport of a session is a value of the type parameter \<open>'t\<close>;
  its virtual \<open>send_data\<close> is an argument of the operations that call it.
\<close>

section \<open>Definitions\<close>

text \<open>
  The buffers handed to a transport: an \<open>sbuffer\<close> is one block of bytes, a \<open>vrefbuffer\<close> a vector
  of blocks.
\<close>

datatype 'b outbuf = Sbuf "'b list" | Vbuf "'b list list"

fun outbuf_bytes :: "'b outbuf \<Rightarrow> 'b list" where
  "outbuf_bytes (Sbuf bs) = bs"
| "outbuf_bytes (Vbuf vec) = concat vec"

record ('ip, 't) session_impl =
  s_addr :: "'ip address"
  s_loop :: lid
  s_tran :: "'t option"
  s_msgid_rr :: msgid
  s_reqtable :: reqtable
  s_timeout :: uint
  s_timer :: bool    \<comment> \<open>a wait on \<open>m_step_timer\<close> is pending\<close>
  s_handles :: nat   \<comment> \<open>strong references from handles and pool entries\<close>

record ('x, 'ip, 't, 'n) world = "'x heap" +
  w_sessions :: "('ip, 't) session_impl list"
  w_net :: 'n

text \<open>A \<open>builder\<close>: its timeout and its virtual \<open>build\<close>, which may use the network.\<close>

record ('ip, 't, 'n) builder =
  b_timeout :: uint
  b_build :: "sid \<Rightarrow> 'ip address \<Rightarrow> 'n \<Rightarrow> 't \<times> 'n"

definition new_builder :: "(sid \<Rightarrow> 'ip address \<Rightarrow> 'n \<Rightarrow> 't \<times> 'n) \<Rightarrow> ('ip, 't, 'n) builder" where
  "new_builder build = \<lparr>b_timeout = 30, b_build = build\<rparr>"

definition builder_set_timeout :: "uint \<Rightarrow> ('ip, 't, 'n) builder \<Rightarrow> ('ip, 't, 'n) builder" where
  "builder_set_timeout sec b = b\<lparr>b_timeout := sec\<rparr>"

abbreviation ses :: "('x, 'ip, 't, 'n, 'z) world_scheme \<Rightarrow> sid \<Rightarrow> ('ip, 't) session_impl" where
  "ses w s \<equiv> w_sessions w ! s"

abbreviation table :: "('x, 'ip, 't, 'n, 'z) world_scheme \<Rightarrow> sid \<Rightarrow> reqtable" where
  "table w s \<equiv> s_reqtable (ses w s)"

definition put_session ::
  "sid \<Rightarrow> ('ip, 't) session_impl \<Rightarrow> ('x, 'ip, 't, 'n, 'z) world_scheme \<Rightarrow>
   ('x, 'ip, 't, 'n, 'z) world_scheme"
where
  "put_session s si w = w\<lparr>w_sessions := (w_sessions w)[s := si]\<rparr>"

definition put_table ::
  "sid \<Rightarrow> reqtable \<Rightarrow> ('x, 'ip, 't, 'n, 'z) world_scheme \<Rightarrow> ('x, 'ip, 't, 'n, 'z) world_scheme" where
  "put_table s m w = put_session s ((ses w s)\<lparr>s_reqtable := m\<rparr>) w"

subsection \<open>Construction\<close>

definition arm_step_timer ::
  "sid \<Rightarrow> ('x, 'ip, 't, 'n, 'z) world_scheme \<Rightarrow> ('x, 'ip, 't, 'n, 'z) world_scheme" where
  "arm_step_timer s w = put_session s ((ses w s)\<lparr>s_timer := True\<rparr>) w"

definition disarm_step_timer ::
  "sid \<Rightarrow> ('x, 'ip, 't, 'n, 'z) world_scheme \<Rightarrow> ('x, 'ip, 't, 'n, 'z) world_scheme" where
  "disarm_step_timer s w = put_session s ((ses w s)\<lparr>s_timer := False\<rparr>) w"

definition new_session_impl :: "'ip address \<Rightarrow> lid \<Rightarrow> ('ip, 't) session_impl" where
  "new_session_impl addr lo =
     \<lparr>s_addr = addr, s_loop = lo, s_tran = None, s_msgid_rr = 1, s_reqtable = new_reqtable,
      s_timeout = 30, s_timer = False, s_handles = 1\<rparr>"

definition session_build ::
  "('ip, 't, 'n) builder \<Rightarrow> sid \<Rightarrow> ('x, 'ip, 't, 'n, 'z) world_scheme \<Rightarrow>
   ('x, 'ip, 't, 'n, 'z) world_scheme"
where
  "session_build b s w =
     (let (t, n) = b_build b s (s_addr (ses w s)) (w_net w)
      in put_session s ((ses w s)\<lparr>s_tran := Some t, s_timeout := b_timeout b\<rparr>) (w\<lparr>w_net := n\<rparr>))"

definition session_create ::
  "('ip, 't, 'n) builder \<Rightarrow> 'ip address \<Rightarrow> lid \<Rightarrow> ('x, 'ip, 't, 'n, 'z) world_scheme \<Rightarrow>
   sid \<times> ('x, 'ip, 't, 'n, 'z) world_scheme"
where
  "session_create b addr lo w =
     (let s = length (w_sessions w);
          w1 = arm_step_timer s (w\<lparr>w_sessions := w_sessions w @ [new_session_impl addr lo]\<rparr>)
      in (s, session_build b s w1))"

definition session_get_timeout :: "sid \<Rightarrow> ('x, 'ip, 't, 'n, 'z) world_scheme \<Rightarrow> uint" where
  "session_get_timeout s w = s_timeout (ses w s)"

definition session_set_timeout ::
  "sid \<Rightarrow> uint \<Rightarrow> ('x, 'ip, 't, 'n, 'z) world_scheme \<Rightarrow> ('x, 'ip, 't, 'n, 'z) world_scheme" where
  "session_set_timeout s sec w = put_session s ((ses w s)\<lparr>s_timeout := sec\<rparr>) w"

subsection \<open>Sending\<close>

type_synonym ('b, 'w) send_data = "sid \<Rightarrow> 'b outbuf \<Rightarrow> 'w \<Rightarrow> exn option \<times> 'w"

definition next_msgid ::
  "sid \<Rightarrow> ('x, 'ip, 't, 'n, 'z) world_scheme \<Rightarrow> msgid \<times> ('x, 'ip, 't, 'n, 'z) world_scheme" where
  "next_msgid s w =
     (let (i, rr) = atomic_increment (s_msgid_rr (ses w s))
      in (i, put_session s ((ses w s)\<lparr>s_msgid_rr := rr\<rparr>) w))"

text \<open>The first half of \<open>send_request_impl\<close>: the new future enters the table.\<close>

definition register_future ::
  "sid \<Rightarrow> msgid \<Rightarrow> ('x, 'ip, 't, 'n, 'z) world_scheme \<Rightarrow> fid \<times> ('x, 'ip, 't, 'n, 'z) world_scheme"
where
  "register_future s msgid w =
     (let f = length (h_futures w);
          fi = new_future_impl msgid s (s_loop (ses w s)) (session_get_timeout s w);
          w1 = w\<lparr>h_futures := h_futures w @ [fi]\<rparr>
      in (f, put_table s (reqtable_insert msgid f (table w1 s)) w1))"

definition send_request_impl ::
  "('b, ('x, 'ip, 't, 'n, 'z) world_scheme) send_data \<Rightarrow> sid \<Rightarrow> msgid \<Rightarrow> string \<Rightarrow> 'b outbuf \<Rightarrow>
   ('x, 'ip, 't, 'n, 'z) world_scheme \<Rightarrow> (exn + future) \<times> ('x, 'ip, 't, 'n, 'z) world_scheme"
where
  "send_request_impl send s msgid method buf w =
     (let (f, w1) = register_future s msgid w;
          (e, w2) = send s buf w1
      in (case e of
            Some ex \<Rightarrow> Inl ex
          | None \<Rightarrow> Inr \<lparr>fu_method = method, fu_pimpl = Some f\<rparr>, w2))"

definition send_notify_impl ::
  "('b, ('x, 'ip, 't, 'n, 'z) world_scheme) send_data \<Rightarrow> sid \<Rightarrow> 'b outbuf \<Rightarrow>
   ('x, 'ip, 't, 'n, 'z) world_scheme \<Rightarrow> exn option \<times> ('x, 'ip, 't, 'n, 'z) world_scheme"
where
  "send_notify_impl send s buf w = send s buf w"

text \<open>
  msgpack's serialisation, into one block (\<open>sbuffer\<close>) or into a vector (\<open>vrefbuffer\<close>). The
  parameters of a call are a list of objects.
\<close>

record ('x, 'b) packer =
  pack_request :: "(string, 'x object list) msg_request \<Rightarrow> 'b list"
  vpack_request :: "(string, 'x object list) msg_request \<Rightarrow> 'b list list"
  pack_notify :: "(string, 'x object list) msg_notify \<Rightarrow> 'b list"
  vpack_notify :: "(string, 'x object list) msg_notify \<Rightarrow> 'b list list"
  pack_response :: "('x object, 'x object) msg_response \<Rightarrow> 'b list"
  vpack_response :: "('x object, 'x object) msg_response \<Rightarrow> 'b list list"

text \<open>\<open>session::send_request\<close> and \<open>session::send_notify\<close>; a null \<open>shared_zone\<close> is \<open>None\<close>.\<close>

definition send_request ::
  "('x, 'b) packer \<Rightarrow> ('b, ('x, 'ip, 't, 'n, 'z) world_scheme) send_data \<Rightarrow> sid \<Rightarrow> string \<Rightarrow>
   'x object list \<Rightarrow> zone option \<Rightarrow> ('x, 'ip, 't, 'n, 'z) world_scheme \<Rightarrow>
   (exn + future) \<times> ('x, 'ip, 't, 'n, 'z) world_scheme"
where
  "send_request pk send s m p msglife w =
     (let (msgid, w1) = next_msgid s w;
          msgreq = new_msg_request m p msgid
      in if msglife \<noteq> None
         then send_request_impl send s msgid m (Vbuf (vpack_request pk msgreq)) w1
         else send_request_impl send s msgid m (Sbuf (pack_request pk msgreq)) w1)"

definition send_notify ::
  "('x, 'b) packer \<Rightarrow> ('b, ('x, 'ip, 't, 'n, 'z) world_scheme) send_data \<Rightarrow> sid \<Rightarrow> string \<Rightarrow>
   'x object list \<Rightarrow> zone option \<Rightarrow> ('x, 'ip, 't, 'n, 'z) world_scheme \<Rightarrow>
   exn option \<times> ('x, 'ip, 't, 'n, 'z) world_scheme"
where
  "send_notify pk send s m p msglife w =
     (let msgreq = new_msg_notify m p
      in if msglife \<noteq> None
         then send_notify_impl send s (Vbuf (vpack_notify pk msgreq)) w
         else send_notify_impl send s (Sbuf (pack_notify pk msgreq)) w)"

subsection \<open>Completion\<close>

text \<open>The loops over a vector of futures that set one error on each.\<close>

definition complete_all ::
  "'x object \<Rightarrow> fid list \<Rightarrow> ('x, 'z) heap_scheme \<Rightarrow> ('x, 'z) heap_scheme" where
  "complete_all err fs w = fold (\<lambda>f. set_result f NIL err None) fs w"

definition step_timer_handler ::
  "bool \<Rightarrow> sid \<Rightarrow> ('x, 'ip, 't, 'n, 'z) world_scheme \<Rightarrow> ('x, 'ip, 't, 'n, 'z) world_scheme" where
  "step_timer_handler aborted s w =
     (if aborted then w
      else
        let (timedout, m, fs) = reqtable_step_timeout [] (table w s) (h_futures w);
            w1 = put_table s m (w\<lparr>h_futures := fs\<rparr>);
            w2 = (if timedout \<noteq> [] then complete_all TIMEOUT_ERROR timedout w1 else w1)
        in arm_step_timer s w2)"

definition on_connect_failed ::
  "sid \<Rightarrow> ('x, 'ip, 't, 'n, 'z) world_scheme \<Rightarrow> ('x, 'ip, 't, 'n, 'z) world_scheme" where
  "on_connect_failed s w =
     (let (all, m) = reqtable_take_all [] (table w s)
      in complete_all CONNECT_ERROR all (put_table s m w))"

definition on_system_error ::
  "sid \<Rightarrow> errno \<Rightarrow> ('x, 'ip, 't, 'n, 'z) world_scheme \<Rightarrow> ('x, 'ip, 't, 'n, 'z) world_scheme" where
  "on_system_error s err w =
     (let (all, m) = reqtable_take_all [] (table w s)
      in complete_all CONNECT_ERROR all (put_table s m w))"

definition on_response ::
  "sid \<Rightarrow> msgid \<Rightarrow> 'x object \<Rightarrow> 'x object \<Rightarrow> zone option \<Rightarrow>
   ('x, 'ip, 't, 'n, 'z) world_scheme \<Rightarrow> ('x, 'ip, 't, 'n, 'z) world_scheme"
where
  "on_response s msgid result error z w =
     (let (f, m) = reqtable_take msgid (table w s);
          w1 = put_table s m w
      in case f of None \<Rightarrow> w1 | Some g \<Rightarrow> set_result g result error z w1)"

definition on_notify ::
  "sid \<Rightarrow> 'x object \<Rightarrow> 'x object \<Rightarrow> zone option \<Rightarrow>
   ('x, 'ip, 't, 'n, 'z) world_scheme \<Rightarrow> ('x, 'ip, 't, 'n, 'z) world_scheme"
where
  "on_notify s method params z w = w"

subsection \<open>Lifetime\<close>

text \<open>
  The strong references to a session: handles and pool entries, and one from every future that
  waits for its result. (A waiting future is owned by the session's own table.)
\<close>

definition use_count :: "('x, 'ip, 't, 'n, 'z) world_scheme \<Rightarrow> sid \<Rightarrow> nat" where
  "use_count w s =
     s_handles (ses w s) + length (filter (\<lambda>fi. f_session fi = Some s) (h_futures w))"

text \<open>\<open>weak_session::lock\<close> yields a session as long as a strong reference exists.\<close>

definition session_alive :: "('x, 'ip, 't, 'n, 'z) world_scheme \<Rightarrow> sid \<Rightarrow> bool" where
  "session_alive w s \<longleftrightarrow> s < length (w_sessions w) \<and> 0 < use_count w s"

text \<open>A copy of a handle, and the destructor of one; the last reference disarms the timer.\<close>

definition session_copy ::
  "sid \<Rightarrow> ('x, 'ip, 't, 'n, 'z) world_scheme \<Rightarrow> ('x, 'ip, 't, 'n, 'z) world_scheme" where
  "session_copy s w = put_session s ((ses w s)\<lparr>s_handles := Suc (s_handles (ses w s))\<rparr>) w"

definition session_release ::
  "sid \<Rightarrow> ('x, 'ip, 't, 'n, 'z) world_scheme \<Rightarrow> ('x, 'ip, 't, 'n, 'z) world_scheme" where
  "session_release s w =
     (let w1 = put_session s ((ses w s)\<lparr>s_handles := s_handles (ses w s) - 1\<rparr>) w
      in if use_count w1 s = 0 then disarm_step_timer s w1 else w1)"

section \<open>Frame lemmas\<close>

lemma put_session_simps [simp]:
  "h_futures (put_session s si w) = h_futures w" "h_loops (put_session s si w) = h_loops w"
  "h_log (put_session s si w) = h_log w" "w_net (put_session s si w) = w_net w"
  "length (w_sessions (put_session s si w)) = length (w_sessions w)"
  by (simp_all add: put_session_def)

lemma ses_put_session:
  "ses (put_session s si w) s' = (if s = s' \<and> s < length (w_sessions w) then si else ses w s')"
  by (simp add: put_session_def nth_list_update_if)

lemma put_table_simps [simp]:
  "h_futures (put_table s m w) = h_futures w" "h_loops (put_table s m w) = h_loops w"
  "h_log (put_table s m w) = h_log w" "w_net (put_table s m w) = w_net w"
  "length (w_sessions (put_table s m w)) = length (w_sessions w)"
  "s_msgid_rr (ses (put_table s m w) s') = s_msgid_rr (ses w s')"
  "s_loop (ses (put_table s m w) s') = s_loop (ses w s')"
  "s_timeout (ses (put_table s m w) s') = s_timeout (ses w s')"
  "s_handles (ses (put_table s m w) s') = s_handles (ses w s')"
  by (simp_all add: put_table_def ses_put_session)

lemma table_put_table:
  "table (put_table s m w) s' = (if s = s' \<and> s < length (w_sessions w) then m else table w s')"
  by (simp add: put_table_def ses_put_session)

lemma timer_simps [simp]:
  "h_futures (arm_step_timer s w) = h_futures w" "h_loops (arm_step_timer s w) = h_loops w"
  "h_log (arm_step_timer s w) = h_log w" "w_net (arm_step_timer s w) = w_net w"
  "length (w_sessions (arm_step_timer s w)) = length (w_sessions w)"
  "table (arm_step_timer s w) s' = table w s'"
  "s_msgid_rr (ses (arm_step_timer s w) s') = s_msgid_rr (ses w s')"
  "s_handles (ses (arm_step_timer s w) s') = s_handles (ses w s')"
  "s_timer (ses (arm_step_timer s w) s') \<longleftrightarrow> (s = s' \<and> s < length (w_sessions w)) \<or> s_timer (ses w s')"
  by (auto simp: arm_step_timer_def ses_put_session)

lemma set_result_world [simp]:
  "w_sessions (set_result f r e z w) = w_sessions w" "w_net (set_result f r e z w) = w_net w"
  for w :: "('x, 'ip, 't, 'n, 'z) world_scheme"
  by (auto simp: set_result_def Let_def put_future_def log_effects_def split: option.split)

lemma complete_all_simps [simp]:
  "complete_all err [] h = h"
  "complete_all err (f # fs) h = complete_all err fs (set_result f NIL err None h)"
  by (simp_all add: complete_all_def)

lemma complete_all_frame [simp]:
  "length (h_futures (complete_all err fs h)) = length (h_futures h)"
  "h_loops (complete_all err fs h) = h_loops h"
  by (induction fs arbitrary: h) simp_all

lemma complete_all_world [simp]:
  "w_sessions (complete_all err fs w) = w_sessions w" "w_net (complete_all err fs w) = w_net w"
  for w :: "('x, 'ip, 't, 'n, 'z) world_scheme"
  by (induction fs arbitrary: w) simp_all

text \<open>A future that was completed with a local error.\<close>

definition failed_with :: "'x object \<Rightarrow> 'x future_impl \<Rightarrow> 'x future_impl" where
  "failed_with err fi =
     fi\<lparr>f_result := NIL, f_error := err, f_zone := None, f_session := None, f_callback := None\<rparr>"

lemma failed_with_simps [simp]:
  "f_msgid (failed_with e fi) = f_msgid fi" "f_session (failed_with e fi) = None"
  "f_error (failed_with e fi) = e" "f_result (failed_with e fi) = NIL"
  "failed_with e (failed_with e fi) = failed_with e fi" "is_ready (failed_with e fi)"
  by (simp_all add: failed_with_def is_ready_def)

lemma fut_complete_all:
  "g < length (h_futures h) \<Longrightarrow>
    fut (complete_all err fs h) g = (if g \<in> set fs then failed_with err (fut h g) else fut h g)"
  by (induction fs arbitrary: h) (auto simp: fut_set_result failed_with_def)

section \<open>Consistency of futures and tables\<close>

text \<open>
  \<open>table_wf\<close>: the entries of a table are futures that carry the key as their message identifier,
  and no future is in two tables. \<open>no_orphan\<close>: a future that waits for its result is in the
  table of its session, so that a response, an error or the timeout will complete it.
  \<open>tables_pending\<close>: the futures of a table still wait.
\<close>

definition table_wf :: "('x, 'ip, 't, 'n, 'z) world_scheme \<Rightarrow> bool" where
  "table_wf w \<longleftrightarrow>
     (\<forall>s < length (w_sessions w). reqtable_invar (table w s) \<and>
        (\<forall>(k, f) \<in> set (table w s). f < length (h_futures w) \<and> f_msgid (fut w f) = k)) \<and>
     (\<forall>s < length (w_sessions w). \<forall>s' < length (w_sessions w). s \<noteq> s' \<longrightarrow>
        snd ` set (table w s) \<inter> snd ` set (table w s') = {})"

definition no_orphan :: "('x, 'ip, 't, 'n, 'z) world_scheme \<Rightarrow> bool" where
  "no_orphan w \<longleftrightarrow>
     (\<forall>f < length (h_futures w). \<forall>s. f_session (fut w f) = Some s \<longrightarrow>
        s < length (w_sessions w) \<and> (f_msgid (fut w f), f) \<in> set (table w s))"

definition tables_pending :: "('x, 'ip, 't, 'n, 'z) world_scheme \<Rightarrow> bool" where
  "tables_pending w \<longleftrightarrow>
     (\<forall>s < length (w_sessions w). \<forall>(k, f) \<in> set (table w s). f_session (fut w f) = Some s)"

lemma table_wfD:
  assumes "table_wf w" "s < length (w_sessions w)"
  shows "reqtable_invar (table w s)" "distinct (map fst (table w s))"
    and "(k, f) \<in> set (table w s) \<Longrightarrow> f < length (h_futures w)"
    and "(k, f) \<in> set (table w s) \<Longrightarrow> f_msgid (fut w f) = k"
  using assms by (auto simp: table_wf_def reqtable_invar_def)

lemma table_wf_disjoint:
  assumes "table_wf w" "s < length (w_sessions w)" "s' < length (w_sessions w)"
    and "(k, f) \<in> set (table w s)" "(k', f) \<in> set (table w s')"
  shows "s = s'"
proof (rule ccontr)
  assume "s \<noteq> s'"
  with assms(1-3) have "snd ` set (table w s) \<inter> snd ` set (table w s') = {}"
    by (simp add: table_wf_def)
  moreover have "f \<in> snd ` set (table w s)" "f \<in> snd ` set (table w s')"
    using assms(4,5) by force+
  ultimately show False by blast
qed

text \<open>Two entries with the same future are the same entry.\<close>

lemma table_wf_distinct_snd:
  assumes "table_wf w" "s < length (w_sessions w)"
  shows "distinct (map snd (table w s))"
proof -
  have "inj_on snd (set (table w s))"
  proof (rule inj_onI)
    fix p q assume "p \<in> set (table w s)" "q \<in> set (table w s)" "snd p = snd q"
    moreover obtain k f k' f' where "p = (k, f)" "q = (k', f')" by (cases p; cases q) blast
    ultimately show "p = q"
      using table_wfD(4)[OF assms, of k f] table_wfD(4)[OF assms, of k' f'] by simp
  qed
  moreover have "distinct (table w s)"
    using table_wfD(2)[OF assms] by (simp add: distinct_map)
  ultimately show ?thesis by (simp add: distinct_map)
qed

section \<open>Operations that only retire requests\<close>

text \<open>
  The abstract effect of every operation except sending a request: it completes some futures of
  the tables and removes entries, but an entry leaves its table only if its future is completed;
  futures outside of the tables, the waiting state of the remaining entries and the message
  counters stay as they are.
\<close>

definition retires ::
  "('x, 'ip, 't, 'n, 'z) world_scheme \<Rightarrow> ('x, 'ip, 't, 'n, 'z) world_scheme \<Rightarrow> bool" where
  "retires w w' \<longleftrightarrow>
     length (h_futures w') = length (h_futures w) \<and>
     length (w_sessions w') = length (w_sessions w) \<and>
     (\<forall>f < length (h_futures w). f_msgid (fut w' f) = f_msgid (fut w f) \<and>
        (f_session (fut w' f) = f_session (fut w f) \<or> ready w' f) \<and>
        ((\<forall>s < length (w_sessions w). f \<notin> snd ` set (table w s)) \<longrightarrow> fut w' f = fut w f)) \<and>
     (\<forall>s < length (w_sessions w). s_msgid_rr (ses w' s) = s_msgid_rr (ses w s) \<and>
        (reqtable_invar (table w s) \<longrightarrow> reqtable_invar (table w' s)) \<and>
        set (table w' s) \<subseteq> set (table w s) \<and>
        (\<forall>(k, f) \<in> set (table w s). f < length (h_futures w) \<longrightarrow>
           (k, f) \<in> set (table w' s) \<or> ready w' f) \<and>
        (\<forall>(k, f) \<in> set (table w' s). f < length (h_futures w) \<longrightarrow>
           f_session (fut w' f) = f_session (fut w f)))"

lemma retires_refl [intro]: "retires w w"
  by (auto simp: retires_def)

lemma retiresD:
  assumes "retires w w'"
  shows "length (h_futures w') = length (h_futures w)"
    and "length (w_sessions w') = length (w_sessions w)"
    and "f < length (h_futures w) \<Longrightarrow> f_msgid (fut w' f) = f_msgid (fut w f)"
    and "f < length (h_futures w) \<Longrightarrow> f_session (fut w' f) = f_session (fut w f) \<or> ready w' f"
    and "f < length (h_futures w) \<Longrightarrow> (\<forall>s < length (w_sessions w). f \<notin> snd ` set (table w s)) \<Longrightarrow>
           fut w' f = fut w f"
    and "s < length (w_sessions w) \<Longrightarrow> s_msgid_rr (ses w' s) = s_msgid_rr (ses w s)"
    and "s < length (w_sessions w) \<Longrightarrow> reqtable_invar (table w s) \<Longrightarrow> reqtable_invar (table w' s)"
    and "s < length (w_sessions w) \<Longrightarrow> set (table w' s) \<subseteq> set (table w s)"
    and "s < length (w_sessions w) \<Longrightarrow> (k, f) \<in> set (table w s) \<Longrightarrow> f < length (h_futures w) \<Longrightarrow>
           (k, f) \<in> set (table w' s) \<or> ready w' f"
    and "s < length (w_sessions w) \<Longrightarrow> (k, f) \<in> set (table w' s) \<Longrightarrow> f < length (h_futures w) \<Longrightarrow>
           f_session (fut w' f) = f_session (fut w f)"
  using assms by (auto simp: retires_def)

lemma retires_ready:
  "retires w w' \<Longrightarrow> f < length (h_futures w) \<Longrightarrow> ready w f \<Longrightarrow> ready w' f"
  using retiresD(4) by (fastforce simp: is_ready_def)

lemma retires_trans [trans]:
  assumes 1: "retires w w'" and 2: "retires w' w''"
  shows "retires w w''"
  unfolding retires_def
proof (intro conjI allI impI ballI)
  show "length (h_futures w'') = length (h_futures w)"
    using retiresD(1)[OF 1] retiresD(1)[OF 2] by simp
  show "length (w_sessions w'') = length (w_sessions w)"
    using retiresD(2)[OF 1] retiresD(2)[OF 2] by simp
next
  fix f assume f: "f < length (h_futures w)"
  then have f': "f < length (h_futures w')" using retiresD(1)[OF 1] by simp
  show "f_msgid (fut w'' f) = f_msgid (fut w f)"
    using retiresD(3)[OF 1 f] retiresD(3)[OF 2 f'] by simp
  show "f_session (fut w'' f) = f_session (fut w f) \<or> ready w'' f"
    using retiresD(4)[OF 1 f] retiresD(4)[OF 2 f'] retires_ready[OF 2 f'] by auto
  assume out: "\<forall>s < length (w_sessions w). f \<notin> snd ` set (table w s)"
  have "\<forall>s < length (w_sessions w'). f \<notin> snd ` set (table w' s)"
  proof (intro allI impI)
    fix s assume "s < length (w_sessions w')"
    then have "s < length (w_sessions w)" using retiresD(2)[OF 1] by simp
    with out retiresD(8)[OF 1, of s] show "f \<notin> snd ` set (table w' s)" by auto
  qed
  with out show "fut w'' f = fut w f"
    using retiresD(5)[OF 1 f] retiresD(5)[OF 2 f'] by simp
next
  fix s assume s: "s < length (w_sessions w)"
  then have s': "s < length (w_sessions w')" using retiresD(2)[OF 1] by simp
  show "s_msgid_rr (ses w'' s) = s_msgid_rr (ses w s)"
    using retiresD(6)[OF 1 s] retiresD(6)[OF 2 s'] by simp
  show "reqtable_invar (table w s) \<Longrightarrow> reqtable_invar (table w'' s)"
    using retiresD(7)[OF 1 s] retiresD(7)[OF 2 s'] by simp
  show "set (table w'' s) \<subseteq> set (table w s)"
    using retiresD(8)[OF 1 s] retiresD(8)[OF 2 s'] by blast
  show "case p of (k, f) \<Rightarrow> f < length (h_futures w) \<longrightarrow>
      (k, f) \<in> set (table w'' s) \<or> ready w'' f" if "p \<in> set (table w s)" for p
  proof (clarify)
    fix k f assume p: "p = (k, f)" and f: "f < length (h_futures w)" and nr: "\<not> ready w'' f"
    have f': "f < length (h_futures w')" using f retiresD(1)[OF 1] by simp
    have "\<not> ready w' f" using nr retires_ready[OF 2 f'] by blast
    then have "(k, f) \<in> set (table w' s)" using retiresD(9)[OF 1 s, of k f] that p f by blast
    then show "(k, f) \<in> set (table w'' s)" using retiresD(9)[OF 2 s' _ f', of k] nr by blast
  qed
  show "case p of (k, f) \<Rightarrow> f < length (h_futures w) \<longrightarrow>
      f_session (fut w'' f) = f_session (fut w f)" if "p \<in> set (table w'' s)" for p
  proof (clarify)
    fix k f assume p: "p = (k, f)" and f: "f < length (h_futures w)"
    have f': "f < length (h_futures w')" using f retiresD(1)[OF 1] by simp
    have "(k, f) \<in> set (table w' s)" using that p retiresD(8)[OF 2 s'] by blast
    then show "f_session (fut w'' f) = f_session (fut w f)"
      using retiresD(10)[OF 1 s _ f, of k] retiresD(10)[OF 2 s' _ f', of k] that p by simp
  qed
qed

lemma retires_table_wf:
  assumes "retires w w'" "table_wf w"
  shows "table_wf w'"
  unfolding table_wf_def
proof (intro conjI allI impI)
  fix s assume "s < length (w_sessions w')"
  then have s: "s < length (w_sessions w)" using retiresD(2)[OF assms(1)] by simp
  show "reqtable_invar (table w' s)"
    using retiresD(7)[OF assms(1) s] table_wfD(1)[OF assms(2) s] by simp
  show "\<forall>(k, f) \<in> set (table w' s). f < length (h_futures w') \<and> f_msgid (fut w' f) = k"
  proof clarify
    fix k f assume "(k, f) \<in> set (table w' s)"
    then have kf: "(k, f) \<in> set (table w s)" using retiresD(8)[OF assms(1) s] by blast
    then have "f < length (h_futures w)" "f_msgid (fut w f) = k"
      using table_wfD(3,4)[OF assms(2) s] by blast+
    then show "f < length (h_futures w') \<and> f_msgid (fut w' f) = k"
      using retiresD(1,3)[OF assms(1)] by simp
  qed
next
  fix s s' assume "s < length (w_sessions w')" "s' < length (w_sessions w')" "s \<noteq> s'"
  then have s: "s < length (w_sessions w)" "s' < length (w_sessions w)" "s \<noteq> s'"
    using retiresD(2)[OF assms(1)] by simp_all
  then have "snd ` set (table w s) \<inter> snd ` set (table w s') = {}"
    using assms(2) by (simp add: table_wf_def)
  then show "snd ` set (table w' s) \<inter> snd ` set (table w' s') = {}"
    using retiresD(8)[OF assms(1) s(1)] retiresD(8)[OF assms(1) s(2)] by blast
qed

lemma retires_no_orphan:
  assumes "retires w w'" "no_orphan w"
  shows "no_orphan w'"
  unfolding no_orphan_def
proof (intro allI impI)
  fix f s assume "f < length (h_futures w')" and p: "f_session (fut w' f) = Some s"
  then have f: "f < length (h_futures w)" using retiresD(1)[OF assms(1)] by simp
  from p have nr: "\<not> ready w' f" by (simp add: is_ready_def)
  with retiresD(4)[OF assms(1) f] p have "f_session (fut w f) = Some s" by simp
  with assms(2) f have s: "s < length (w_sessions w)" "(f_msgid (fut w f), f) \<in> set (table w s)"
    by (auto simp: no_orphan_def)
  with retiresD(9)[OF assms(1) s(1) s(2) f] nr retiresD(3)[OF assms(1) f] retiresD(2)[OF assms(1)]
  show "s < length (w_sessions w') \<and> (f_msgid (fut w' f), f) \<in> set (table w' s)" by simp
qed

lemma retires_sessionI:
  assumes wf: "table_wf w" and s: "s < length (w_sessions w)"
    and len: "length (h_futures w') = length (h_futures w)"
      "length (w_sessions w') = length (w_sessions w)"
    and tab: "\<And>s'. table w' s' = (if s' = s then m else table w s')"
    and rr: "\<And>s'. s_msgid_rr (ses w' s') = s_msgid_rr (ses w s')"
    and m: "set m \<subseteq> set (table w s)" "distinct (map fst m)"
    and fut: "\<And>f. f < length (h_futures w) \<Longrightarrow> fut w' f = fut w f \<or>
        f \<in> snd ` set (table w s) \<and> f_msgid (fut w' f) = f_msgid (fut w f) \<and>
        (f_session (fut w' f) = f_session (fut w f) \<or> ready w' f)"
    and gone: "\<And>k f. (k, f) \<in> set (table w s) \<Longrightarrow> (k, f) \<notin> set m \<Longrightarrow> ready w' f"
    and keep: "\<And>k f. (k, f) \<in> set m \<Longrightarrow> f_session (fut w' f) = f_session (fut w f)"
  shows "retires w w'"
  unfolding retires_def
proof (intro conjI allI impI)
  fix f assume f: "f < length (h_futures w)"
  show "f_msgid (fut w' f) = f_msgid (fut w f)"
    "f_session (fut w' f) = f_session (fut w f) \<or> ready w' f"
    using fut[OF f] by auto
  assume "\<forall>s < length (w_sessions w). f \<notin> snd ` set (table w s)"
  with s fut[OF f] show "fut w' f = fut w f" by blast
next
  fix s' assume s': "s' < length (w_sessions w)"
  show "reqtable_invar (table w' s')" if "reqtable_invar (table w s')"
    using that m(2) tab[of s'] by (simp add: reqtable_invar_def)
  show "set (table w' s') \<subseteq> set (table w s')"
    using m(1) tab[of s'] by simp
  show "\<forall>(k, f) \<in> set (table w s'). f < length (h_futures w) \<longrightarrow>
      (k, f) \<in> set (table w' s') \<or> ready w' f"
    using tab[of s'] gone by auto
  show "\<forall>(k, f) \<in> set (table w' s'). f < length (h_futures w) \<longrightarrow>
      f_session (fut w' f) = f_session (fut w f)"
  proof clarify
    fix k f assume kf: "(k, f) \<in> set (table w' s')" and f: "f < length (h_futures w)"
    show "f_session (fut w' f) = f_session (fut w f)"
    proof (cases "s' = s")
      case True
      with kf tab[of s'] keep show ?thesis by simp
    next
      case False
      with kf tab[of s'] have "(k, f) \<in> set (table w s')" by simp
      then have "f \<notin> snd ` set (table w s)"
        using table_wf_disjoint[OF wf s s'] False by auto
      with fut[OF f] show ?thesis by auto
    qed
  qed
qed (use len rr in simp_all)

text \<open>The operations of a session that answer, fail or time out requests.\<close>

lemma on_response_unknown:
  "map_of (table w s) i = None \<Longrightarrow> on_response s i r e z w = put_table s (table w s) w"
  by (simp add: on_response_def reqtable_take_def)

lemma put_table_same [simp]: "put_table s (table w s) w = w"
  by (simp add: put_table_def put_session_def)

lemma on_response_known:
  "map_of (table w s) i = Some f \<Longrightarrow>
    on_response s i r e z w = set_result f r e z (put_table s (AList.delete i (table w s)) w)"
  by (simp add: on_response_def reqtable_take_def)

lemma map_of_table_iff:
  "table_wf w \<Longrightarrow> s < length (w_sessions w) \<Longrightarrow>
    map_of (table w s) i = Some f \<longleftrightarrow> (i, f) \<in> set (table w s)"
  by (simp add: table_wfD(2))

lemma on_response_retires:
  assumes "table_wf w" "s < length (w_sessions w)"
  shows "retires w (on_response s i r e z w)"
proof (cases "map_of (table w s) i")
  case None
  then show ?thesis by (simp add: on_response_unknown retires_refl)
next
  case (Some f)
  then have entry: "(i, f) \<in> set (table w s)" by (simp add: map_of_SomeD)
  have f: "f < length (h_futures w)" using table_wfD(3)[OF assms entry] .
  have only: "f' = f" if "(i, f') \<in> set (table w s)" for f'
    using that Some map_of_table_iff[OF assms, of i f'] by simp
  have in_tab: "f \<in> snd ` set (table w s)" using entry by force
  show ?thesis
    unfolding on_response_known[OF Some]
  proof (rule retires_sessionI[OF assms, where m = "AList.delete i (table w s)"])
    show "set (AList.delete i (table w s)) \<subseteq> set (table w s)"
      by (auto simp: in_set_delete_iff)
    show "distinct (map fst (AList.delete i (table w s)))"
      using table_wfD(2)[OF assms] by simp
  next
    fix k g assume "(k, g) \<in> set (table w s)" "(k, g) \<notin> set (AList.delete i (table w s))"
    then have "g = f" using only by (simp add: in_set_delete_iff)
    then show "ready (set_result f r e z (put_table s (AList.delete i (table w s)) w)) g"
      using f by (simp add: ready_set_result)
  next
    fix k g assume kg: "(k, g) \<in> set (AList.delete i (table w s))"
    then have "g \<noteq> f"
      using table_wfD(4)[OF assms, of k g] table_wfD(4)[OF assms entry] by (auto simp: in_set_delete_iff)
    then show "f_session (fut (set_result f r e z (put_table s (AList.delete i (table w s)) w)) g) =
        f_session (fut w g)" by simp
  qed (use assms f in_tab in \<open>auto simp: table_put_table fut_set_result is_ready_def\<close>)
qed

lemma fail_all_eq:
  "on_connect_failed s w = complete_all CONNECT_ERROR (map snd (table w s)) (put_table s [] w)"
  "on_system_error s err w = complete_all CONNECT_ERROR (map snd (table w s)) (put_table s [] w)"
  by (simp_all add: on_connect_failed_def on_system_error_def reqtable_take_all_eq)

lemma fail_all_retires:
  assumes "table_wf w" "s < length (w_sessions w)"
  shows "retires w (complete_all err (map snd (table w s)) (put_table s [] w))"
  by (rule retires_sessionI[OF assms, where m = "[]"])
     (use assms table_wfD(3)[OF assms] in \<open>force simp: table_put_table fut_complete_all\<close>)+

text \<open>The futures that a tick of the step timer reports, and those that it keeps.\<close>

definition expired :: "('x, 'ip, 't, 'n, 'z) world_scheme \<Rightarrow> sid \<Rightarrow> fid list" where
  "expired w s = map snd (filter (\<lambda>(k, f). f_timeout (fut w f) = 0) (table w s))"

definition unexpired :: "('x, 'ip, 't, 'n, 'z) world_scheme \<Rightarrow> sid \<Rightarrow> reqtable" where
  "unexpired w s = filter (\<lambda>(k, f). f_timeout (fut w f) \<noteq> 0) (table w s)"

lemma step_timer_handler_eq:
  assumes "table_wf w" "s < length (w_sessions w)"
  shows "step_timer_handler False s w =
    arm_step_timer s (complete_all TIMEOUT_ERROR (expired w s)
      (put_table s (unexpired w s) (w\<lparr>h_futures := fold tick (map snd (table w s)) (h_futures w)\<rparr>)))"
  using table_wf_distinct_snd[OF assms]
  by (auto simp: step_timer_handler_def reqtable_step_timeout_eq expired_def unexpired_def Let_def)

lemma fut_step_timer:
  assumes "table_wf w" "s < length (w_sessions w)" "g < length (h_futures w)"
  shows "fut (step_timer_handler False s w) g =
    (if g \<in> set (expired w s) then failed_with TIMEOUT_ERROR (fut w g)
     else if g \<in> snd ` set (table w s) then snd (step_timeout (fut w g)) else fut w g)"
proof -
  have ticked: "fold tick (map snd (table w s)) (h_futures w) ! g =
      (if g \<in> snd ` set (table w s) then snd (step_timeout (fut w g)) else fut w g)"
    using nth_fold_tick[OF table_wf_distinct_snd[OF assms(1,2)] assms(3)] by simp
  moreover have "snd (step_timeout (fut w g)) = fut w g" if "g \<in> set (expired w s)"
    using that by (auto simp: expired_def step_timeout_def)
  ultimately show ?thesis
    using assms by (auto simp: step_timer_handler_eq fut_complete_all)
qed

lemma step_timer_simps [simp]:
  assumes "table_wf w" "s < length (w_sessions w)"
  shows "length (h_futures (step_timer_handler False s w)) = length (h_futures w)"
    and "length (w_sessions (step_timer_handler False s w)) = length (w_sessions w)"
    and "table (step_timer_handler False s w) s' = (if s' = s then unexpired w s else table w s')"
    and "s_msgid_rr (ses (step_timer_handler False s w) s') = s_msgid_rr (ses w s')"
  using assms by (auto simp: step_timer_handler_eq table_put_table)

lemma step_timer_retires:
  assumes "table_wf w" "s < length (w_sessions w)"
  shows "retires w (step_timer_handler aborted s w)"
proof (cases aborted)
  case True
  then show ?thesis by (simp add: step_timer_handler_def retires_refl)
next
  case False
  have in_table: "f \<in> snd ` set (table w s)" if "f \<in> set (expired w s)" for f
    using that by (auto simp: expired_def intro: rev_image_eqI)
  have gone: "f \<in> set (expired w s)" if "(k, f) \<in> set (table w s)" "(k, f) \<notin> set (unexpired w s)" for k f
    using that by (auto simp: expired_def unexpired_def intro: rev_image_eqI)
  have "retires w (step_timer_handler False s w)"
  proof (rule retires_sessionI[OF assms, where m = "unexpired w s"])
    show "set (unexpired w s) \<subseteq> set (table w s)" by (auto simp: unexpired_def)
    show "distinct (map fst (unexpired w s))"
      using table_wfD(2)[OF assms] by (auto simp: unexpired_def distinct_map_filter)
    fix f assume "f < length (h_futures w)"
    then show "fut (step_timer_handler False s w) f = fut w f \<or> f \<in> snd ` set (table w s) \<and>
        f_msgid (fut (step_timer_handler False s w) f) = f_msgid (fut w f) \<and>
        (f_session (fut (step_timer_handler False s w) f) = f_session (fut w f) \<or>
         ready (step_timer_handler False s w) f)"
      using in_table by (simp add: fut_step_timer[OF assms])
  next
    fix k f assume "(k, f) \<in> set (table w s)" "(k, f) \<notin> set (unexpired w s)"
    with gone table_wfD(3)[OF assms] show "ready (step_timer_handler False s w) f"
      by (simp add: fut_step_timer[OF assms])
  next
    fix k f assume kf: "(k, f) \<in> set (unexpired w s)"
    then have "(k, f) \<in> set (table w s)" "f \<notin> set (expired w s)"
      by (auto simp: unexpired_def expired_def)
    with table_wfD(3)[OF assms] show
      "f_session (fut (step_timer_handler False s w) f) = f_session (fut w f)"
      by (simp add: fut_step_timer[OF assms])
  qed (use assms in simp_all)
  with False show ?thesis by simp
qed

lemma retires_tables_pending:
  assumes "retires w w'" "table_wf w" "tables_pending w"
  shows "tables_pending w'"
  unfolding tables_pending_def
proof clarify
  fix s k f assume "s < length (w_sessions w')" and kf: "(k, f) \<in> set (table w' s)"
  then have s: "s < length (w_sessions w)" using retiresD(2)[OF assms(1)] by simp
  have kf0: "(k, f) \<in> set (table w s)" using kf retiresD(8)[OF assms(1) s] by blast
  have "f_session (fut w' f) = f_session (fut w f)"
    using retiresD(10)[OF assms(1) s kf] table_wfD(3)[OF assms(2) s kf0] by blast
  with assms(3) s kf0 show "f_session (fut w' f) = Some s" by (auto simp: tables_pending_def)
qed

text \<open>In a world with \<open>tables_pending\<close>, a completed future keeps its result.\<close>

lemma retires_result_stable:
  assumes "retires w w'" "table_wf w" "tables_pending w"
    and "f < length (h_futures w)" "ready w f"
  shows "fut w' f = fut w f"
proof (rule retiresD(5)[OF assms(1,4)], intro allI impI notI)
  fix s assume s: "s < length (w_sessions w)" and "f \<in> snd ` set (table w s)"
  then obtain k where "(k, f) \<in> set (table w s)" by auto
  with assms(3) s have "f_session (fut w f) = Some s" by (auto simp: tables_pending_def)
  with assms(5) show False by (simp add: is_ready_def)
qed

section \<open>Registration of a request\<close>

lemma register_future_simps:
  "fst (register_future s i w) = length (h_futures w)"
  "h_futures (snd (register_future s i w)) =
     h_futures w @ [new_future_impl i s (s_loop (ses w s)) (s_timeout (ses w s))]"
  "length (w_sessions (snd (register_future s i w))) = length (w_sessions w)"
  "table (snd (register_future s i w)) s' =
     (if s = s' \<and> s < length (w_sessions w)
      then AList.update i (length (h_futures w)) (table w s) else table w s')"
  "s_msgid_rr (ses (snd (register_future s i w)) s') = s_msgid_rr (ses w s')"
  "h_log (snd (register_future s i w)) = h_log w"
  by (simp_all add: register_future_def Let_def reqtable_insert_def session_get_timeout_def
      table_put_table put_table_def ses_put_session)

lemma fut_register:
  "f < length (h_futures w) \<Longrightarrow> fut (snd (register_future s i w)) f = fut w f"
  "fut (snd (register_future s i w)) (length (h_futures w)) =
     new_future_impl i s (s_loop (ses w s)) (s_timeout (ses w s))"
  by (simp_all add: register_future_simps nth_append)

lemma new_future_simps [simp]:
  "f_msgid (new_future_impl i s l t) = i" "f_session (new_future_impl i s l t) = Some s"
  "f_timeout (new_future_impl i s l t) = t" "f_loop (new_future_impl i s l t) = l"
  "f_callback (new_future_impl i s l t) = None" "\<not> is_ready (new_future_impl i s l t)"
  by (simp_all add: new_future_impl_def is_ready_def)

lemma register_table_wf:
  assumes wf: "table_wf w" and s: "s < length (w_sessions w)"
  shows "table_wf (snd (register_future s i w))" (is "table_wf ?w")
  unfolding table_wf_def
proof (intro conjI allI impI)
  let ?n = "length (h_futures w)"
  have old: "f < ?n" if "(k, f) \<in> set (table w s')" "s' < length (w_sessions w)" for k f s'
    using table_wfD(3)[OF wf] that by blast
  { fix s' assume "s' < length (w_sessions ?w)"
    then have s': "s' < length (w_sessions w)" by (simp add: register_future_simps)
    show "reqtable_invar (table ?w s')"
      using table_wfD(1)[OF wf] table_wfD(2)[OF wf] s'
      by (simp add: register_future_simps reqtable_invar_def)
    show "\<forall>(k, f) \<in> set (table ?w s'). f < length (h_futures ?w) \<and> f_msgid (fut ?w f) = k"
    proof clarify
      fix k f assume kf: "(k, f) \<in> set (table ?w s')"
      then consider "k = i" "f = ?n" | "(k, f) \<in> set (table w s')"
        using in_set_update_iff[OF table_wfD(2)[OF wf s], of "(k, f)" i ?n]
        by (auto simp: register_future_simps split: if_splits)
      then show "f < length (h_futures ?w) \<and> f_msgid (fut ?w f) = k"
      proof cases
        case 1
        then show ?thesis by (simp add: fut_register(2)) (simp add: register_future_simps)
      next
        case 2
        with old[OF _ s'] table_wfD(4)[OF wf s'] show ?thesis
          by (simp add: fut_register(1)) (auto simp: register_future_simps less_Suc_eq)
      qed
    qed }
  have sub: "snd ` set (table ?w s') \<subseteq> insert ?n (snd ` set (table w s'))" for s'
    using in_set_update_iff[OF table_wfD(2)[OF wf s], of _ i ?n]
    by (auto simp: register_future_simps)
  have notn: "?n \<notin> snd ` set (table w s')" if "s' < length (w_sessions w)" for s'
    by (auto dest: old[OF _ that])
  fix s1 s2 assume *: "s1 < length (w_sessions ?w)" "s2 < length (w_sessions ?w)" "s1 \<noteq> s2"
  then have **: "s1 < length (w_sessions w)" "s2 < length (w_sessions w)"
    by (simp_all add: register_future_simps)
  have disj: "snd ` set (table w s1) \<inter> snd ` set (table w s2) = {}"
    using wf ** *(3) by (simp add: table_wf_def)
  have same: "table ?w s1 = table w s1 \<or> table ?w s2 = table w s2"
    using *(3) by (auto simp: register_future_simps)
  show "snd ` set (table ?w s1) \<inter> snd ` set (table ?w s2) = {}"
    using same by (intro disjoint_insert_cover[OF sub sub disj notn[OF **(1)] notn[OF **(2)]]) auto
qed

lemma register_no_orphan:
  assumes "no_orphan w" "table_wf w" "s < length (w_sessions w)" and fresh: "i \<notin> fst ` set (table w s)"
  shows "no_orphan (snd (register_future s i w))" (is "no_orphan ?w")
  unfolding no_orphan_def
proof (intro allI impI)
  fix f s' assume "f < length (h_futures ?w)" and p: "f_session (fut ?w f) = Some s'"
  then consider "f < length (h_futures w)" | "f = length (h_futures w)"
    by (auto simp: register_future_simps less_Suc_eq)
  then show "s' < length (w_sessions ?w) \<and> (f_msgid (fut ?w f), f) \<in> set (table ?w s')"
  proof cases
    case 1
    with p assms(1) have *: "s' < length (w_sessions w)" "(f_msgid (fut w f), f) \<in> set (table w s')"
      by (auto simp: no_orphan_def fut_register(1))
    then have "f_msgid (fut w f) \<noteq> i" if "s' = s"
      using fresh that by force
    with 1 * show ?thesis
      using in_set_update_iff[OF table_wfD(2)[OF assms(2,3)]]
      by (auto simp: fut_register(1)) (auto simp: register_future_simps)
  next
    case 2
    with p have "s' = s" by (simp add: fut_register(2))
    with 2 assms(3) show ?thesis
      using in_set_update_iff[OF table_wfD(2)[OF assms(2,3)], of "(i, f)" i f]
      by (simp add: fut_register(2)) (simp add: register_future_simps)
  qed
qed

lemma register_tables_pending:
  assumes "tables_pending w" "table_wf w" "s < length (w_sessions w)"
  shows "tables_pending (snd (register_future s i w))" (is "tables_pending ?w")
  unfolding tables_pending_def
proof clarify
  fix s' k f assume "s' < length (w_sessions ?w)" and kf: "(k, f) \<in> set (table ?w s')"
  then have s': "s' < length (w_sessions w)" by (simp add: register_future_simps)
  from kf consider "f = length (h_futures w)" "s' = s" | "(k, f) \<in> set (table w s')"
    using in_set_update_iff[OF table_wfD(2)[OF assms(2,3)], of "(k, f)" i "length (h_futures w)"]
    by (auto simp: register_future_simps split: if_splits)
  then show "f_session (fut ?w f) = Some s'"
  proof cases
    case 1
    then show ?thesis by (simp add: fut_register(2))
  next
    case 2
    then show ?thesis
      using assms(1) s' table_wfD(3)[OF assms(2) s' 2] by (auto simp: fut_register(1) tables_pending_def)
  qed
qed

section \<open>The transport contract\<close>

text \<open>
  What a session relies on: whatever \<open>send_data\<close> of the transport does (it may run handlers of the
  event loop, connect, fail and report the failure to sessions), it only retires requests.
\<close>

locale client_transport =
  fixes send :: "('b, ('x, 'ip, 't, 'n, 'z) world_scheme) send_data"
  assumes send_retires:
    "table_wf w \<Longrightarrow> s < length (w_sessions w) \<Longrightarrow> retires w (snd (send s buf w))"
begin

lemma send_request_impl_state:
  "snd (send_request_impl send s i m buf w) = snd (send s buf (snd (register_future s i w)))"
  by (simp add: send_request_impl_def Let_def split: prod.split)

lemma registered_retires:
  assumes "table_wf w" "s < length (w_sessions w)"
  shows "retires (snd (register_future s i w)) (snd (send_request_impl send s i m buf w))"
  unfolding send_request_impl_state
  using assms by (intro send_retires register_table_wf) (simp_all add: register_future_simps)

lemma send_request_impl_table_wf:
  assumes "table_wf w" "s < length (w_sessions w)"
  shows "table_wf (snd (send_request_impl send s i m buf w))"
  using retires_table_wf[OF registered_retires[OF assms] register_table_wf[OF assms]] .

lemma send_request_impl_no_orphan:
  assumes "no_orphan w" "table_wf w" "s < length (w_sessions w)" "i \<notin> fst ` set (table w s)"
  shows "no_orphan (snd (send_request_impl send s i m buf w))"
  using retires_no_orphan[OF registered_retires[OF assms(2,3)] register_no_orphan[OF assms]] .

lemma send_request_impl_tables_pending:
  assumes "tables_pending w" "table_wf w" "s < length (w_sessions w)"
  shows "tables_pending (snd (send_request_impl send s i m buf w))"
  using retires_tables_pending[OF registered_retires[OF assms(2,3)] register_table_wf[OF assms(2,3)]
      register_tables_pending[OF assms]] .

text \<open>The future of a request is registered, or the transport has already completed it.\<close>

lemma send_request_impl_future:
  assumes "table_wf w" "s < length (w_sessions w)"
    and f_def: "f = length (h_futures w)" and w'_def: "w' = snd (send_request_impl send s i m buf w)"
  shows "f < length (h_futures w')" "f_msgid (fut w' f) = i"
    and "(i, f) \<in> set (table w' s) \<or> ready w' f"
proof -
  let ?w = "snd (register_future s i w)"
  have r: "retires ?w w'" unfolding w'_def using registered_retires[OF assms(1,2)] .
  have f: "f < length (h_futures ?w)" by (simp add: f_def register_future_simps)
  have s: "s < length (w_sessions ?w)" using assms(2) by (simp add: register_future_simps)
  have entry: "(i, f) \<in> set (table ?w s)"
    using in_set_update_iff[OF table_wfD(2)[OF assms(1,2)], of "(i, f)" i f] assms(2)
    by (simp add: register_future_simps f_def)
  show "f < length (h_futures w')" using retiresD(1)[OF r] f by simp
  show "f_msgid (fut w' f) = i"
    using retiresD(3)[OF r f] by (simp add: f_def fut_register(2))
  show "(i, f) \<in> set (table w' s) \<or> ready w' f" using retiresD(9)[OF r s entry f] .
qed

end

section \<open>Ticks of the step timer\<close>

lemma step_timer_keeps:
  assumes "table_wf w" "s < length (w_sessions w)" "(k, f) \<in> set (table w s)" "f_timeout (fut w f) \<noteq> 0"
  shows "(k, f) \<in> set (table (step_timer_handler False s w) s)"
    and "fut (step_timer_handler False s w) f = snd (step_timeout (fut w f))"
  using assms table_wfD(3)[OF assms(1-3)]
  by (auto simp: unexpired_def expired_def fut_step_timer intro: rev_image_eqI)

lemma step_timer_outside:
  assumes "table_wf w" "s < length (w_sessions w)" "f < length (h_futures w)" "f \<notin> snd ` set (table w s)"
  shows "fut (step_timer_handler False s w) f = fut w f"
    and "f \<notin> snd ` set (table (step_timer_handler False s w) s)"
  using assms by (auto simp: unexpired_def expired_def fut_step_timer image_iff)

lemma step_timer_drops:
  assumes "table_wf w" "s < length (w_sessions w)" "(k, f) \<in> set (table w s)" "f_timeout (fut w f) = 0"
  shows "f \<notin> snd ` set (table (step_timer_handler False s w) s)"
    and "fut (step_timer_handler False s w) f = failed_with TIMEOUT_ERROR (fut w f)"
  using assms table_wfD(3)[OF assms(1-3)]
  by (auto simp: unexpired_def expired_def fut_step_timer intro: rev_image_eqI)

abbreviation timer_ticks :: "sid \<Rightarrow> nat \<Rightarrow> ('x, 'ip, 't, 'n, 'z) world_scheme \<Rightarrow> ('x, 'ip, 't, 'n, 'z) world_scheme" where
  "timer_ticks s n w \<equiv> (step_timer_handler False s ^^ n) w"

lemma timer_ticks_ok:
  "table_wf w \<Longrightarrow> s < length (w_sessions w) \<Longrightarrow>
    table_wf (timer_ticks s n w) \<and> s < length (w_sessions (timer_ticks s n w)) \<and>
    length (h_futures (timer_ticks s n w)) = length (h_futures w)"
proof (induction n)
  case 0
  then show ?case by simp
next
  case (Suc n)
  then show ?case using retires_table_wf[OF step_timer_retires] by auto
qed

lemma timer_ticks_outside:
  assumes "table_wf w" "s < length (w_sessions w)" "f < length (h_futures w)" "f \<notin> snd ` set (table w s)"
  shows "fut (timer_ticks s n w) f = fut w f \<and> f \<notin> snd ` set (table (timer_ticks s n w) s)"
proof (induction n)
  case 0
  with assms show ?case by simp
next
  case (Suc n)
  with step_timer_outside[of "timer_ticks s n w" s f] timer_ticks_ok[OF assms(1,2), of n] assms(3)
  show ?case by simp
qed

lemma timer_ticks_waiting:
  assumes "table_wf w" "s < length (w_sessions w)" "(k, f) \<in> set (table w s)" "n \<le> unat (f_timeout (fut w f))"
  shows "(k, f) \<in> set (table (timer_ticks s n w) s) \<and>
    unat (f_timeout (fut (timer_ticks s n w) f)) = unat (f_timeout (fut w f)) - n \<and>
    f_session (fut (timer_ticks s n w) f) = f_session (fut w f)"
  using assms(4)
proof (induction n)
  case 0
  with assms show ?case by simp
next
  case (Suc n)
  let ?v = "timer_ticks s n w"
  from Suc have IH: "(k, f) \<in> set (table ?v s)" "unat (f_timeout (fut ?v f)) = unat (f_timeout (fut w f)) - n"
    "f_session (fut ?v f) = f_session (fut w f)" by simp_all
  with Suc.prems have "f_timeout (fut ?v f) \<noteq> 0" by (auto simp: unat_eq_0[symmetric])
  with step_timer_keeps[OF _ _ IH(1)] timer_ticks_ok[OF assms(1,2), of n] IH(2,3) show ?case
    by (simp add: unat_step_timeout)
qed

lemma timer_ticks_expired:
  assumes "table_wf w" "s < length (w_sessions w)" "(k, f) \<in> set (table w s)" "unat (f_timeout (fut w f)) < n"
  shows "f \<notin> snd ` set (table (timer_ticks s n w) s) \<and> ready (timer_ticks s n w) f \<and>
    f_error (fut (timer_ticks s n w) f) = TIMEOUT_ERROR"
proof -
  let ?m = "unat (f_timeout (fut w f))"
  let ?v = "timer_ticks s ?m w"
  let ?u = "step_timer_handler False s ?v"
  note ok = timer_ticks_ok[OF assms(1,2)]
  have v: "(k, f) \<in> set (table ?v s)" "f_timeout (fut ?v f) = 0"
    using timer_ticks_waiting[OF assms(1-3), of ?m] by (auto simp: unat_eq_0[symmetric])
  have u: "f \<notin> snd ` set (table ?u s)" "fut ?u f = failed_with TIMEOUT_ERROR (fut ?v f)"
    using step_timer_drops[OF _ _ v] ok[of ?m] by auto
  have "timer_ticks s n w = timer_ticks s (n - Suc ?m) (timer_ticks s (Suc ?m) w)"
    using assms(4) fun_cong[OF funpow_add[of "n - Suc ?m" "Suc ?m" "step_timer_handler False s"], of w]
    by (simp del: funpow.simps)
  with timer_ticks_outside[of ?u s f "n - Suc ?m"] ok[of "Suc ?m"] u table_wfD(3)[OF assms(1-3)]
  show ?thesis by simp
qed

section \<open>Properties\<close>

definition sample_world :: "(nat, nat, unit, unit) world" where
  "sample_world =
     \<lparr>h_futures = [new_future_impl 1 0 0 2, new_future_impl 2 0 0 5], h_loops = [new_loop], h_log = [],
      w_sessions = [(new_session_impl (Address 1 80) 0)\<lparr>s_reqtable := [(1, 0), (2, 1)], s_msgid_rr := 3\<rparr>],
      w_net = ()\<rparr>"

lemma sample_world_simps:
  "h_futures sample_world = [new_future_impl 1 0 0 2, new_future_impl 2 0 0 5]"
  "length (w_sessions sample_world) = 1" "table sample_world 0 = [(1, 0), (2, 1)]"
  by (simp_all add: sample_world_def)

lemma sample_world_wf: "table_wf sample_world"
  by (simp add: table_wf_def sample_world_simps reqtable_invar_def)

text \<open>
  C15: A response completes exactly the future that waits under its message identifier: that future
  becomes ready with the response's result, error and zone and leaves the table; every other future
  and every other table stays as it is; a second response with the same identifier is ignored.
\<close>

theorem on_response_completes:
  assumes "table_wf w" "s < length (w_sessions w)" "(i, f) \<in> set (table w s)"
    and w': "w' = on_response s i r e z w"
  shows "ready w' f \<and> f_result (fut w' f) = r \<and> f_error (fut w' f) = e \<and> f_zone (fut w' f) = z \<and>
    (\<forall>g < length (h_futures w). g \<noteq> f \<longrightarrow> fut w' g = fut w g) \<and>
    set (table w' s) = set (table w s) - {(i, f)} \<and> (\<forall>s'. s' \<noteq> s \<longrightarrow> table w' s' = table w s') \<and>
    on_response s i r' e' z' w' = w'"
proof -
  have look: "map_of (table w s) i = Some f" using assms(1-3) by (simp add: map_of_table_iff)
  have f: "f < length (h_futures w)" using table_wfD(3)[OF assms(1-3)] .
  have eq: "w' = set_result f r e z (put_table s (AList.delete i (table w s)) w)"
    unfolding w' by (rule on_response_known[OF look])
  have tab: "table w' s' = (if s' = s then AList.delete i (table w s) else table w s')" for s'
    using assms(2) by (simp add: eq table_put_table)
  have "set (table w' s) = set (table w s) - {(i, f)}"
  proof -
    have "p \<in> set (table w' s) \<longleftrightarrow> p \<in> set (table w s) - {(i, f)}" for p
      using look map_of_table_iff[OF assms(1,2), of i "snd p"] by (cases p) (auto simp: tab in_set_delete_iff)
    then show ?thesis by blast
  qed
  moreover have "map_of (table w' s) i = None" by (simp add: tab delete_conv')
  moreover have "map_of (table w' s) i = None \<Longrightarrow> on_response s i r' e' z' w' = w'"
    by (simp add: on_response_unknown)
  ultimately show ?thesis
    using f tab by (simp add: eq fut_set_result is_ready_def)
qed

lemma on_response_completes_witness:
  "f_result (fut (on_response 0 2 (Opaque 7) NIL None sample_world) 1) = Opaque 7 \<and>
   fut (on_response 0 2 (Opaque 7) NIL None sample_world) 0 = fut sample_world 0"
  using on_response_completes[OF sample_world_wf _ _ refl, of 0 2 1 "Opaque 7" NIL None]
  by (simp add: sample_world_simps)

text \<open>
  C13: When the connection fails or the socket reports an error, every request of the session is
  completed with the local connection error and the table is empty; futures of other sessions and
  completed futures are not touched.
\<close>

theorem session_failure_completes_all:
  assumes "table_wf w" "s < length (w_sessions w)"
    and "w' = on_connect_failed s w \<or> w' = on_system_error s err w"
  shows "table w' s = [] \<and>
    (\<forall>(k, f) \<in> set (table w s). ready w' f \<and> f_error (fut w' f) = CONNECT_ERROR \<and> f_result (fut w' f) = NIL) \<and>
    (\<forall>g < length (h_futures w). g \<notin> snd ` set (table w s) \<longrightarrow> fut w' g = fut w g) \<and>
    (\<forall>s'. s' \<noteq> s \<longrightarrow> table w' s' = table w s')"
proof -
  have eq: "w' = complete_all CONNECT_ERROR (map snd (table w s)) (put_table s [] w)"
    using assms(3) by (auto simp: fail_all_eq)
  have "ready w' f \<and> f_error (fut w' f) = CONNECT_ERROR \<and> f_result (fut w' f) = NIL"
    if "(k, f) \<in> set (table w s)" for k f
    using that table_wfD(3)[OF assms(1,2) that] by (force simp: eq fut_complete_all)
  with assms(2) show ?thesis by (auto simp: eq fut_complete_all table_put_table)
qed

lemma session_failure_completes_all_witness:
  "table (on_system_error 0 104 sample_world) 0 = [] \<and>
   f_error (fut (on_system_error 0 104 sample_world) 1) = CONNECT_ERROR"
  using session_failure_completes_all[OF sample_world_wf, of 0 "on_system_error 0 104 sample_world" 104]
  by (simp add: sample_world_simps)

text \<open>
  C14: The step timer completes every request in time: after \<open>n\<close> ticks a request with fewer than \<open>n\<close>
  seconds left has been completed with the local timeout error and has left the table, and every
  other one still waits in the table with \<open>n\<close> seconds less. With the timeout \<open>t\<close> of a session a
  request is completed by the tick \<open>t + 1\<close> after it was sent.
\<close>

theorem step_timer_expires:
  assumes "table_wf w" "s < length (w_sessions w)" "(k, f) \<in> set (table w s)"
  shows "if unat (f_timeout (fut w f)) < n
    then f \<notin> snd ` set (table (timer_ticks s n w) s) \<and> ready (timer_ticks s n w) f \<and>
      f_error (fut (timer_ticks s n w) f) = TIMEOUT_ERROR
    else (k, f) \<in> set (table (timer_ticks s n w) s) \<and>
      unat (f_timeout (fut (timer_ticks s n w) f)) = unat (f_timeout (fut w f)) - n \<and>
      f_session (fut (timer_ticks s n w) f) = f_session (fut w f)"
  using timer_ticks_expired[OF assms] timer_ticks_waiting[OF assms] by simp

lemma step_timer_expires_witness:
  "f_error (fut (timer_ticks 0 3 sample_world) 0) = TIMEOUT_ERROR \<and>
   (2, 1) \<in> set (table (timer_ticks 0 3 sample_world) 0)"
  using step_timer_expires[OF sample_world_wf, of 0 1 0 3] step_timer_expires[OF sample_world_wf, of 0 2 1 3]
  by (simp add: sample_world_simps)

end
