(* ===== verification/RPC_Stream.thy ===== *)
theory RPC_Stream
  imports RPC_Session
begin

text \<open>
  Reading and writing of messages on a stream socket (\<^verbatim>\<open>transport/stream_handler.h\<close>,
  \<^verbatim>\<open>transport/stream_handler.cc\<close>), the base class of the TCP sockets of clients and servers. The
  streaming decoder and the conversion of decoded objects are msgpack's; they are the fields of
  \<open>decoder\<close>. The pure virtual functions of the class are the fields of \<open>stream_vt\<close>.
\<close>

section \<open>Definitions\<close>

text \<open>
  The streaming decoder of msgpack. \<open>pac_next_all u\<close> is what repeated calls of
  \<open>unpacker::next\<close> from state \<open>u\<close> return: the complete messages of the (finite) buffer, each with
  the zone that holds it and the state after it, then the state of the call that finds no further
  message, with the exception that call throws, if any (a parse error). \<open>convert\<close> is \<open>None\<close> where
  it throws \<open>type_error\<close>.
\<close>

record ('x, 'b, 'u) decoder =
  pac_new :: 'u
  pac_reserve :: "'u \<Rightarrow> 'u"
  pac_consumed :: "'b list \<Rightarrow> 'u \<Rightarrow> 'u"   \<comment> \<open>the bytes read, then \<open>buffer_consumed\<close>\<close>
  pac_next_all :: "'u \<Rightarrow> ('x object \<times> zone \<times> 'u) list \<times> exn option \<times> 'u"
  pac_message_size :: "'u \<Rightarrow> nat"
  pac_remove_nonparsed :: "'u \<Rightarrow> 'u"
  conv_rpc :: "'x object \<Rightarrow> msg_rpc option"
  conv_request :: "'x object \<Rightarrow> ('x object, 'x object) msg_request option"
  conv_response :: "'x object \<Rightarrow> ('x object, 'x object) msg_response option"
  conv_notify :: "'x object \<Rightarrow> ('x object, 'x object) msg_notify option"

record 'u stream_handler =
  sh_pac :: 'u
  sh_open :: bool       \<comment> \<open>\<open>m_socket.is_open()\<close>\<close>
  sh_reading :: bool    \<comment> \<open>an \<open>async_read_some\<close> is pending\<close>

definition new_stream_handler :: "('x, 'b, 'u) decoder \<Rightarrow> 'u stream_handler" where
  "new_stream_handler d = \<lparr>sh_pac = pac_new d, sh_open = False, sh_reading = False\<rparr>"

definition stream_start :: "('x, 'b, 'u) decoder \<Rightarrow> 'u stream_handler \<Rightarrow> 'u stream_handler" where
  "stream_start d h = h\<lparr>sh_pac := pac_reserve d (sh_pac h), sh_reading := True\<rparr>"

text \<open>
  \<open>stop\<close> logs the remote endpoint before it closes an open socket; \<open>connected\<close> says whether
  \<^verbatim>\<open>remote_endpoint()\<close> succeeds. If it throws, the exception is caught behind the \<open>close\<close>.
\<close>

definition stream_stop :: "bool \<Rightarrow> 'u stream_handler \<Rightarrow> 'u stream_handler" where
  "stream_stop connected h =
     (if \<not> sh_open h then h else if connected then h\<lparr>sh_open := False\<rparr> else h)"

text \<open>
  The virtual functions over the state \<open>'w\<close> of the program, and the access to the handler's own
  fields in it. A callee either returns or throws.
\<close>

record ('x, 'u, 'w) stream_vt =
  vt_get :: "'w \<Rightarrow> 'u stream_handler"
  vt_put :: "'u stream_handler \<Rightarrow> 'w \<Rightarrow> 'w"
  vt_on_request :: "msgid \<Rightarrow> 'x object \<Rightarrow> 'x object \<Rightarrow> zone option \<Rightarrow> 'w \<Rightarrow> exn option \<times> 'w"
  vt_on_response :: "msgid \<Rightarrow> 'x object \<Rightarrow> 'x object \<Rightarrow> zone option \<Rightarrow> 'w \<Rightarrow> exn option \<times> 'w"
  vt_on_notify :: "'x object \<Rightarrow> 'x object \<Rightarrow> zone option \<Rightarrow> 'w \<Rightarrow> exn option \<times> 'w"
  vt_on_system_error :: "errno \<Rightarrow> 'w \<Rightarrow> 'w"

definition stream_on_message ::
  "('x, 'b, 'u) decoder \<Rightarrow> ('x, 'u, 'w) stream_vt \<Rightarrow> 'x object \<Rightarrow> zone option \<Rightarrow> 'w \<Rightarrow>
   exn option \<times> 'w"
where
  "stream_on_message d vt msg z w =
     (case conv_rpc d msg of
        None \<Rightarrow> (Some type_error, w)
      | Some rpc \<Rightarrow>
          if rpc_type rpc = REQUEST then
            (case conv_request d msg of
               None \<Rightarrow> (Some type_error, w)
             | Some req \<Rightarrow> vt_on_request vt (req_msgid req) (req_method req) (req_param req) z w)
          else if rpc_type rpc = RESPONSE then
            (case conv_response d msg of
               None \<Rightarrow> (Some type_error, w)
             | Some res \<Rightarrow> vt_on_response vt (res_msgid res) (res_result res) (res_error res) z w)
          else if rpc_type rpc = NOTIFY then
            (case conv_notify d msg of
               None \<Rightarrow> (Some type_error, w)
             | Some ntf \<Rightarrow> vt_on_notify vt (ntf_method ntf) (ntf_param ntf) z w)
          else (Some type_error, w))"

definition set_pac :: "('x, 'u, 'w) stream_vt \<Rightarrow> 'u \<Rightarrow> 'w \<Rightarrow> 'w" where
  "set_pac vt u w = vt_put vt ((vt_get vt w)\<lparr>sh_pac := u\<rparr>) w"

text \<open>The loop \<^verbatim>\<open>while (m_pac->next(&result)) on_message(...)\<close>, up to the first exception.\<close>

fun read_loop ::
  "('x, 'b, 'u) decoder \<Rightarrow> ('x, 'u, 'w) stream_vt \<Rightarrow> ('x object \<times> zone \<times> 'u) list \<Rightarrow>
   exn option \<times> 'u \<Rightarrow> 'w \<Rightarrow> exn option \<times> 'w"
where
  "read_loop d vt [] (e, u) w = (e, set_pac vt u w)"
| "read_loop d vt ((msg, z, u) # ms) fin w =
     (case stream_on_message d vt msg (Some z) (set_pac vt u w) of
        (Some e, w') \<Rightarrow> (Some e, w')
      | (None, w') \<Rightarrow> read_loop d vt ms fin w')"

definition max_message_size :: nat where
  "max_message_size = 10 * 1024 * 1024"

definition stream_fail ::
  "('x, 'b, 'u) decoder \<Rightarrow> ('x, 'u, 'w) stream_vt \<Rightarrow> errno \<Rightarrow> 'w \<Rightarrow> 'w" where
  "stream_fail d vt err w =
     (let w1 = vt_on_system_error vt err w
      in set_pac vt (pac_remove_nonparsed d (sh_pac (vt_get vt w1))) w1)"

text \<open>
  \<open>on_read\<close> with error code \<open>err\<close> (0 for success) and the bytes received. Only exceptions derived
  from \<^verbatim>\<open>std::exception\<close> are caught; the others leave the handler.
\<close>

definition stream_on_read ::
  "('x, 'b, 'u) decoder \<Rightarrow> ('x, 'u, 'w) stream_vt \<Rightarrow> errno \<Rightarrow> 'b list \<Rightarrow> 'w \<Rightarrow> exn option \<times> 'w"
where
  "stream_on_read d vt err bytes w0 =
     (let w = vt_put vt ((vt_get vt w0)\<lparr>sh_reading := False\<rparr>) w0
      in if err = 0 then
           let u = pac_consumed d bytes (sh_pac (vt_get vt w));
               (ms, fin) = pac_next_all d u
           in case read_loop d vt ms fin (set_pac vt u w) of
                (Some e, w') \<Rightarrow>
                  if is_std_exception e then (None, stream_fail d vt err w') else (Some e, w')
              | (None, w') \<Rightarrow>
                  if pac_message_size d (sh_pac (vt_get vt w')) > max_message_size
                  then (None, stream_fail d vt err w')
                  else (None, vt_put vt (stream_start d (vt_get vt w')) w')
         else (None, stream_fail d vt err w))"

text \<open>
  \<open>send_data\<close>: both overloads write the bytes of the buffer. \<open>sock_write\<close> is
  \<^verbatim>\<open>boost::asio::write\<close> on the socket; an error code stands for the \<open>system_error\<close> it throws.
\<close>

definition stream_send_data ::
  "('b list \<Rightarrow> 'w \<Rightarrow> errno option \<times> 'w) \<Rightarrow> ('x, 'u, 'w) stream_vt \<Rightarrow> 'b outbuf \<Rightarrow> 'w \<Rightarrow> 'w" where
  "stream_send_data sock_write vt buf w =
     (if \<not> sh_open (vt_get vt w) then w
      else case sock_write (outbuf_bytes buf) w of
             (None, w') \<Rightarrow> w'
           | (Some ec, w') \<Rightarrow> vt_on_system_error vt ec w')"

section \<open>The contract of the virtual functions\<close>

text \<open>
  \<open>message_handler\<close> lifts a transitive relation between states, kept by the virtual functions and
  by changes of the handler's own fields, to whole read events: a socket class has to prove it
  for its four callbacks only.
\<close>

locale message_handler =
  fixes vt :: "('x, 'u, 'w) stream_vt"
    and ok :: "'w \<Rightarrow> bool"
    and rel :: "'w \<Rightarrow> 'w \<Rightarrow> bool"
  assumes rel_refl: "rel w w"
    and rel_trans: "rel w w' \<Longrightarrow> rel w' w'' \<Longrightarrow> rel w w''"
    and rel_ok: "ok w \<Longrightarrow> rel w w' \<Longrightarrow> ok w'"
    and put_rel: "ok w \<Longrightarrow> rel w (vt_put vt h w)"
    and request_rel: "ok w \<Longrightarrow> rel w (snd (vt_on_request vt i a b z w))"
    and response_rel: "ok w \<Longrightarrow> rel w (snd (vt_on_response vt i a b z w))"
    and notify_rel: "ok w \<Longrightarrow> rel w (snd (vt_on_notify vt a b z w))"
    and error_rel: "ok w \<Longrightarrow> rel w (vt_on_system_error vt err w)"
begin

lemma set_pac_rel: "ok w \<Longrightarrow> rel w (set_pac vt u w)"
  by (simp add: set_pac_def put_rel)

lemma on_message_rel: "ok w \<Longrightarrow> rel w (snd (stream_on_message d vt msg z w))"
  by (simp add: stream_on_message_def rel_refl request_rel response_rel notify_rel split: option.split)

lemma read_loop_rel: "ok w \<Longrightarrow> rel w (snd (read_loop d vt ms fin w))"
proof (induction ms arbitrary: w)
  case Nil
  then show ?case by (cases fin) (simp add: set_pac_rel)
next
  case (Cons m ms)
  obtain msg z u where m: "m = (msg, z, u)" by (cases m)
  obtain e w1 where st: "stream_on_message d vt msg (Some z) (set_pac vt u w) = (e, w1)"
    by (cases "stream_on_message d vt msg (Some z) (set_pac vt u w)")
  have "rel (set_pac vt u w) w1"
    using on_message_rel[OF rel_ok[OF Cons.prems set_pac_rel[OF Cons.prems]], of u d msg "Some z"] st
    by simp
  then have r1: "rel w w1" using set_pac_rel[OF Cons.prems] rel_trans by blast
  show ?case
    using Cons.IH[OF rel_ok[OF Cons.prems r1]] m st r1 rel_trans by (cases e) auto
qed

lemma stream_fail_rel: "ok w \<Longrightarrow> rel w (stream_fail d vt err w)"
  unfolding stream_fail_def Let_def using error_rel set_pac_rel rel_ok rel_trans by blast

lemma on_read_rel:
  assumes "ok w"
  shows "rel w (snd (stream_on_read d vt err bytes w))"
proof -
  define w1 where "w1 = vt_put vt ((vt_get vt w)\<lparr>sh_reading := False\<rparr>) w"
  define u where "u = pac_consumed d bytes (sh_pac (vt_get vt w1))"
  obtain ms fin where nx: "pac_next_all d u = (ms, fin)" by (cases "pac_next_all d u")
  obtain e w3 where l: "read_loop d vt ms fin (set_pac vt u w1) = (e, w3)"
    by (cases "read_loop d vt ms fin (set_pac vt u w1)")
  have r1: "rel w w1" using put_rel[OF assms] by (simp add: w1_def)
  have r2: "rel w (set_pac vt u w1)" using r1 set_pac_rel rel_ok[OF assms r1] rel_trans by blast
  have r3: "rel w w3"
    using read_loop_rel[OF rel_ok[OF assms r2], of d ms fin] l r2 rel_trans by auto
  have ok3: "ok w3" using rel_ok[OF assms r3] .
  have "snd (stream_on_read d vt err bytes w) \<in>
      {w3, stream_fail d vt err w3, vt_put vt (stream_start d (vt_get vt w3)) w3, stream_fail d vt err w1}"
    using nx l
    by (auto simp: stream_on_read_def Let_def simp flip: w1_def u_def split: option.split)
  moreover have "rel w (stream_fail d vt err w1)"
    using r1 stream_fail_rel[OF rel_ok[OF assms r1]] rel_trans by blast
  ultimately show ?thesis
    using rel_trans[OF r3 stream_fail_rel[OF ok3]] rel_trans[OF r3 put_rel[OF ok3]] r3 by auto
qed

lemma send_data_rel:
  assumes "ok w" and "\<And>bs. rel w (snd (sock_write bs w))"
  shows "rel w (stream_send_data sock_write vt buf w)"
proof -
  obtain ec w1 where s: "sock_write (outbuf_bytes buf) w = (ec, w1)" by (cases "sock_write (outbuf_bytes buf) w")
  have r: "rel w w1" using assms(2)[of "outbuf_bytes buf"] s by simp
  show ?thesis
    using s r rel_refl error_rel[OF rel_ok[OF assms(1) r]] rel_trans
    by (auto simp: stream_send_data_def split: option.split)
qed

end

end
