(* ===== verification/RPC_Framing.thy ===== *)
theory RPC_Framing
  imports RPC_Stream "HOL-Library.Sublist"
begin

text \<open>
  Messages on a byte stream. TCP delivers the bytes of a connection in order but in pieces of its own
  choice: a read event may hold part of a message or several of them. This theory states what
  \<^verbatim>\<open>stream_handler::on_read\<close> relies on in the streaming decoder of msgpack (\<open>frames\<close>), and shows for
  every class of sockets that a read event handles exactly the messages that have become complete,
  in order, and keeps the rest (\<open>framed_reader\<close>).
\<close>

section \<open>Definitions\<close>

text \<open>\<open>p\<close> is the part already received of the first message of \<open>ms\<close>, or nothing.\<close>

definition partial_frame :: "('m \<Rightarrow> 'b list) \<Rightarrow> 'b list \<Rightarrow> 'm list \<Rightarrow> bool" where
  "partial_frame enc p ms = (case ms of [] \<Rightarrow> p = [] | m # _ \<Rightarrow> strict_prefix p (enc m))"

text \<open>
  The streaming decoder of msgpack, for messages \<open>ok\<close> with the packed form \<open>enc\<close>: a decoder that
  holds the bytes \<open>p\<close> (\<open>pend u p\<close>) and receives \<open>bytes\<close> finds the complete messages of
  \<open>p @ bytes\<close>, each as an object with \<open>dec\<close>, and holds what remains; reserving memory does not
  change what it holds; what it holds is below the limit on messages.
\<close>

definition frames ::
  "('x, 'b, 'u) decoder \<Rightarrow> ('u \<Rightarrow> 'b list \<Rightarrow> bool) \<Rightarrow> ('m \<Rightarrow> 'b list) \<Rightarrow> ('m \<Rightarrow> 'x object \<Rightarrow> bool) \<Rightarrow>
   ('m \<Rightarrow> bool) \<Rightarrow> bool"
where
  "frames d pend enc dec ok \<longleftrightarrow>
     (\<forall>m. ok m \<longrightarrow> enc m \<noteq> []) \<and>
     (\<forall>u p. pend u p \<longrightarrow> pend (pac_reserve d u) p) \<and>
     (\<forall>u p bytes ms q ms'. pend u p \<longrightarrow> list_all ok ms \<longrightarrow> list_all ok ms' \<longrightarrow>
        p @ bytes = concat (map enc ms) @ q \<longrightarrow> partial_frame enc q ms' \<longrightarrow>
        (\<exists>obs u'. pac_next_all d (pac_consumed d bytes u) = (obs, None, u') \<and>
           list_all2 (\<lambda>m (ob, z, v). dec m ob) ms obs \<and> pend u' q \<and>
           pac_message_size d u' \<le> max_message_size))"

text \<open>The messages \<open>ms\<close> with their zones \<open>zs\<close>, handled one after the other.\<close>

definition handle_all :: "('m \<Rightarrow> zone \<Rightarrow> 'w \<Rightarrow> 'w) \<Rightarrow> 'm list \<Rightarrow> zone list \<Rightarrow> 'w \<Rightarrow> 'w" where
  "handle_all step ms zs w = fold (\<lambda>(m, z). step m z) (zip ms zs) w"

text \<open>Read events without errors, one after the other.\<close>

fun read_chunks ::
  "('x, 'b, 'u) decoder \<Rightarrow> ('x, 'u, 'w) stream_vt \<Rightarrow> 'b list list \<Rightarrow> 'w \<Rightarrow> exn option \<times> 'w" where
  "read_chunks d vt [] w = (None, w)"
| "read_chunks d vt (c # cs) w =
     (case stream_on_read d vt 0 c w of
        (Some e, w') \<Rightarrow> (Some e, w')
      | (None, w') \<Rightarrow> read_chunks d vt cs w')"

section \<open>Splitting a stream\<close>

lemma partial_frame_Nil [simp]: "partial_frame enc p [] \<longleftrightarrow> p = []"
  by (simp add: partial_frame_def)

lemma partial_frame_Cons [simp]: "partial_frame enc p (m # ms) \<longleftrightarrow> strict_prefix p (enc m)"
  by (simp add: partial_frame_def)

lemma partial_frame_whole:
  "partial_frame enc p ms \<Longrightarrow> p = concat (map enc ms) \<Longrightarrow> ms = []"
  by (cases ms) (auto simp: strict_prefix_def prefix_def)

lemma partial_frame_append:
  "partial_frame enc p ms \<Longrightarrow> ms \<noteq> [] \<or> enc m \<noteq> [] \<Longrightarrow> partial_frame enc p (ms @ [m])"
  by (cases ms) (auto simp: strict_prefix_def)

text \<open>What has been received of a sequence of messages is some of them and part of the next one.\<close>

lemma split_frames:
  assumes "\<And>m. m \<in> set ms \<Longrightarrow> enc m \<noteq> []" "p @ rest = concat (map enc ms)"
  shows "\<exists>ms1 ms2 q. ms = ms1 @ ms2 \<and> p = concat (map enc ms1) @ q \<and> partial_frame enc q ms2 \<and>
    q @ rest = concat (map enc ms2)"
  using assms
proof (induction ms arbitrary: p)
  case Nil
  then show ?case by auto
next
  case (Cons m ms)
  show ?case
  proof (cases "prefix (enc m) p")
    case True
    then obtain p' where p: "p = enc m @ p'" by (auto simp: prefix_def)
    with Cons.prems(2) have "p' @ rest = concat (map enc ms)" by simp
    from Cons.IH[OF _ this] Cons.prems(1) obtain ms1 ms2 q where
      "ms = ms1 @ ms2" "p' = concat (map enc ms1) @ q" "partial_frame enc q ms2" "q @ rest = concat (map enc ms2)"
      by auto
    then show ?thesis using p by (intro exI[of _ "m # ms1"] exI[of _ ms2] exI[of _ q]) simp
  next
    case False
    have "prefix p (enc m @ concat (map enc ms))" using Cons.prems(2) by (metis prefixI list.simps(9) concat.simps(2))
    with False have "strict_prefix p (enc m)" by (auto simp: prefix_append strict_prefix_def)
    then show ?thesis using Cons.prems(2) by (intro exI[of _ "[]"] exI[of _ "m # ms"] exI[of _ p]) simp
  qed
qed

lemma frames_reserve: "frames d pend enc dec ok \<Longrightarrow> pend u p \<Longrightarrow> pend (pac_reserve d u) p"
  by (simp add: frames_def)

text \<open>
  A read on a stream that still has to deliver \<open>ms\<close>: it completes the messages \<open>ms1\<close>.
\<close>

lemma frames_next:
  assumes "frames d pend enc dec ok" "pend u p" "list_all ok ms" "p @ bytes @ rest = concat (map enc ms)"
  obtains ms1 ms2 q obs u' where "ms = ms1 @ ms2" "partial_frame enc q ms2" "q @ rest = concat (map enc ms2)"
    "pac_next_all d (pac_consumed d bytes u) = (obs, None, u')" "list_all2 (\<lambda>m (ob, z, v). dec m ob) ms1 obs"
    "pend u' q" "pac_message_size d u' \<le> max_message_size"
proof -
  have ne: "enc m \<noteq> []" if "m \<in> set ms" for m using assms(1,3) that by (auto simp: frames_def list_all_iff)
  have "\<exists>ms1 ms2 q. ms = ms1 @ ms2 \<and> p @ bytes = concat (map enc ms1) @ q \<and> partial_frame enc q ms2 \<and>
      q @ rest = concat (map enc ms2)"
    by (rule split_frames) (use ne assms(4) in simp_all)
  then obtain ms1 ms2 q where s: "ms = ms1 @ ms2" "p @ bytes = concat (map enc ms1) @ q" "partial_frame enc q ms2"
    "q @ rest = concat (map enc ms2)" by blast
  from assms(3) s(1) have "list_all ok ms1" "list_all ok ms2" by simp_all
  with assms(1,2) s(2,3) obtain obs u' where "pac_next_all d (pac_consumed d bytes u) = (obs, None, u')"
    "list_all2 (\<lambda>m (ob, z, v). dec m ob) ms1 obs" "pend u' q" "pac_message_size d u' \<le> max_message_size"
    unfolding frames_def by blast
  with s that show ?thesis by blast
qed

section \<open>Reading frames\<close>

lemma handle_all_simps [simp]:
  "handle_all step [] zs w = w" "handle_all step ms [] w = w"
  "handle_all step (m # ms) (z # zs) w = handle_all step ms zs (step m z w)"
  by (simp_all add: handle_all_def)

lemma handle_all_append:
  "length ms = length zs \<Longrightarrow> handle_all step (ms @ ms') (zs @ zs') w = handle_all step ms' zs' (handle_all step ms zs w)"
  by (simp add: handle_all_def)

text \<open>
  A class of sockets whose virtual functions handle a message that decodes to \<open>m\<close> by \<open>step m\<close>,
  without an exception and without a change of the handler's own fields.
\<close>

locale framed_reader =
  fixes d :: "('x, 'b, 'u) decoder"
    and vt :: "('x, 'u, 'w) stream_vt"
    and dec :: "'m \<Rightarrow> 'x object \<Rightarrow> bool"
    and step :: "'m \<Rightarrow> zone \<Rightarrow> 'w \<Rightarrow> 'w"
    and ready_to :: "'w \<Rightarrow> bool"
  assumes get_put: "ready_to w \<Longrightarrow> vt_get vt (vt_put vt h w) = h"
    and put_put: "ready_to w \<Longrightarrow> vt_put vt h (vt_put vt h' w) = vt_put vt h w"
    and ready_put: "ready_to w \<Longrightarrow> sh_open h = sh_open (vt_get vt w) \<Longrightarrow> ready_to (vt_put vt h w)"
    and ready_step: "ready_to w \<Longrightarrow> ready_to (step m z w)"
    and get_step: "ready_to w \<Longrightarrow> vt_get vt (step m z w) = vt_get vt w"
    and put_step: "ready_to w \<Longrightarrow> sh_open h = sh_open (vt_get vt w) \<Longrightarrow>
      step m z (vt_put vt h w) = vt_put vt h (step m z w)"
    and message: "ready_to w \<Longrightarrow> dec m ob \<Longrightarrow> stream_on_message d vt ob (Some z) w = (None, step m z w)"
begin

lemma handle_all_ready:
  "ready_to w \<Longrightarrow> ready_to (handle_all step ms zs w) \<and> vt_get vt (handle_all step ms zs w) = vt_get vt w"
proof (induction ms arbitrary: zs w)
  case (Cons m ms)
  then show ?case by (cases zs) (simp_all add: ready_step get_step)
qed simp

lemma handle_all_put:
  "ready_to w \<Longrightarrow> sh_open h = sh_open (vt_get vt w) \<Longrightarrow>
    handle_all step ms zs (vt_put vt h w) = vt_put vt h (handle_all step ms zs w)"
proof (induction ms arbitrary: zs w)
  case (Cons m ms)
  then show ?case by (cases zs) (simp_all add: put_step ready_step get_step)
qed simp

lemma set_pac_put:
  "ready_to w \<Longrightarrow> sh_open h = sh_open (vt_get vt w) \<Longrightarrow> set_pac vt u (vt_put vt h w) = vt_put vt (h\<lparr>sh_pac := u\<rparr>) w"
  by (simp add: set_pac_def get_put put_put)

lemma read_loop_frames:
  assumes "ready_to w" "sh_open h = sh_open (vt_get vt w)" "list_all2 (\<lambda>m (ob, z, v). dec m ob) ms obs"
  shows "read_loop d vt obs (None, u) (vt_put vt h w) =
    (None, vt_put vt (h\<lparr>sh_pac := u\<rparr>) (handle_all step ms (map (fst \<circ> snd) obs) w))"
  using assms(3,1,2)
proof (induction arbitrary: w h rule: list_all2_induct)
  case Nil
  then show ?case by (simp add: set_pac_put)
next
  case (Cons m ms obz obs)
  obtain ob z v where o: "obz = (ob, z, v)" by (cases obz)
  let ?h = "h\<lparr>sh_pac := v\<rparr>"
  have "stream_on_message d vt ob (Some z) (vt_put vt ?h w) = (None, vt_put vt ?h (step m z w))"
    using Cons.hyps(1) Cons.prems o by (simp add: message ready_put put_step)
  moreover have "sh_open ?h = sh_open (vt_get vt (step m z w))" using Cons.prems by (simp add: get_step)
  ultimately show ?case
    using Cons.IH[OF ready_step[OF Cons.prems(1)], of ?h] Cons.prems o by (simp add: set_pac_put)
qed

lemma on_read_frames:
  assumes "ready_to w" "pac_next_all d (pac_consumed d bytes (sh_pac (vt_get vt w))) = (obs, None, u)"
    and "list_all2 (\<lambda>m (ob, z, v). dec m ob) ms obs" "pac_message_size d u \<le> max_message_size"
  shows "stream_on_read d vt 0 bytes w =
    (None, vt_put vt \<lparr>sh_pac = pac_reserve d u, sh_open = sh_open (vt_get vt w), sh_reading = True\<rparr>
       (handle_all step ms (map (fst \<circ> snd) obs) w))"
proof -
  let ?u0 = "pac_consumed d bytes (sh_pac (vt_get vt w))"
  let ?h = "\<lparr>sh_pac = ?u0, sh_open = sh_open (vt_get vt w), sh_reading = False\<rparr>"
  let ?w' = "handle_all step ms (map (fst \<circ> snd) obs) w"
  have "set_pac vt ?u0 (vt_put vt ((vt_get vt w)\<lparr>sh_reading := False\<rparr>) w) = vt_put vt ?h w"
    using assms(1) by (cases "vt_get vt w") (simp add: set_pac_put)
  moreover have "read_loop d vt obs (None, u) (vt_put vt ?h w) = (None, vt_put vt (?h\<lparr>sh_pac := u\<rparr>) ?w')"
    by (rule read_loop_frames) (use assms in simp_all)
  moreover have "vt_get vt (vt_put vt h ?w') = h" for h
    using handle_all_ready[OF assms(1)] by (simp add: get_put)
  ultimately show ?thesis
    using assms handle_all_ready[OF assms(1)]
    by (simp add: stream_on_read_def Let_def get_put put_put stream_start_def)
qed

text \<open>Reads on a stream that still has to deliver \<open>ms\<close>, cut into any pieces.\<close>

lemma read_chunks_frames:
  assumes "frames d pend enc dec ok" "ready_to w" "pend (sh_pac (vt_get vt w)) p" "list_all ok ms"
    and "p @ concat chunks @ rest = concat (map enc ms)" "chunks \<noteq> []"
  shows "\<exists>ms1 ms2 q u zs. ms = ms1 @ ms2 \<and> partial_frame enc q ms2 \<and> q @ rest = concat (map enc ms2) \<and>
    length zs = length ms1 \<and> pend u q \<and> read_chunks d vt chunks w =
      (None, vt_put vt \<lparr>sh_pac = u, sh_open = sh_open (vt_get vt w), sh_reading = True\<rparr> (handle_all step ms1 zs w))"
  using assms
proof (induction chunks arbitrary: w p ms)
  case (Cons c cs)
  have "p @ c @ (concat cs @ rest) = concat (map enc ms)" using Cons.prems(5) by simp
  from frames_next[OF Cons.prems(1,3,4) this] obtain ms1 ms2 q obs u' where
    s: "ms = ms1 @ ms2" "partial_frame enc q ms2" "q @ concat cs @ rest = concat (map enc ms2)"
    and n: "pac_next_all d (pac_consumed d c (sh_pac (vt_get vt w))) = (obs, None, u')"
      "list_all2 (\<lambda>m (ob, z, v). dec m ob) ms1 obs" "pend u' q" "pac_message_size d u' \<le> max_message_size"
    by metis
  let ?zs = "map (fst \<circ> snd) obs"
  let ?h = "\<lparr>sh_pac = pac_reserve d u', sh_open = sh_open (vt_get vt w), sh_reading = True\<rparr>"
  let ?w1 = "handle_all step ms1 ?zs w"
  have rd: "stream_on_read d vt 0 c w = (None, vt_put vt ?h ?w1)"
    by (rule on_read_frames[OF Cons.prems(2) n(1,2,4)])
  have len: "length ?zs = length ms1" using list_all2_lengthD[OF n(2)] by simp
  have rdy: "ready_to ?w1" "vt_get vt ?w1 = vt_get vt w" using handle_all_ready[OF Cons.prems(2)] by simp_all
  then have r1: "ready_to (vt_put vt ?h ?w1)" "vt_get vt (vt_put vt ?h ?w1) = ?h" by (simp_all add: ready_put get_put)
  have p1: "pend (pac_reserve d u') q" by (rule frames_reserve[OF Cons.prems(1) n(3)])
  show ?case
  proof (cases "cs = []")
    case True
    with s p1 len rd show ?thesis
      by (intro exI[of _ ms1] exI[of _ ms2] exI[of _ q] exI[of _ "pac_reserve d u'"] exI[of _ ?zs]) simp
  next
    case False
    have "\<exists>ms1' ms2' q' u zs'. ms2 = ms1' @ ms2' \<and> partial_frame enc q' ms2' \<and> q' @ rest = concat (map enc ms2') \<and>
        length zs' = length ms1' \<and> pend u q' \<and> read_chunks d vt cs (vt_put vt ?h ?w1) =
        (None, vt_put vt \<lparr>sh_pac = u, sh_open = sh_open (vt_get vt (vt_put vt ?h ?w1)), sh_reading = True\<rparr>
           (handle_all step ms1' zs' (vt_put vt ?h ?w1)))"
      by (rule Cons.IH[OF Cons.prems(1) r1(1)]) (use r1 p1 s Cons.prems(4) False in simp_all)
    then obtain ms1' ms2' q' u zs' where t: "ms2 = ms1' @ ms2'" "partial_frame enc q' ms2'"
      "q' @ rest = concat (map enc ms2')" "length zs' = length ms1'" "pend u q'"
      "read_chunks d vt cs (vt_put vt ?h ?w1) =
        (None, vt_put vt \<lparr>sh_pac = u, sh_open = sh_open (vt_get vt w), sh_reading = True\<rparr>
           (handle_all step ms1' zs' (vt_put vt ?h ?w1)))"
      using r1(2) by auto
    have "handle_all step ms1' zs' (vt_put vt ?h ?w1) = vt_put vt ?h (handle_all step (ms1 @ ms1') (?zs @ zs') w)"
      using rdy len by (simp add: handle_all_put handle_all_append)
    moreover have "ready_to (handle_all step (ms1 @ ms1') (?zs @ zs') w)" using handle_all_ready[OF Cons.prems(2)] by simp
    ultimately show ?thesis
      using t s len rd
      by (intro exI[of _ "ms1 @ ms1'"] exI[of _ ms2'] exI[of _ q'] exI[of _ u] exI[of _ "?zs @ zs'"])
         (simp add: put_put)
  qed
qed simp

end

end
