(* ===== verification/RPC_Process.thy ===== *)
theory RPC_Process
  imports RPC_Session
begin

text \<open>
  Whole runs of a client process over any transport: any interleaving of creating sessions, calls and
  notifications, events of the loop, attached callbacks, waits that time out, and everything the
  process or the network does besides. The step relation is an inductive predicate whose parameters
  are the transport's \<open>send_data\<close> and the handling of events; the locale \<open>client_process\<close> asks of both
  what the transports of the library keep, and the invariants of the futures and request tables
  hold in every state that is reached.
\<close>

section \<open>Definitions\<close>

definition initial_world :: "loop_impl list \<Rightarrow> 'n \<Rightarrow> ('x, 'ip, 't, 'n) world" where
  "initial_world ls n = \<lparr>h_futures = [], h_loops = ls, h_log = [], w_sessions = [], w_net = n\<rparr>"

text \<open>
  \<open>process_run send handle valid pk c t w\<close>: a run reaches the state \<open>w\<close> after \<open>c\<close> calls, with \<open>t\<close> waits
  that timed out in \<open>future::get\<close> or \<open>timed_wait\<close>.
\<close>

inductive process_run ::
  "('b, ('x, 'ip, 't, 'n) world) send_data \<Rightarrow> ('ev \<Rightarrow> ('x, 'ip, 't, 'n) world \<Rightarrow> exn option \<times> ('x, 'ip, 't, 'n) world) \<Rightarrow>
   (('x, 'ip, 't, 'n) world \<Rightarrow> 'ev \<Rightarrow> bool) \<Rightarrow> ('x, 'b) packer \<Rightarrow> nat \<Rightarrow> nat \<Rightarrow> ('x, 'ip, 't, 'n) world \<Rightarrow> bool"
  for send handle valid pk
where
  run_init: "process_run send handle valid pk 0 0 (initial_world ls n)"
| run_create: "process_run send handle valid pk c t w \<Longrightarrow>
    process_run send handle valid pk c t (snd (session_create b addr lo w))"
| run_call: "process_run send handle valid pk c t w \<Longrightarrow> s < length (w_sessions w) \<Longrightarrow>
    process_run send handle valid pk (Suc c) t (snd (send_request pk send s m p z w))"
| run_notify: "process_run send handle valid pk c t w \<Longrightarrow> s < length (w_sessions w) \<Longrightarrow>
    process_run send handle valid pk c t (snd (send_notify pk send s m p z w))"
| run_event: "process_run send handle valid pk c t w \<Longrightarrow> valid w ev \<Longrightarrow>
    process_run send handle valid pk c t (snd (handle ev w))"
| run_attach: "process_run send handle valid pk c t w \<Longrightarrow>
    process_run send handle valid pk c t (attach_callback f cb w)"
| run_wait_expired: "process_run send handle valid pk c t w \<Longrightarrow> f < length (h_futures w) \<Longrightarrow>
    process_run send handle valid pk c (Suc t) (set_result f NIL TIMEOUT_ERROR None w)"
| run_copy: "process_run send handle valid pk c t w \<Longrightarrow> process_run send handle valid pk c t (session_copy s w)"
| run_release: "process_run send handle valid pk c t w \<Longrightarrow> process_run send handle valid pk c t (session_release s w)"
| run_set_timeout: "process_run send handle valid pk c t w \<Longrightarrow>
    process_run send handle valid pk c t (session_set_timeout s sec w)"
| run_loop: "process_run send handle valid pk c t w \<Longrightarrow> process_run send handle valid pk c t (on_loop l g w)"
| run_net: "process_run send handle valid pk c t w \<Longrightarrow> process_run send handle valid pk c t (w\<lparr>w_net := n\<rparr>)"

section \<open>Creating sessions and sending\<close>

lemma session_create_eq:
  assumes "session_create b addr lo w = (s, w')"
  shows "s = length (w_sessions w)" "h_futures w' = h_futures w" "h_loops w' = h_loops w" "h_log w' = h_log w"
    and "\<exists>t. w_sessions w' = w_sessions w @ [(new_session_impl addr lo)
           \<lparr>s_tran := Some t, s_timeout := b_timeout b, s_timer := True\<rparr>]"
  using assms
  by (auto simp: session_create_def session_build_def Let_def arm_step_timer_def put_session_def
      nth_append new_session_impl_def split: prod.splits)

text \<open>The world in which \<open>send_request\<close> calls the transport.\<close>

definition registered :: "sid \<Rightarrow> ('x, 'ip, 't, 'n, 'z) world_scheme \<Rightarrow> ('x, 'ip, 't, 'n, 'z) world_scheme" where
  "registered s w = snd (register_future s (s_msgid_rr (ses w s)) (snd (next_msgid s w)))"

lemma next_msgid_eq: "next_msgid s w = (s_msgid_rr (ses w s), snd (next_msgid s w))"
  by (simp add: next_msgid_def atomic_increment_def)

lemma next_msgid_simps:
  "h_futures (snd (next_msgid s w)) = h_futures w" "h_loops (snd (next_msgid s w)) = h_loops w"
  "w_net (snd (next_msgid s w)) = w_net w"
  "length (w_sessions (snd (next_msgid s w))) = length (w_sessions w)"
  "table (snd (next_msgid s w)) s' = table w s'"
  "s_loop (ses (snd (next_msgid s w)) s') = s_loop (ses w s')"
  "s_tran (ses (snd (next_msgid s w)) s') = s_tran (ses w s')"
  "s_addr (ses (snd (next_msgid s w)) s') = s_addr (ses w s')"
  "s_handles (ses (snd (next_msgid s w)) s') = s_handles (ses w s')"
  "s_timeout (ses (snd (next_msgid s w)) s') = s_timeout (ses w s')"
  "s_msgid_rr (ses (snd (next_msgid s w)) s') =
     (if s = s' \<and> s < length (w_sessions w) then s_msgid_rr (ses w s) + 1 else s_msgid_rr (ses w s'))"
  by (simp_all add: next_msgid_def atomic_increment_def ses_put_session)

lemma register_session_simps:
  "s_loop (ses (snd (register_future s i w)) s') = s_loop (ses w s')"
  "s_tran (ses (snd (register_future s i w)) s') = s_tran (ses w s')"
  "s_addr (ses (snd (register_future s i w)) s') = s_addr (ses w s')"
  "s_handles (ses (snd (register_future s i w)) s') = s_handles (ses w s')"
  "h_loops (snd (register_future s i w)) = h_loops w" "w_net (snd (register_future s i w)) = w_net w"
  by (simp_all add: register_future_def Let_def put_table_def ses_put_session)

lemma table_wf_next_msgid: "table_wf w \<Longrightarrow> table_wf (snd (next_msgid s w))"
  by (simp add: table_wf_def next_msgid_simps)

lemma registered_simps:
  assumes "s < length (w_sessions w)"
  shows "length (w_sessions (registered s w)) = length (w_sessions w)"
    "h_loops (registered s w) = h_loops w" "w_net (registered s w) = w_net w"
    "s_loop (ses (registered s w) s') = s_loop (ses w s')"
    "s_addr (ses (registered s w) s') = s_addr (ses w s')"
    "h_futures (registered s w) = h_futures w @
       [new_future_impl (s_msgid_rr (ses w s)) s (s_loop (ses w s)) (s_timeout (ses w s))]"
    "table (registered s w) s = AList.update (s_msgid_rr (ses w s)) (length (h_futures w)) (table w s)"
    "s_msgid_rr (ses (registered s w) s) = s_msgid_rr (ses w s) + 1"
    "s_handles (ses (registered s w) s') = s_handles (ses w s')"
  using assms
  by (simp_all add: registered_def register_future_simps register_session_simps next_msgid_simps)

lemma table_wf_net: "table_wf (w\<lparr>w_net := n\<rparr>) = table_wf w"
  by (simp add: table_wf_def)

lemma registered_wf: "table_wf w \<Longrightarrow> s < length (w_sessions w) \<Longrightarrow> table_wf (registered s w)"
  unfolding registered_def
  by (intro register_table_wf table_wf_next_msgid) (simp_all add: next_msgid_simps)

lemma registered_entry:
  assumes "table_wf w" "s < length (w_sessions w)"
  shows "(s_msgid_rr (ses w s), length (h_futures w)) \<in> set (table (registered s w) s)"
  using in_set_update_iff[OF table_wfD(2)[OF assms]] assms(2) by (simp add: registered_simps)

text \<open>\<open>send_request\<close> is the registration, then the transport.\<close>

definition request_buf :: "('x, 'b) packer \<Rightarrow> string \<Rightarrow> 'x object list \<Rightarrow> zone option \<Rightarrow> msgid \<Rightarrow> 'b outbuf" where
  "request_buf pk m p z i =
     (if z \<noteq> None then Vbuf (vpack_request pk (new_msg_request m p i))
      else Sbuf (pack_request pk (new_msg_request m p i)))"

lemma send_request_eq:
  "send_request pk send s m p z w =
     (case send s (request_buf pk m p z (s_msgid_rr (ses w s))) (registered s w) of
        (Some ex, w') \<Rightarrow> (Inl ex, w')
      | (None, w') \<Rightarrow> (Inr \<lparr>fu_method = m, fu_pimpl = Some (length (h_futures w))\<rparr>, w'))"
proof -
  define w1 where "w1 = snd (next_msgid s w)"
  have nm: "next_msgid s w = (s_msgid_rr (ses w s), w1)" using next_msgid_eq[of s w] by (simp add: w1_def)
  obtain f w2 where rf: "register_future s (s_msgid_rr (ses w s)) w1 = (f, w2)"
    by (cases "register_future s (s_msgid_rr (ses w s)) w1")
  have "f = length (h_futures w)" "registered s w = w2"
    using register_future_simps(1)[of s "s_msgid_rr (ses w s)" w1] rf
    by (simp_all add: registered_def w1_def next_msgid_simps)
  with nm rf show ?thesis
    by (auto simp: send_request_def send_request_impl_def request_buf_def split: prod.splits option.splits)
qed

definition notify_buf :: "('x, 'b) packer \<Rightarrow> string \<Rightarrow> 'x object list \<Rightarrow> zone option \<Rightarrow> 'b outbuf" where
  "notify_buf pk m p z =
     (if z \<noteq> None then Vbuf (vpack_notify pk (new_msg_notify m p)) else Sbuf (pack_notify pk (new_msg_notify m p)))"

lemma send_request_state:
  "snd (send_request pk send s m p z w) =
     snd (send s (request_buf pk m p z (s_msgid_rr (ses w s))) (registered s w))"
  by (simp add: send_request_eq split: prod.split option.split)

lemma send_notify_state: "snd (send_notify pk send s m p z w) = snd (send s (notify_buf pk m p z) w)"
  by (simp add: send_notify_def send_notify_impl_def notify_buf_def Let_def)

section \<open>Steps that leave the requests alone\<close>

definition same_requests ::
  "('x, 'ip, 't, 'n, 'z) world_scheme \<Rightarrow> ('x, 'ip, 't, 'n, 'z) world_scheme \<Rightarrow> bool" where
  "same_requests w w' \<longleftrightarrow>
     length (h_futures w') = length (h_futures w) \<and> length (w_sessions w') = length (w_sessions w) \<and>
     (\<forall>f < length (h_futures w). f_msgid (fut w' f) = f_msgid (fut w f) \<and> f_session (fut w' f) = f_session (fut w f)) \<and>
     (\<forall>s. table w' s = table w s \<and> s_msgid_rr (ses w' s) = s_msgid_rr (ses w s))"

lemma same_attach: "same_requests w (attach_callback f cb w)"
  for w :: "('x, 'ip, 't, 'n, 'z) world_scheme"
  by (auto simp: same_requests_def attach_callback_def put_future_def on_loop_def nth_list_update_if)

lemma same_session_ops:
  "same_requests w (session_copy s w)" "same_requests w (session_release s w)"
  "same_requests w (session_set_timeout s sec w)" "same_requests w (w\<lparr>w_net := n\<rparr>)"
  by (simp_all add: same_requests_def session_copy_def session_release_def session_set_timeout_def
      disarm_step_timer_def ses_put_session Let_def)

lemma same_loop: "same_requests w (on_loop l g w)"
  for w :: "('x, 'ip, 't, 'n, 'z) world_scheme"
  by (simp add: same_requests_def on_loop_def)

section \<open>The invariant\<close>

text \<open>
  \<open>ids_issued c w\<close>: each session has issued the identifiers \<open>1, 2, ...\<close> up to its counter, at most
  \<open>c\<close> of them, and its table holds issued identifiers only.
\<close>

definition ids_issued :: "nat \<Rightarrow> ('x, 'ip, 't, 'n, 'z) world_scheme \<Rightarrow> bool" where
  "ids_issued c w \<longleftrightarrow> (\<forall>s < length (w_sessions w). \<exists>m \<le> c.
     s_msgid_rr (ses w s) = 1 + of_nat m \<and> (\<forall>(k, f) \<in> set (table w s). \<exists>j < m. k = 1 + of_nat j))"

definition run_inv :: "nat \<Rightarrow> nat \<Rightarrow> ('x, 'ip, 't, 'n, 'z) world_scheme \<Rightarrow> bool" where
  "run_inv c t w \<longleftrightarrow> table_wf w \<and> ids_issued c w \<and> (t = 0 \<longrightarrow> tables_pending w) \<and>
     (c \<le> 2 ^ 32 \<longrightarrow> no_orphan w)"

lemma run_inv_wf: "run_inv c t w \<Longrightarrow> table_wf w"
  by (simp add: run_inv_def)

lemma same_run_inv:
  assumes s: "same_requests w w'" and inv: "run_inv c t w"
  shows "run_inv c t w'"
proof -
  have tab: "table w' s = table w s" "s_msgid_rr (ses w' s) = s_msgid_rr (ses w s)" for s
    using s by (simp_all add: same_requests_def)
  have len: "length (h_futures w') = length (h_futures w)" "length (w_sessions w') = length (w_sessions w)"
    using s by (simp_all add: same_requests_def)
  have fut: "f_msgid (fut w' f) = f_msgid (fut w f)" "f_session (fut w' f) = f_session (fut w f)"
    if "f < length (h_futures w)" for f using s that by (simp_all add: same_requests_def)
  have wf: "table_wf w" using inv by (simp add: run_inv_def)
  have entry: "f < length (h_futures w) \<and> f_msgid (fut w' f) = k"
    if "s < length (w_sessions w)" "(k, f) \<in> set (table w s)" for s k f
    using table_wfD(3,4)[OF wf that] fut(1) by simp
  have "table_wf w'"
    using wf by (simp add: table_wf_def tab len) (use entry in blast)
  moreover have "ids_issued c w'" using inv by (simp add: run_inv_def ids_issued_def tab len)
  moreover have "tables_pending w'" if "tables_pending w"
    unfolding tables_pending_def tab len
  proof clarify
    fix s k f assume s: "s < length (w_sessions w)" "(k, f) \<in> set (table w s)"
    then have "f_session (fut w f) = Some s" using that by (auto simp: tables_pending_def)
    with fut(2) entry[OF s] show "f_session (fut w' f) = Some s" by simp
  qed
  moreover have "no_orphan w'" if "no_orphan w"
    using that fut unfolding no_orphan_def tab len by simp
  ultimately show ?thesis using inv by (simp add: run_inv_def)
qed

lemma retires_ids_issued:
  assumes "retires w w'" "ids_issued c w"
  shows "ids_issued c w'"
  unfolding ids_issued_def
proof (intro allI impI)
  fix s assume "s < length (w_sessions w')"
  then have s: "s < length (w_sessions w)" using retiresD(2)[OF assms(1)] by simp
  with assms(2) obtain m where "m \<le> c" "s_msgid_rr (ses w s) = 1 + of_nat m"
    "\<forall>(k, f) \<in> set (table w s). \<exists>j < m. k = 1 + of_nat j" by (auto simp: ids_issued_def)
  with retiresD(6)[OF assms(1) s] retiresD(8)[OF assms(1) s]
  show "\<exists>m \<le> c. s_msgid_rr (ses w' s) = 1 + of_nat m \<and> (\<forall>(k, f) \<in> set (table w' s). \<exists>j < m. k = 1 + of_nat j)"
    by (intro exI[of _ m]) auto
qed

lemma retires_run_inv:
  assumes "retires w w'" "run_inv c t w"
  shows "run_inv c t w'"
  using assms retires_table_wf[OF assms(1)] retires_ids_issued[OF assms(1)]
    retires_tables_pending[OF assms(1)] retires_no_orphan[OF assms(1)]
  by (simp add: run_inv_def)

lemma create_run_inv:
  assumes "run_inv c t w" "session_create b addr lo w = (s, w')"
  shows "run_inv c t w'"
proof -
  note eq = session_create_eq[OF assms(2)]
  from eq(5) obtain tr where ws: "w_sessions w' = w_sessions w @ [(new_session_impl addr lo)
      \<lparr>s_tran := Some tr, s_timeout := b_timeout b, s_timer := True\<rparr>]" by blast
  have old: "ses w' s' = ses w s'" if "s' < length (w_sessions w)" for s'
    using that by (simp add: ws nth_append)
  have new: "table w' (length (w_sessions w)) = []" "s_msgid_rr (ses w' (length (w_sessions w))) = 1"
    by (simp_all add: ws new_session_impl_def new_reqtable_def)
  have len: "length (w_sessions w') = Suc (length (w_sessions w))" by (simp add: ws)
  have "table_wf w'"
    using assms(1) new old unfolding run_inv_def table_wf_def eq(2) len less_Suc_eq by auto
  moreover have "ids_issued c w'"
    using assms(1) new old unfolding run_inv_def ids_issued_def len less_Suc_eq by force
  moreover have "tables_pending w'" if "tables_pending w"
    using that new old unfolding tables_pending_def eq(2) len less_Suc_eq by auto
  moreover have "no_orphan w'" if "no_orphan w"
    using that new old unfolding no_orphan_def eq(2) len by (metis less_SucI)
  ultimately show ?thesis using assms(1) by (simp add: run_inv_def)
qed

lemma next_msgid_fresh:
  assumes "ids_issued c w" "s < length (w_sessions w)" "c < 2 ^ 32"
  shows "s_msgid_rr (ses w s) \<notin> fst ` set (table w s)"
proof
  assume "s_msgid_rr (ses w s) \<in> fst ` set (table w s)"
  moreover from assms obtain m where m: "m \<le> c" "s_msgid_rr (ses w s) = 1 + of_nat m"
    "\<forall>(k, f) \<in> set (table w s). \<exists>j < m. k = 1 + of_nat j" by (auto simp: ids_issued_def)
  ultimately obtain j where "j < m" "(of_nat j :: 32 word) = of_nat m" by fastforce
  with word_of_nat_inj[of j m, where 'a = 32] m(1) assms(3) show False by simp
qed

lemma registered_run_inv:
  assumes "run_inv c t w" "s < length (w_sessions w)"
  shows "run_inv (Suc c) t (registered s w)"
proof -
  let ?w1 = "snd (next_msgid s w)"
  have wf: "table_wf w" and ids: "ids_issued c w" using assms(1) by (simp_all add: run_inv_def)
  have s1: "s < length (w_sessions ?w1)" using assms(2) by (simp add: next_msgid_simps)
  have "table_wf (registered s w)" by (rule registered_wf[OF wf assms(2)])
  moreover have "ids_issued (Suc c) (registered s w)"
    unfolding ids_issued_def
  proof (intro allI impI)
    fix s' assume "s' < length (w_sessions (registered s w))"
    then have s': "s' < length (w_sessions w)" using assms(2) by (simp add: registered_simps)
    with ids obtain m where m: "m \<le> c" "s_msgid_rr (ses w s') = 1 + of_nat m"
      "\<forall>(k, f) \<in> set (table w s'). \<exists>j < m. k = 1 + of_nat j" by (auto simp: ids_issued_def)
    have other: "table (registered s w) s' = table w s'" "s_msgid_rr (ses (registered s w) s') = s_msgid_rr (ses w s')"
      if "s' \<noteq> s" using that by (simp_all add: registered_def register_future_simps next_msgid_simps)
    have same: "\<forall>(k, f) \<in> set (table (registered s w) s). \<exists>j < Suc m. k = 1 + of_nat j" if "s' = s"
    proof clarify
      fix k f assume "(k, f) \<in> set (table (registered s w) s)"
      then consider "k = s_msgid_rr (ses w s)" | "(k, f) \<in> set (table w s)"
        using in_set_update_iff[OF table_wfD(2)[OF wf assms(2)], of "(k, f)"] assms(2)
        by (auto simp: registered_simps)
      then show "\<exists>j < Suc m. k = 1 + of_nat j"
      proof cases
        case 1
        with m(2) that show ?thesis by (intro exI[of _ m]) simp
      next
        case 2
        with m(3) that have "\<exists>j < m. k = 1 + of_nat j" by auto
        then show ?thesis using less_SucI by blast
      qed
    qed
    show "\<exists>m \<le> Suc c. s_msgid_rr (ses (registered s w) s') = 1 + of_nat m \<and>
        (\<forall>(k, f) \<in> set (table (registered s w) s'). \<exists>j < m. k = 1 + of_nat j)"
    proof (cases "s' = s")
      case True
      with m same assms(2) show ?thesis by (intro exI[of _ "Suc m"]) (simp add: registered_simps)
    next
      case False
      with m other show ?thesis by (intro exI[of _ m]) simp
    qed
  qed
  moreover have "tables_pending (registered s w)" if "tables_pending w"
    unfolding registered_def
    by (rule register_tables_pending)
       (use that wf s1 in \<open>simp_all add: tables_pending_def table_wf_next_msgid next_msgid_simps\<close>)
  moreover have "no_orphan (registered s w)" if "no_orphan w" "Suc c \<le> 2 ^ 32"
    unfolding registered_def
    by (rule register_no_orphan)
       (use that wf s1 next_msgid_fresh[OF ids assms(2)] in
         \<open>simp_all add: no_orphan_def table_wf_next_msgid next_msgid_simps\<close>)
  ultimately show ?thesis using assms(1) by (simp add: run_inv_def)
qed

lemma wait_expired_run_inv:
  assumes "run_inv c t w" "f < length (h_futures w)"
  shows "run_inv c (Suc t) (set_result f NIL TIMEOUT_ERROR None w)"
  using assms
  by (auto simp: run_inv_def table_wf_def ids_issued_def no_orphan_def fut_set_result split: if_splits)

section \<open>Client processes\<close>

text \<open>What a transport promises: sending and events complete requests and never lose or invent one.\<close>

locale client_process = client_transport send
  for send :: "('b, ('x, 'ip, 't, 'n, 'z) world_scheme) send_data" +
  fixes handle :: "'ev \<Rightarrow> ('x, 'ip, 't, 'n, 'z) world_scheme \<Rightarrow> exn option \<times> ('x, 'ip, 't, 'n, 'z) world_scheme"
    and valid :: "('x, 'ip, 't, 'n, 'z) world_scheme \<Rightarrow> 'ev \<Rightarrow> bool"
  assumes handle_retires: "table_wf w \<Longrightarrow> valid w ev \<Longrightarrow> retires w (snd (handle ev w))"
begin

lemma call_retires:
  assumes "table_wf w" "s < length (w_sessions w)"
  shows "retires (registered s w) (snd (send_request pk send s m p z w))"
  unfolding send_request_state
  using assms by (intro send_retires registered_wf) (simp_all add: registered_simps)

lemma call_run_inv:
  assumes "run_inv c t w" "s < length (w_sessions w)"
  shows "run_inv (Suc c) t (snd (send_request pk send s m p z w))"
  by (rule retires_run_inv[OF call_retires[OF run_inv_wf[OF assms(1)] assms(2)] registered_run_inv[OF assms]])

lemma notify_retires:
  "table_wf w \<Longrightarrow> s < length (w_sessions w) \<Longrightarrow> retires w (snd (send_notify pk send s m p z w))"
  by (simp add: send_notify_state send_retires)

lemma call_keeps_completed:
  assumes "run_inv c 0 w" "s < length (w_sessions w)" "f < length (h_futures w)" "ready w f"
  shows "fut (snd (send_request pk send s m p z w)) f = fut w f"
proof -
  let ?r = "registered s w"
  have inv: "run_inv (Suc c) 0 ?r" by (rule registered_run_inv[OF assms(1,2)])
  have fut: "fut ?r f = fut w f" "f < length (h_futures ?r)" using assms(2,3) by (simp_all add: registered_simps nth_append)
  have "retires ?r (snd (send_request pk send s m p z w))" by (rule call_retires[OF run_inv_wf[OF assms(1)] assms(2)])
  from retires_result_stable[OF this _ _ fut(2)] inv fut(1) assms(4) show ?thesis by (simp add: run_inv_def)
qed

text \<open>A completed future keeps its outcome through every further call, notification and event.\<close>

lemma completed_stable:
  assumes "run_inv c 0 w" "f < length (h_futures w)" "ready w f"
  shows "(valid w ev \<longrightarrow> fut (snd (handle ev w)) f = fut w f) \<and>
    (s < length (w_sessions w) \<longrightarrow> fut (snd (send_request pk send s m p z w)) f = fut w f \<and>
       fut (snd (send_notify pk send s m p z w)) f = fut w f)"
proof -
  have ok: "table_wf w" "tables_pending w" using assms(1) by (simp_all add: run_inv_def)
  show ?thesis
    using retires_result_stable[OF handle_retires[OF ok(1)] ok assms(2,3)]
      retires_result_stable[OF notify_retires[OF ok(1)] ok assms(2,3)]
      call_keeps_completed[OF assms(1) _ assms(2,3)] by blast
qed

end

text \<open>A waiting future of a process is completed by the ticks of its session's timer.\<close>

lemma run_inv_ticks:
  assumes "run_inv c t w" "c \<le> 2 ^ 32" "f < length (h_futures w)" "f_session (fut w f) = Some s"
    and "w' = timer_ticks s (Suc (unat (f_timeout (fut w f)))) w"
  shows "ready w' f \<and> f_error (fut w' f) = TIMEOUT_ERROR \<and> f \<notin> snd ` set (table w' s)"
proof -
  have "table_wf w" "s < length (w_sessions w)" "(f_msgid (fut w f), f) \<in> set (table w s)"
    using assms(1-4) by (auto simp: run_inv_def no_orphan_def)
  from timer_ticks_expired[OF this, of "Suc (unat (f_timeout (fut w f)))"] assms(5) show ?thesis by simp
qed

text \<open>Runs start from a world without sessions, so the invariant of runs holds for plain worlds.\<close>

locale client_runs = client_process send handle valid
  for send :: "('b, ('x, 'ip, 't, 'n) world) send_data"
    and handle :: "'ev \<Rightarrow> ('x, 'ip, 't, 'n) world \<Rightarrow> exn option \<times> ('x, 'ip, 't, 'n) world"
    and valid :: "('x, 'ip, 't, 'n) world \<Rightarrow> 'ev \<Rightarrow> bool"
begin

lemma process_run_inv: "process_run send handle valid pk c t w \<Longrightarrow> run_inv c t w"
proof (induction rule: process_run.induct)
  case (run_init ls n)
  then show ?case
    by (simp add: run_inv_def initial_world_def table_wf_def ids_issued_def tables_pending_def no_orphan_def)
next
  case (run_create c t w b addr lo)
  then show ?case using create_run_inv by (metis prod.collapse)
next
  case (run_call c t w s m p z)
  then show ?case by (simp add: call_run_inv)
next
  case (run_notify c t w s m p z)
  then show ?case by (intro retires_run_inv[OF notify_retires] run_inv_wf) simp_all
next
  case (run_event c t w ev)
  then show ?case by (intro retires_run_inv[OF handle_retires] run_inv_wf) simp_all
next
  case (run_wait_expired c t w f)
  then show ?case by (simp add: wait_expired_run_inv)
qed (auto intro: same_run_inv[OF same_attach] same_run_inv[OF same_loop] same_run_inv[OF same_session_ops(1)]
     same_run_inv[OF same_session_ops(2)] same_run_inv[OF same_session_ops(3)] same_run_inv[OF same_session_ops(4)])

end

end
