(* ===== verification/RPC_Tcp.thy ===== *)
theory RPC_Tcp
  imports RPC_Framing RPC_Process Complex_Main
begin

text \<open>
  The TCP transport of a client (\<^verbatim>\<open>transport/tcp.h\<close>, first half of \<^verbatim>\<open>transport/tcp.cc\<close>): the
  client socket, the connection attempts with their retries and time limit, and \<open>send_data\<close>.
  Sockets, timers and the polling of the event loop are Boost.Asio's; what they return is given by
  the fields of \<open>asio\<close>. Closing a socket and setting an option on it are taken not to fail.
\<close>

section \<open>Definitions\<close>

record 'u tcp_client =
  tc_connect_timeout :: rat
  tc_reconnect_limit :: int
  tc_conn :: "'u stream_handler"
  tc_connecting :: int     \<comment> \<open>\<open>m_conn->m_connecting\<close>\<close>
  tc_timer :: bool         \<comment> \<open>a wait on \<open>m_timer\<close> is pending\<close>
  tc_timer_secs :: int     \<comment> \<open>the time set by \<open>expires_from_now\<close>\<close>

text \<open>
  What the event loop may deliver to a client: the step timer of a session, data on its socket,
  the connect timer (with the outcome of \<^verbatim>\<open>expires_at() <= now()\<close>), a posted callback.
\<close>

datatype 'b client_event =
    Ev_step_timer sid bool
  | Ev_read sid errno "'b list"
  | Ev_connect_timer sid bool
  | Ev_callback cbid fid

text \<open>
  \<open>sock_connect\<close> returns the error code (0 for success) and whether the socket is open
  afterwards; \<open>sock_write\<close> the error thrown, if any; \<open>io_poll\<close> the handlers that are ready.
\<close>

record ('ip, 'b, 'n) asio =
  sock_connect :: "sid \<Rightarrow> 'ip address \<Rightarrow> 'n \<Rightarrow> errno \<times> bool \<times> 'n"
  sock_write :: "sid \<Rightarrow> 'b list \<Rightarrow> 'n \<Rightarrow> errno option \<times> 'n"
  io_poll :: "'n \<Rightarrow> 'b client_event list \<times> 'n"

definition ETIMEDOUT :: errno where "ETIMEDOUT = 110"

subsection \<open>Builder\<close>

record tcp_builder =
  tb_timeout :: uint
  tb_connect_timeout :: rat
  tb_reconnect_limit :: uint

definition new_tcp_builder :: tcp_builder where
  "new_tcp_builder = \<lparr>tb_timeout = 30, tb_connect_timeout = 10, tb_reconnect_limit = 3\<rparr>"

definition new_tcp_client :: "('x, 'b, 'u) decoder \<Rightarrow> tcp_builder \<Rightarrow> 'u tcp_client" where
  "new_tcp_client d b =
     \<lparr>tc_connect_timeout = tb_connect_timeout b, tc_reconnect_limit = sint (tb_reconnect_limit b),
      tc_conn = new_stream_handler d, tc_connecting = 0, tc_timer = False, tc_timer_secs = 0\<rparr>"

definition tcp_build ::
  "('x, 'b, 'u) decoder \<Rightarrow> tcp_builder \<Rightarrow> ('ip, 'u tcp_client, 'n) builder" where
  "tcp_build d b = \<lparr>b_timeout = tb_timeout b, b_build = (\<lambda>s addr n. (new_tcp_client d b, n))\<rparr>"

subsection \<open>The client socket\<close>

definition tcp :: "('x, 'ip, 'u tcp_client, 'n, 'z) world_scheme \<Rightarrow> sid \<Rightarrow> 'u tcp_client" where
  "tcp w s = the (s_tran (ses w s))"

definition put_tcp ::
  "sid \<Rightarrow> 'u tcp_client \<Rightarrow> ('x, 'ip, 'u tcp_client, 'n, 'z) world_scheme \<Rightarrow>
   ('x, 'ip, 'u tcp_client, 'n, 'z) world_scheme"
where
  "put_tcp s t w = put_session s ((ses w s)\<lparr>s_tran := Some t\<rparr>) w"

definition tcp_put_conn ::
  "sid \<Rightarrow> 'u stream_handler \<Rightarrow> ('x, 'ip, 'u tcp_client, 'n, 'z) world_scheme \<Rightarrow>
   ('x, 'ip, 'u tcp_client, 'n, 'z) world_scheme"
where
  "tcp_put_conn s h w = put_tcp s ((tcp w s)\<lparr>tc_conn := h\<rparr>) w"

definition tcp_close_socket ::
  "sid \<Rightarrow> ('x, 'ip, 'u tcp_client, 'n, 'z) world_scheme \<Rightarrow>
   ('x, 'ip, 'u tcp_client, 'n, 'z) world_scheme"
where
  "tcp_close_socket s w = tcp_put_conn s ((tc_conn (tcp w s))\<lparr>sh_open := False\<rparr>) w"

definition client_on_request ::
  "msgid \<Rightarrow> 'x object \<Rightarrow> 'x object \<Rightarrow> zone option \<Rightarrow> 'w \<Rightarrow> exn option \<times> 'w" where
  "client_on_request msgid result error z w = (Some type_error, w)"

definition client_on_response ::
  "sid \<Rightarrow> msgid \<Rightarrow> 'x object \<Rightarrow> 'x object \<Rightarrow> zone option \<Rightarrow>
   ('x, 'ip, 't, 'n, 'z) world_scheme \<Rightarrow> exn option \<times> ('x, 'ip, 't, 'n, 'z) world_scheme"
where
  "client_on_response s msgid result error z w =
     (if \<not> session_alive w s then (Some closed_exception, w)
      else (None, on_response s msgid result error z w))"

definition client_on_notify ::
  "sid \<Rightarrow> 'x object \<Rightarrow> 'x object \<Rightarrow> zone option \<Rightarrow>
   ('x, 'ip, 't, 'n, 'z) world_scheme \<Rightarrow> exn option \<times> ('x, 'ip, 't, 'n, 'z) world_scheme"
where
  "client_on_notify s method params z w =
     (if \<not> session_alive w s then (Some closed_exception, w)
      else (None, on_notify s method params z w))"

definition client_on_system_error ::
  "sid \<Rightarrow> errno \<Rightarrow> ('x, 'ip, 'u tcp_client, 'n, 'z) world_scheme \<Rightarrow>
   ('x, 'ip, 'u tcp_client, 'n, 'z) world_scheme"
where
  "client_on_system_error s err w =
     (let w1 = (if session_alive w s then on_system_error s err w else w)
      in if sh_open (tc_conn (tcp w1 s)) then tcp_close_socket s w1 else w1)"

definition tcp_client_vt ::
  "sid \<Rightarrow> ('x, 'u, ('x, 'ip, 'u tcp_client, 'n, 'z) world_scheme) stream_vt" where
  "tcp_client_vt s =
     \<lparr>vt_get = (\<lambda>w. tc_conn (tcp w s)),
      vt_put = tcp_put_conn s,
      vt_on_request = client_on_request,
      vt_on_response = client_on_response s,
      vt_on_notify = client_on_notify s,
      vt_on_system_error = client_on_system_error s\<rparr>"

subsection \<open>Connecting\<close>

definition tcp_cancel_timer ::
  "sid \<Rightarrow> ('x, 'ip, 'u tcp_client, 'n, 'z) world_scheme \<Rightarrow>
   ('x, 'ip, 'u tcp_client, 'n, 'z) world_scheme"
where
  "tcp_cancel_timer s w = put_tcp s ((tcp w s)\<lparr>tc_timer := False\<rparr>) w"

definition on_connect_success ::
  "('x, 'b, 'u) decoder \<Rightarrow> sid \<Rightarrow> ('x, 'ip, 'u tcp_client, 'n, 'z) world_scheme \<Rightarrow>
   ('x, 'ip, 'u tcp_client, 'n, 'z) world_scheme"
where
  "on_connect_success d s w =
     (let w1 = tcp_cancel_timer s w in tcp_put_conn s (stream_start d (tc_conn (tcp w1 s))) w1)"

text \<open>The branch of \<open>client_transport::on_connect_failed\<close> that gives up.\<close>

definition connect_give_up ::
  "sid \<Rightarrow> ('x, 'ip, 'u tcp_client, 'n, 'z) world_scheme \<Rightarrow>
   ('x, 'ip, 'u tcp_client, 'n, 'z) world_scheme"
where
  "connect_give_up s w = on_connect_failed s (tcp_close_socket s (tcp_cancel_timer s w))"

text \<open>
  \<open>on_timeout\<close> calls \<open>on_connect_failed\<close> with \<^verbatim>\<open>ETIMEDOUT\<close>, which never retries.
\<close>

definition on_connect_timeout ::
  "bool \<Rightarrow> sid \<Rightarrow> ('x, 'ip, 'u tcp_client, 'n, 'z) world_scheme \<Rightarrow>
   ('x, 'ip, 'u tcp_client, 'n, 'z) world_scheme"
where
  "on_connect_timeout over s w =
     (if sh_open (tc_conn (tcp w s)) then w
      else if over then connect_give_up s w
      else w)"

text \<open>One handler of the event loop; an exception that leaves it leaves \<open>poll\<close> as well.\<close>

fun handle_client_event ::
  "('x, 'b, 'u) decoder \<Rightarrow> 'b client_event \<Rightarrow> ('x, 'ip, 'u tcp_client, 'n, 'z) world_scheme \<Rightarrow>
   exn option \<times> ('x, 'ip, 'u tcp_client, 'n, 'z) world_scheme"
where
  "handle_client_event d (Ev_step_timer s aborted) w = (None, step_timer_handler aborted s w)"
| "handle_client_event d (Ev_read s err bytes) w = stream_on_read d (tcp_client_vt s) err bytes w"
| "handle_client_event d (Ev_connect_timer s over) w = (None, on_connect_timeout over s w)"
| "handle_client_event d (Ev_callback cb f) w = (None, log_effects [Run_callback cb f] w)"

text \<open>Handlers exist for objects that are alive only: events for unknown sessions are not run.\<close>

fun event_session :: "'b client_event \<Rightarrow> sid option" where
  "event_session (Ev_step_timer s _) = Some s"
| "event_session (Ev_read s _ _) = Some s"
| "event_session (Ev_connect_timer s _) = Some s"
| "event_session (Ev_callback _ _) = None"

definition event_valid :: "('x, 'ip, 't, 'n, 'z) world_scheme \<Rightarrow> 'b client_event \<Rightarrow> bool" where
  "event_valid w ev = (case event_session ev of None \<Rightarrow> True | Some s \<Rightarrow> s < length (w_sessions w))"

fun run_client_events ::
  "('x, 'b, 'u) decoder \<Rightarrow> 'b client_event list \<Rightarrow> ('x, 'ip, 'u tcp_client, 'n, 'z) world_scheme \<Rightarrow>
   exn option \<times> ('x, 'ip, 'u tcp_client, 'n, 'z) world_scheme"
where
  "run_client_events d [] w = (None, w)"
| "run_client_events d (ev # evs) w =
     (if \<not> event_valid w ev then run_client_events d evs w
      else case handle_client_event d ev w of
             (Some e, w') \<Rightarrow> (Some e, w')
           | (None, w') \<Rightarrow> run_client_events d evs w')"

text \<open>\<^verbatim>\<open>if (!loop->is_running()) loop->flush();\<close>\<close>

definition flush_if_idle ::
  "('ip, 'b, 'n) asio \<Rightarrow> ('x, 'b, 'u) decoder \<Rightarrow> sid \<Rightarrow>
   ('x, 'ip, 'u tcp_client, 'n, 'z) world_scheme \<Rightarrow>
   exn option \<times> ('x, 'ip, 'u tcp_client, 'n, 'z) world_scheme"
where
  "flush_if_idle a d s w =
     (if is_running (h_loops w ! s_loop (ses w s)) then (None, w)
      else let (evs, n) = io_poll a (w_net w)
           in run_client_events d evs ((on_loop (s_loop (ses w s)) loop_flush w)\<lparr>w_net := n\<rparr>))"

text \<open>
  \<open>try_connect\<close>, \<open>on_connect\<close> and the retrying branch of \<open>on_connect_failed\<close> call each other. The
  counter \<open>m_connecting\<close> is written by \<open>connect\<close> and \<open>try_connect\<close> only, so its value is passed as
  an argument beside the field; \<open>limit\<close> is \<open>m_reconnect_limit\<close>.
\<close>

function try_connect ::
  "('ip, 'b, 'n) asio \<Rightarrow> ('x, 'b, 'u) decoder \<Rightarrow> sid \<Rightarrow> int \<Rightarrow> int \<Rightarrow>
   ('x, 'ip, 'u tcp_client, 'n, 'z) world_scheme \<Rightarrow>
   exn option \<times> ('x, 'ip, 'u tcp_client, 'n, 'z) world_scheme"
where
  "try_connect a d s limit connecting w =
     (case flush_if_idle a d s w of
        (Some e, w1) \<Rightarrow> (Some e, w1)
      | (None, w1) \<Rightarrow>
          let w2 = put_tcp s ((tcp w1 s)\<lparr>tc_connecting := connecting + 1\<rparr>) w1;
              (ec, is_open, n) = sock_connect a s (s_addr (ses w2 s)) (w_net w2);
              w3 = tcp_put_conn s ((tc_conn (tcp w2 s))\<lparr>sh_open := is_open\<rparr>) (w2\<lparr>w_net := n\<rparr>)
          in if ec \<noteq> 0 then
               (if ec \<noteq> ETIMEDOUT \<and> connecting + 1 < limit
                then try_connect a d s limit (connecting + 1) w3
                else (None, connect_give_up s w3))
             else (None, on_connect_success d s w3))"
  by pat_completeness auto
termination
  by (relation "measure (\<lambda>(a, d, s, limit, connecting, w). nat (limit - connecting))") auto

declare try_connect.simps [simp del]

text \<open>The cast \<^verbatim>\<open>(long)m_connect_timeout\<close> truncates towards zero.\<close>

definition trunc_rat :: "rat \<Rightarrow> int" where
  "trunc_rat r = (if 0 \<le> r then floor r else ceiling r)"

definition tcp_connect ::
  "('ip, 'b, 'n) asio \<Rightarrow> ('x, 'b, 'u) decoder \<Rightarrow> sid \<Rightarrow>
   ('x, 'ip, 'u tcp_client, 'n, 'z) world_scheme \<Rightarrow>
   exn option \<times> ('x, 'ip, 'u tcp_client, 'n, 'z) world_scheme"
where
  "tcp_connect a d s w =
     (let w1 = put_tcp s ((tcp w s)\<lparr>tc_timer_secs := trunc_rat (tc_connect_timeout (tcp w s)),
                                    tc_timer := True, tc_connecting := 0\<rparr>) w
      in case try_connect a d s (tc_reconnect_limit (tcp w1 s)) 0 w1 of
           (Some e, w2) \<Rightarrow> (Some e, w2)
         | (None, w2) \<Rightarrow>
             if \<not> sh_open (tc_conn (tcp w2 s)) then (Some new_connect_error, w2) else (None, w2))"

definition tcp_sock_write ::
  "('ip, 'b, 'n) asio \<Rightarrow> sid \<Rightarrow> 'b list \<Rightarrow> ('x, 'ip, 'u tcp_client, 'n, 'z) world_scheme \<Rightarrow>
   errno option \<times> ('x, 'ip, 'u tcp_client, 'n, 'z) world_scheme"
where
  "tcp_sock_write a s bs w = (let (e, n) = sock_write a s bs (w_net w) in (e, w\<lparr>w_net := n\<rparr>))"

definition tcp_send_data ::
  "('ip, 'b, 'n) asio \<Rightarrow> ('x, 'b, 'u) decoder \<Rightarrow>
   ('b, ('x, 'ip, 'u tcp_client, 'n, 'z) world_scheme) send_data"
where
  "tcp_send_data a d s buf w =
     (case flush_if_idle a d s w of
        (Some e, w1) \<Rightarrow> (Some e, w1)
      | (None, w1) \<Rightarrow>
          (case (if \<not> sh_open (tc_conn (tcp w1 s)) then tcp_connect a d s w1 else (None, w1)) of
             (Some e, w2) \<Rightarrow> (Some e, w2)
           | (None, w2) \<Rightarrow>
               (None, stream_send_data (tcp_sock_write a s) (tcp_client_vt s) buf w2)))"

section \<open>Relations kept by every operation of the transport\<close>

text \<open>
  A relation between states that the basic updates keep (the fields of the transport, the network,
  the log, the loop) and the four functions of a session that a transport calls is kept by every
  handler, by connecting with its retries, and by sending.
\<close>

locale tcp_events =
  fixes ok :: "('x, 'ip, 'u tcp_client, 'n, 'z) world_scheme \<Rightarrow> bool"
    and rel :: "('x, 'ip, 'u tcp_client, 'n, 'z) world_scheme \<Rightarrow> ('x, 'ip, 'u tcp_client, 'n, 'z) world_scheme \<Rightarrow> bool"
  assumes rel_refl: "rel w w"
    and rel_trans: "rel w w' \<Longrightarrow> rel w' w'' \<Longrightarrow> rel w w''"
    and rel_ok: "ok w \<Longrightarrow> rel w w' \<Longrightarrow> ok w'"
    and rel_sessions: "rel w w' \<Longrightarrow> length (w_sessions w') = length (w_sessions w)"
    and rel_put_tcp: "rel w (put_tcp s t w)"
    and rel_net: "rel w (w\<lparr>w_net := n\<rparr>)"
    and rel_log: "rel w (log_effects es w)"
    and rel_on_loop: "rel w (on_loop l g w)"
    and rel_timer: "ok w \<Longrightarrow> s < length (w_sessions w) \<Longrightarrow> rel w (step_timer_handler aborted s w)"
    and rel_response: "ok w \<Longrightarrow> s < length (w_sessions w) \<Longrightarrow> rel w (on_response s i r e z w)"
    and rel_connect_failed: "ok w \<Longrightarrow> s < length (w_sessions w) \<Longrightarrow> rel w (on_connect_failed s w)"
    and rel_system_error: "ok w \<Longrightarrow> s < length (w_sessions w) \<Longrightarrow> rel w (on_system_error s err w)"
begin

lemma rel_put_conn: "rel w (tcp_put_conn s h w)"
  unfolding tcp_put_conn_def by (rule rel_put_tcp)

lemma give_up_rel:
  assumes "ok w" "s < length (w_sessions w)"
  shows "rel w (connect_give_up s w)"
proof -
  have 1: "rel w (tcp_close_socket s (tcp_cancel_timer s w))"
    unfolding tcp_close_socket_def tcp_cancel_timer_def using rel_put_tcp rel_put_conn rel_trans by blast
  have "rel (tcp_close_socket s (tcp_cancel_timer s w)) (connect_give_up s w)"
    unfolding connect_give_up_def using rel_ok[OF assms(1) 1] rel_sessions[OF 1] assms(2) by (intro rel_connect_failed) simp_all
  then show ?thesis by (rule rel_trans[OF 1])
qed

lemma success_rel: "rel w (on_connect_success d s w)"
  unfolding on_connect_success_def tcp_cancel_timer_def Let_def using rel_put_tcp rel_put_conn rel_trans by blast

lemma socket_error_rel:
  assumes "ok w" "s < length (w_sessions w)"
  shows "rel w (client_on_system_error s err w)"
proof -
  define w1 where "w1 = (if session_alive w s then on_system_error s err w else w)"
  have 1: "rel w w1" using assms rel_system_error rel_refl by (auto simp: w1_def)
  have "rel w1 (client_on_system_error s err w)"
    unfolding client_on_system_error_def Let_def tcp_close_socket_def
    using rel_put_conn rel_refl by (auto simp flip: w1_def)
  with 1 show ?thesis using rel_trans by blast
qed

end

text \<open>The TCP client socket fulfils the contract of the stream handler.\<close>

sublocale tcp_events < socket: message_handler "tcp_client_vt s" "\<lambda>w. ok w \<and> s < length (w_sessions w)" rel for s
proof (unfold_locales, goal_cases)
  case (1 w)
  show ?case by (rule rel_refl)
next
  case (2 w w' w'')
  then show ?case by (rule rel_trans)
next
  case (3 w w')
  then show ?case using rel_ok rel_sessions by metis
next
  case (4 w h)
  then show ?case by (simp add: tcp_client_vt_def rel_put_conn)
next
  case (5 w i a b z)
  then show ?case by (simp add: tcp_client_vt_def client_on_request_def rel_refl)
next
  case (6 w i a b z)
  then show ?case by (simp add: tcp_client_vt_def client_on_response_def rel_response rel_refl)
next
  case (7 w a b z)
  then show ?case by (simp add: tcp_client_vt_def client_on_notify_def on_notify_def rel_refl)
next
  case (8 w err)
  then show ?case by (simp add: tcp_client_vt_def socket_error_rel)
qed

context tcp_events
begin

lemma event_rel:
  assumes "ok w" "event_valid w ev"
  shows "rel w (snd (handle_client_event d ev w))"
  using assms
  by (cases ev)
     (auto simp: event_valid_def rel_timer socket.on_read_rel on_connect_timeout_def give_up_rel rel_log rel_refl)

lemma events_rel: "ok w \<Longrightarrow> rel w (snd (run_client_events d evs w))"
proof (induction evs arbitrary: w)
  case Nil
  then show ?case by (simp add: rel_refl)
next
  case (Cons ev evs)
  obtain e w1 where h: "handle_client_event d ev w = (e, w1)" by (cases "handle_client_event d ev w")
  show ?case
  proof (cases "event_valid w ev")
    case False
    with Cons show ?thesis by simp
  next
    case True
    have 1: "rel w w1" using event_rel[OF Cons.prems True, of d] h by simp
    have "rel w (snd (run_client_events d evs w1))"
      by (rule rel_trans[OF 1 Cons.IH[OF rel_ok[OF Cons.prems 1]]])
    with 1 h True show ?thesis by (cases e) simp_all
  qed
qed

lemma flush_rel:
  assumes "ok w"
  shows "rel w (snd (flush_if_idle a d s w))"
proof -
  obtain evs n where p: "io_poll a (w_net w) = (evs, n)" by (cases "io_poll a (w_net w)")
  define w1 where "w1 = (on_loop (s_loop (ses w s)) loop_flush w)\<lparr>w_net := n\<rparr>"
  have 1: "rel w w1" unfolding w1_def by (rule rel_trans[OF rel_on_loop rel_net])
  show ?thesis
    using p rel_trans[OF 1 events_rel[OF rel_ok[OF assms 1], of d evs]] rel_refl
    by (auto simp: flush_if_idle_def simp flip: w1_def)
qed

lemma try_connect_rel:
  "ok w \<Longrightarrow> s < length (w_sessions w) \<Longrightarrow> rel w (snd (try_connect a d s limit c w))"
proof (induction a d s limit c w rule: try_connect.induct)
  case (1 a d s limit c w)
  obtain e w1 where fl: "flush_if_idle a d s w = (e, w1)" by (cases "flush_if_idle a d s w")
  define w2 where "w2 = put_tcp s ((tcp w1 s)\<lparr>tc_connecting := c + 1\<rparr>) w1"
  obtain ec op n where co: "sock_connect a s (s_addr (ses w2 s)) (w_net w2) = (ec, op, n)"
    by (cases "sock_connect a s (s_addr (ses w2 s)) (w_net w2)")
  define w3 where "w3 = tcp_put_conn s ((tc_conn (tcp w2 s))\<lparr>sh_open := op\<rparr>) (w2\<lparr>w_net := n\<rparr>)"
  have r1: "rel w w1" using flush_rel[OF 1(2), of a d s] fl by simp
  have r3: "rel w w3"
    unfolding w3_def w2_def by (rule rel_trans[OF rel_trans[OF rel_trans[OF r1 rel_put_tcp] rel_net] rel_put_conn])
  have ok3: "ok w3" "s < length (w_sessions w3)" using rel_ok[OF 1(2) r3] rel_sessions[OF r3] 1(3) by simp_all
  show ?case
  proof (cases "e = None \<and> ec \<noteq> 0 \<and> ec \<noteq> ETIMEDOUT \<and> c + 1 < limit")
    case True
    with fl have fl': "flush_if_idle a d s w = (None, w1)" by simp
    have "rel w3 (snd (try_connect a d s limit (c + 1) w3))"
      by (rule 1(1)[OF fl'[symmetric] refl w2_def refl co[symmetric] refl w3_def]) (use True ok3 in simp_all)
    with rel_trans[OF r3] True fl co show ?thesis
      by (simp add: try_connect.simps[of a d s limit c w] Let_def flip: w2_def w3_def)
  next
    case False
    then have "snd (try_connect a d s limit c w) \<in> {w1, connect_give_up s w3, on_connect_success d s w3}"
      using fl co
      by (auto simp: try_connect.simps[of a d s limit c w] Let_def simp flip: w2_def w3_def split: option.split)
    then show ?thesis
      using r1 rel_trans[OF r3 give_up_rel[OF ok3]] rel_trans[OF r3 success_rel] by auto
  qed
qed

lemma connect_rel:
  assumes "ok w" "s < length (w_sessions w)"
  shows "rel w (snd (tcp_connect a d s w))"
proof -
  define w1 where "w1 = put_tcp s ((tcp w s)\<lparr>tc_timer_secs := trunc_rat (tc_connect_timeout (tcp w s)),
      tc_timer := True, tc_connecting := 0\<rparr>) w"
  have 1: "rel w w1" unfolding w1_def by (rule rel_put_tcp)
  have "rel w1 (snd (try_connect a d s (tc_reconnect_limit (tcp w1 s)) 0 w1))"
    using rel_ok[OF assms(1) 1] rel_sessions[OF 1] assms(2) by (intro try_connect_rel) simp_all
  from rel_trans[OF 1 this] show ?thesis
    by (auto simp: tcp_connect_def Let_def simp flip: w1_def split: prod.split option.split)
qed

lemma send_rel:
  assumes "ok w" "s < length (w_sessions w)"
  shows "rel w (snd (tcp_send_data a d s buf w))"
proof -
  obtain e1 w1 where f: "flush_if_idle a d s w = (e1, w1)" by (cases "flush_if_idle a d s w")
  obtain e2 w2 where c: "(if \<not> sh_open (tc_conn (tcp w1 s)) then tcp_connect a d s w1 else (None, w1)) = (e2, w2)"
    by (metis prod.exhaust)
  have r1: "rel w w1" using flush_rel[OF assms(1), of a d s] f by simp
  have ok1: "ok w1" "s < length (w_sessions w1)" using rel_ok[OF assms(1) r1] rel_sessions[OF r1] assms(2) by simp_all
  have "rel w1 w2" using connect_rel[OF ok1, of a d] c rel_refl by (auto split: if_splits)
  then have r2: "rel w w2" by (rule rel_trans[OF r1])
  have ok2: "ok w2 \<and> s < length (w_sessions w2)" using rel_ok[OF assms(1) r2] rel_sessions[OF r2] assms(2) by simp
  have r3: "rel w (stream_send_data (tcp_sock_write a s) (tcp_client_vt s) buf w2)"
    by (rule rel_trans[OF r2 socket.send_data_rel[OF ok2]]) (simp add: tcp_sock_write_def rel_net split: prod.split)
  show ?thesis
    using f c r1 r2 r3 by (auto simp: tcp_send_data_def split: option.split)
qed

end

section \<open>Every operation of the transport only retires requests\<close>

lemma retires_put_session:
  "s_reqtable si = table w s \<Longrightarrow> s_msgid_rr si = s_msgid_rr (ses w s) \<Longrightarrow> retires w (put_session s si w)"
  by (auto simp: retires_def ses_put_session)

lemma retires_net: "retires w (w\<lparr>w_net := n\<rparr>)"
  by (auto simp: retires_def)

lemma retires_log: "retires w (log_effects es w)" for w :: "('x, 'ip, 't, 'n, 'z) world_scheme"
  by (auto simp: retires_def log_effects_def)

lemma retires_on_loop: "retires w (on_loop l g w)" for w :: "('x, 'ip, 't, 'n, 'z) world_scheme"
  by (auto simp: retires_def on_loop_def)

lemma retires_put_tcp: "retires w (put_tcp s t w)"
  unfolding put_tcp_def by (rule retires_put_session) simp_all

lemma retires_ok:
  "retires w w' \<Longrightarrow> table_wf w \<and> s < length (w_sessions w) \<Longrightarrow>
    table_wf w' \<and> s < length (w_sessions w')"
  using retires_table_wf retiresD(2) by metis

interpretation retiring: tcp_events table_wf retires
proof (unfold_locales, goal_cases)
  case (2 w w' w'')
  then show ?case by (rule retires_trans)
next
  case (3 w w')
  then show ?case using retires_table_wf by blast
next
  case (4 w w')
  then show ?case by (rule retiresD(2))
qed (simp_all add: retires_refl retires_put_tcp retires_net retires_log retires_on_loop step_timer_retires
     on_response_retires fail_all_eq fail_all_retires)

lemma retires_tcp_put_conn: "retires w (tcp_put_conn s h w)"
  by (rule retiring.rel_put_conn)

lemma handle_client_event_retires:
  "table_wf w \<Longrightarrow> event_valid w ev \<Longrightarrow> retires w (snd (handle_client_event d ev w))"
  by (rule retiring.event_rel)

lemma tcp_send_data_retires:
  "table_wf w \<Longrightarrow> s < length (w_sessions w) \<Longrightarrow> retires w (snd (tcp_send_data a d s buf w))"
  by (rule retiring.send_rel)

text \<open>So the TCP transport fulfils the contract on which sessions rely.\<close>

interpretation tcp_tran: client_transport "tcp_send_data a d" for a d
  by unfold_locales (rule tcp_send_data_retires)

section \<open>Fields of the transport\<close>

lemma tcp_put_tcp: "s < length (w_sessions w) \<Longrightarrow> tcp (put_tcp s t w) s = t"
  by (simp add: tcp_def put_tcp_def ses_put_session)

lemma put_tcp_frame [simp]:
  "h_futures (put_tcp s t w) = h_futures w" "h_loops (put_tcp s t w) = h_loops w"
  "length (w_sessions (put_tcp s t w)) = length (w_sessions w)" "w_net (put_tcp s t w) = w_net w"
  "table (put_tcp s t w) s' = table w s'" "s_loop (ses (put_tcp s t w) s') = s_loop (ses w s')"
  "s_addr (ses (put_tcp s t w) s') = s_addr (ses w s')"
  "s_handles (ses (put_tcp s t w) s') = s_handles (ses w s')"
  by (simp_all add: put_tcp_def ses_put_session)

lemma tcp_put_conn_frame [simp]:
  "h_futures (tcp_put_conn s h w) = h_futures w" "h_loops (tcp_put_conn s h w) = h_loops w"
  "length (w_sessions (tcp_put_conn s h w)) = length (w_sessions w)" "w_net (tcp_put_conn s h w) = w_net w"
  "table (tcp_put_conn s h w) s' = table w s'" "s_loop (ses (tcp_put_conn s h w) s') = s_loop (ses w s')"
  "s_addr (ses (tcp_put_conn s h w) s') = s_addr (ses w s')"
  "s_handles (ses (tcp_put_conn s h w) s') = s_handles (ses w s')"
  by (simp_all add: tcp_put_conn_def)

lemma conn_put_conn: "s < length (w_sessions w) \<Longrightarrow> tc_conn (tcp (tcp_put_conn s h w) s) = h"
  by (simp add: tcp_put_conn_def tcp_put_tcp)

lemma tcp_put_table [simp]: "tcp (put_table s m w) s' = tcp w s'"
  by (simp add: tcp_def put_table_def ses_put_session)

lemma tcp_complete_all [simp]: "tcp (complete_all err fs w) s = tcp w s"
  by (simp add: tcp_def)

lemma tcp_net [simp]: "tcp (w\<lparr>w_net := n\<rparr>) s = tcp w s"
  by (simp add: tcp_def)

lemma tcp_fail_all [simp]:
  "tcp (on_connect_failed s w) s' = tcp w s'" "tcp (on_system_error s err w) s' = tcp w s'"
  by (simp_all add: fail_all_eq)

lemma fail_all_frame [simp]:
  "s < length (w_sessions w) \<Longrightarrow> table (on_connect_failed s w) s = []"
  "s < length (w_sessions w) \<Longrightarrow> table (on_system_error s err w) s = []"
  "w_net (on_connect_failed s w) = w_net w"
  "length (w_sessions (on_connect_failed s w)) = length (w_sessions w)"
  "length (w_sessions (on_system_error s err w)) = length (w_sessions w)"
  by (simp_all add: fail_all_eq table_put_table)

lemma give_up_simps:
  assumes "s < length (w_sessions w)"
  shows "\<not> sh_open (tc_conn (tcp (connect_give_up s w) s))" "table (connect_give_up s w) s = []"
    "w_net (connect_give_up s w) = w_net w" "\<not> tc_timer (tcp (connect_give_up s w) s)"
    "(k, f) \<in> set (table w s) \<Longrightarrow> f < length (h_futures w) \<Longrightarrow>
      fut (connect_give_up s w) f = failed_with CONNECT_ERROR (fut w f)"
  using assms
  by (simp_all add: connect_give_up_def tcp_close_socket_def tcp_cancel_timer_def tcp_put_conn_def tcp_put_tcp)
     (force simp: fail_all_eq fut_complete_all)

section \<open>Failing and working connections\<close>

abbreviation loop_running :: "('x, 'ip, 't, 'n, 'z) world_scheme \<Rightarrow> sid \<Rightarrow> bool" where
  "loop_running w s \<equiv> is_running (h_loops w ! s_loop (ses w s))"

lemma flush_running: "loop_running w s \<Longrightarrow> flush_if_idle a d s w = (None, w)"
  by (simp add: flush_if_idle_def)

text \<open>A peer that refuses every connection, and the network after one attempt.\<close>

definition refuses :: "('ip, 'b, 'n) asio \<Rightarrow> sid \<Rightarrow> bool" where
  "refuses a s \<longleftrightarrow> (\<forall>ad n. fst (sock_connect a s ad n) \<notin> {0, ETIMEDOUT})"

definition after_connect :: "('ip, 'b, 'n) asio \<Rightarrow> sid \<Rightarrow> 'ip address \<Rightarrow> 'n \<Rightarrow> 'n" where
  "after_connect a s ad n = snd (snd (sock_connect a s ad n))"

lemma try_connect_step:
  assumes "flush_if_idle a d s w = (None, w1)" "w2 = put_tcp s ((tcp w1 s)\<lparr>tc_connecting := c + 1\<rparr>) w1"
    and "sock_connect a s (s_addr (ses w2 s)) (w_net w2) = (ec, op, n)"
    and "w3 = tcp_put_conn s ((tc_conn (tcp w2 s))\<lparr>sh_open := op\<rparr>) (w2\<lparr>w_net := n\<rparr>)"
  shows "try_connect a d s limit c w =
    (if ec \<noteq> 0 then
       (if ec \<noteq> ETIMEDOUT \<and> c + 1 < limit then try_connect a d s limit (c + 1) w3
        else (None, connect_give_up s w3))
     else (None, on_connect_success d s w3))"
  unfolding try_connect.simps[of a d s limit c w] Let_def using assms by simp

lemma try_connect_refused:
  assumes "refuses a s" "loop_running w s" "s < length (w_sessions w)"
    and "try_connect a d s limit c w = (e, w')"
  shows "e = None \<and> \<not> sh_open (tc_conn (tcp w' s)) \<and> table w' s = [] \<and>
    (\<forall>(k, f) \<in> set (table w s). f < length (h_futures w) \<longrightarrow> fut w' f = failed_with CONNECT_ERROR (fut w f)) \<and>
    w_net w' = (after_connect a s (s_addr (ses w s)) ^^ nat (max 1 (limit - c))) (w_net w)"
  using assms
proof (induction a d s limit c w arbitrary: e w' rule: try_connect.induct)
  case (1 a d s limit c w)
  define w2 where "w2 = put_tcp s ((tcp w s)\<lparr>tc_connecting := c + 1\<rparr>) w"
  obtain ec op n where co: "sock_connect a s (s_addr (ses w2 s)) (w_net w2) = (ec, op, n)"
    by (cases "sock_connect a s (s_addr (ses w2 s)) (w_net w2)")
  define w3 where "w3 = tcp_put_conn s ((tc_conn (tcp w2 s))\<lparr>sh_open := op\<rparr>) (w2\<lparr>w_net := n\<rparr>)"
  have co': "sock_connect a s (s_addr (ses w s)) (w_net w) = (ec, op, n)" using co by (simp add: w2_def)
  have ec: "ec \<noteq> 0" "ec \<noteq> ETIMEDOUT" using 1(2) co' by (metis fst_conv insertCI refuses_def)+
  have w3: "loop_running w3 s" "s < length (w_sessions w3)" "s_addr (ses w3 s) = s_addr (ses w s)"
    "w_net w3 = after_connect a s (s_addr (ses w s)) (w_net w)" "table w3 s = table w s"
    "h_futures w3 = h_futures w"
    using 1(3,4) co' by (simp_all add: w3_def w2_def after_connect_def)
  note fl = flush_running[OF 1(3), of a d]
  note step = try_connect_step[OF fl w2_def co w3_def, of limit]
  show ?case
  proof (cases "c + 1 < limit")
    case True
    with 1(5) ec step have e: "try_connect a d s limit (c + 1) w3 = (e, w')" by simp
    have m: "nat (max 1 (limit - c)) = Suc (nat (max 1 (limit - (c + 1))))" using True by simp
    have "e = None \<and> \<not> sh_open (tc_conn (tcp w' s)) \<and> table w' s = [] \<and>
      (\<forall>(k, f) \<in> set (table w3 s). f < length (h_futures w3) \<longrightarrow> fut w' f = failed_with CONNECT_ERROR (fut w3 f)) \<and>
      w_net w' = (after_connect a s (s_addr (ses w3 s)) ^^ nat (max 1 (limit - (c + 1)))) (w_net w3)"
      by (rule 1(1)[OF fl[symmetric] refl w2_def refl co[symmetric] refl w3_def _ _ 1(2) w3(1,2) e])
         (use ec True in simp_all)
    with w3(3-6) show ?thesis unfolding m by (simp add: funpow_swap1)
  next
    case False
    with 1(5) ec step have "e = None" "w' = connect_give_up s w3" by simp_all
    moreover have "nat (max 1 (limit - c)) = 1" using False by simp
    ultimately show ?thesis using give_up_simps[OF w3(2)] w3(4-6) by auto
  qed
qed

lemma tcp_connect_refused:
  assumes "refuses a s" "loop_running w s" "s < length (w_sessions w)"
  shows "\<exists>w'. tcp_connect a d s w = (Some new_connect_error, w') \<and> \<not> sh_open (tc_conn (tcp w' s)) \<and>
    table w' s = [] \<and>
    (\<forall>(k, f) \<in> set (table w s). f < length (h_futures w) \<longrightarrow> fut w' f = failed_with CONNECT_ERROR (fut w f)) \<and>
    w_net w' = (after_connect a s (s_addr (ses w s)) ^^ nat (max 1 (tc_reconnect_limit (tcp w s)))) (w_net w)"
proof -
  define w1 where "w1 = put_tcp s ((tcp w s)\<lparr>tc_timer_secs := trunc_rat (tc_connect_timeout (tcp w s)),
      tc_timer := True, tc_connecting := 0\<rparr>) w"
  obtain e w' where t: "try_connect a d s (tc_reconnect_limit (tcp w1 s)) 0 w1 = (e, w')"
    by (cases "try_connect a d s (tc_reconnect_limit (tcp w1 s)) 0 w1")
  have 1: "loop_running w1 s" "s < length (w_sessions w1)" "w_net w1 = w_net w"
    "s_addr (ses w1 s) = s_addr (ses w s)" "tc_reconnect_limit (tcp w1 s) = tc_reconnect_limit (tcp w s)"
    "table w1 s = table w s" "h_futures w1 = h_futures w"
    using assms by (simp_all add: w1_def tcp_put_tcp)
  from try_connect_refused[OF assms(1) 1(1,2) t] t 1 show ?thesis
    by (simp add: tcp_connect_def Let_def flip: w1_def)
qed

lemma tcp_send_data_refused:
  assumes "refuses a s" "loop_running w s" "s < length (w_sessions w)" "\<not> sh_open (tc_conn (tcp w s))"
  shows "\<exists>w'. tcp_send_data a d s buf w = (Some new_connect_error, w') \<and> \<not> sh_open (tc_conn (tcp w' s)) \<and>
    table w' s = [] \<and>
    (\<forall>(k, f) \<in> set (table w s). f < length (h_futures w) \<longrightarrow> fut w' f = failed_with CONNECT_ERROR (fut w f)) \<and>
    w_net w' = (after_connect a s (s_addr (ses w s)) ^^ nat (max 1 (tc_reconnect_limit (tcp w s)))) (w_net w)"
proof -
  from tcp_connect_refused[OF assms(1-3), of d] obtain w' where "tcp_connect a d s w = (Some new_connect_error, w')"
    and rest: "\<not> sh_open (tc_conn (tcp w' s))" "table w' s = []"
    "\<forall>(k, f) \<in> set (table w s). f < length (h_futures w) \<longrightarrow> fut w' f = failed_with CONNECT_ERROR (fut w f)"
    "w_net w' = (after_connect a s (s_addr (ses w s)) ^^ nat (max 1 (tc_reconnect_limit (tcp w s)))) (w_net w)"
    by blast
  with assms(4) have "tcp_send_data a d s buf w = (Some new_connect_error, w')"
    by (simp add: tcp_send_data_def flush_running[OF assms(2)])
  with rest show ?thesis by blast
qed

text \<open>Over an open connection the bytes of the buffer are written, nothing else happens.\<close>

lemma tcp_send_data_open:
  assumes "loop_running w s" "sh_open (tc_conn (tcp w s))"
    and "sock_write a s (outbuf_bytes buf) (w_net w) = (None, n)"
  shows "tcp_send_data a d s buf w = (None, w\<lparr>w_net := n\<rparr>)"
  using assms
  by (simp add: tcp_send_data_def flush_running stream_send_data_def tcp_client_vt_def tcp_sock_write_def)

text \<open>A connection that is accepted at the first attempt.\<close>

lemma put_tcp_rr [simp]: "s_msgid_rr (ses (put_tcp s t w) s') = s_msgid_rr (ses w s')"
  "s_msgid_rr (ses (tcp_put_conn s h w) s') = s_msgid_rr (ses w s')"
  by (simp_all add: put_tcp_def tcp_put_conn_def ses_put_session)

lemma tcp_connect_accepted:
  assumes "loop_running w s" "s < length (w_sessions w)"
    and "sock_connect a s (s_addr (ses w s)) (w_net w) = (0, True, n)"
  shows "\<exists>w'. tcp_connect a d s w = (None, w') \<and>
    tc_conn (tcp w' s) = \<lparr>sh_pac = pac_reserve d (sh_pac (tc_conn (tcp w s))), sh_open = True, sh_reading = True\<rparr> \<and>
    \<not> tc_timer (tcp w' s) \<and> w_net w' = n \<and> h_futures w' = h_futures w \<and> h_loops w' = h_loops w \<and> table w' s = table w s \<and>
    s_msgid_rr (ses w' s) = s_msgid_rr (ses w s) \<and> s_handles (ses w' s) = s_handles (ses w s) \<and>
    s_loop (ses w' s) = s_loop (ses w s) \<and> length (w_sessions w') = length (w_sessions w)"
proof -
  define w1 where "w1 = put_tcp s ((tcp w s)\<lparr>tc_timer_secs := trunc_rat (tc_connect_timeout (tcp w s)),
      tc_timer := True, tc_connecting := 0\<rparr>) w"
  define w2 where "w2 = put_tcp s ((tcp w1 s)\<lparr>tc_connecting := 0 + 1\<rparr>) w1"
  define w3 where "w3 = tcp_put_conn s ((tc_conn (tcp w2 s))\<lparr>sh_open := True\<rparr>) (w2\<lparr>w_net := n\<rparr>)"
  define w' where "w' = on_connect_success d s w3"
  have run1: "loop_running w1 s" using assms(1) by (simp add: w1_def)
  have co: "sock_connect a s (s_addr (ses w2 s)) (w_net w2) = (0, True, n)"
    using assms(3) by (simp add: w2_def w1_def)
  have t: "try_connect a d s l 0 w1 = (None, w')" for l
    unfolding w'_def by (simp add: try_connect_step[OF flush_running[OF run1] w2_def co w3_def])
  have s3: "s < length (w_sessions w3)" using assms(2) by (simp add: w3_def w2_def w1_def)
  have facts: "tc_conn (tcp w' s) = \<lparr>sh_pac = pac_reserve d (sh_pac (tc_conn (tcp w s))), sh_open = True, sh_reading = True\<rparr>"
    "\<not> tc_timer (tcp w' s)"
    using s3 assms(2)
    by (simp_all add: w'_def on_connect_success_def tcp_cancel_timer_def Let_def tcp_put_conn_def tcp_put_tcp stream_start_def)
       (simp add: w3_def w2_def w1_def conn_put_conn tcp_put_tcp)
  moreover have "tcp_connect a d s w = (None, w')"
    using t facts(1) by (simp add: tcp_connect_def Let_def flip: w1_def)
  ultimately show ?thesis
    using assms(1)
    by (simp add: w'_def on_connect_success_def tcp_cancel_timer_def Let_def w3_def w2_def w1_def)
qed

lemma tcp_send_data_accepted:
  assumes "loop_running w s" "s < length (w_sessions w)" "\<not> sh_open (tc_conn (tcp w s))"
    and "sock_connect a s (s_addr (ses w s)) (w_net w) = (0, True, n)"
    and "sock_write a s (outbuf_bytes buf) n = (None, n')"
  shows "\<exists>w'. tcp_send_data a d s buf w = (None, w') \<and> sh_open (tc_conn (tcp w' s)) \<and> sh_reading (tc_conn (tcp w' s)) \<and>
    w_net w' = n' \<and> h_futures w' = h_futures w \<and> table w' s = table w s \<and>
    s_msgid_rr (ses w' s) = s_msgid_rr (ses w s) \<and> length (w_sessions w') = length (w_sessions w)"
proof -
  from tcp_connect_accepted[OF assms(1,2,4), of d] obtain w1 where w1: "tcp_connect a d s w = (None, w1)"
    "tc_conn (tcp w1 s) = \<lparr>sh_pac = pac_reserve d (sh_pac (tc_conn (tcp w s))), sh_open = True, sh_reading = True\<rparr>" "w_net w1 = n" "h_futures w1 = h_futures w"
    "table w1 s = table w s" "s_msgid_rr (ses w1 s) = s_msgid_rr (ses w s)"
    "length (w_sessions w1) = length (w_sessions w)" by blast
  have "tcp_send_data a d s buf w = (None, stream_send_data (tcp_sock_write a s) (tcp_client_vt s) buf w1)"
    using assms(3) w1(1) by (simp add: tcp_send_data_def flush_running[OF assms(1)])
  also have "stream_send_data (tcp_sock_write a s) (tcp_client_vt s) buf w1 = w1\<lparr>w_net := n'\<rparr>"
    using w1(2,3) assms(5) by (simp add: stream_send_data_def tcp_client_vt_def tcp_sock_write_def)
  finally show ?thesis using w1 by simp
qed

lemma tcp_send_data_bytes:
  fixes w :: "('b, 'c, 'd tcp_client, 'e, 'f) world_scheme"
  shows "outbuf_bytes buf = outbuf_bytes buf' \<Longrightarrow> tcp_send_data a d s buf w = tcp_send_data a d s buf' w"
proof -
  assume "outbuf_bytes buf = outbuf_bytes buf'"
  then have eq: "stream_send_data (tcp_sock_write a s) (tcp_client_vt s) buf =
      (stream_send_data (tcp_sock_write a s) (tcp_client_vt s) buf' ::
        ('b, 'c, 'd tcp_client, 'e, 'f) world_scheme \<Rightarrow> _)"
    by (simp add: stream_send_data_def fun_eq_iff)
  show ?thesis unfolding tcp_send_data_def eq ..
qed

lemma registered_tcp [simp]: "tcp (registered s w) s' = tcp w s'"
  by (simp add: registered_def register_session_simps next_msgid_simps tcp_def)

lemma send_request_open:
  assumes "loop_running w s" "s < length (w_sessions w)" "sh_open (tc_conn (tcp w s))"
    and "sock_write a s (outbuf_bytes (request_buf pk m p z (s_msgid_rr (ses w s)))) (w_net w) = (None, n)"
  shows "send_request pk (tcp_send_data a d) s m p z w =
    (Inr \<lparr>fu_method = m, fu_pimpl = Some (length (h_futures w))\<rparr>, (registered s w)\<lparr>w_net := n\<rparr>)"
proof -
  have "tcp_send_data a d s (request_buf pk m p z (s_msgid_rr (ses w s))) (registered s w) =
      (None, (registered s w)\<lparr>w_net := n\<rparr>)"
    using assms by (intro tcp_send_data_open) (simp_all add: registered_simps)
  then show ?thesis by (simp add: send_request_eq)
qed

text \<open>
  The serialisation into a vector of references and the serialisation into one block are
  interchangeable, if msgpack packs the same bytes in both forms.
\<close>

definition vpack_agrees :: "('x, 'b) packer \<Rightarrow> bool" where
  "vpack_agrees pk \<longleftrightarrow> (\<forall>r. concat (vpack_request pk r) = pack_request pk r) \<and>
     (\<forall>r. concat (vpack_notify pk r) = pack_notify pk r)"

lemma send_request_zone:
  assumes "vpack_agrees pk"
  shows "send_request pk (tcp_send_data a d) s m p z w = send_request pk (tcp_send_data a d) s m p z' w"
proof -
  have "outbuf_bytes (request_buf pk m p z i) = outbuf_bytes (request_buf pk m p z' i)" for i
    using assms by (simp add: request_buf_def vpack_agrees_def)
  then show ?thesis unfolding send_request_eq by (subst tcp_send_data_bytes) auto
qed

lemma send_notify_zone:
  assumes "vpack_agrees pk"
  shows "send_notify pk (tcp_send_data a d) s m p z w = send_notify pk (tcp_send_data a d) s m p z' w"
  using assms
  by (auto simp: vpack_agrees_def send_notify_def send_notify_impl_def Let_def intro!: tcp_send_data_bytes)

section \<open>Read events of a client\<close>

text \<open>The references that handles hold to sessions are not touched by what a client reads.\<close>

definition keeps_handles ::
  "('x, 'ip, 't, 'n, 'z) world_scheme \<Rightarrow> ('x, 'ip, 't, 'n, 'z) world_scheme \<Rightarrow> bool" where
  "keeps_handles w w' \<longleftrightarrow> length (w_sessions w') = length (w_sessions w) \<and>
     (\<forall>s. s_handles (ses w' s) = s_handles (ses w s))"

lemma keeps_on_response: "keeps_handles w (on_response s i r e z w)"
  by (simp add: keeps_handles_def on_response_def Let_def split: prod.split option.split)

lemma keeps_on_system_error: "keeps_handles w (client_on_system_error s err w)"
  by (simp add: keeps_handles_def client_on_system_error_def tcp_close_socket_def fail_all_eq Let_def)

interpretation tcp_keep: message_handler "tcp_client_vt s" "\<lambda>_. True" keeps_handles for s
proof (unfold_locales, goal_cases)
  case (1 w)
  show ?case by (simp add: keeps_handles_def)
next
  case (2 w w' w'')
  then show ?case by (simp add: keeps_handles_def)
next
  case (3 w w')
  then show ?case by simp
next
  case (4 w h)
  then show ?case by (simp add: tcp_client_vt_def keeps_handles_def)
next
  case (5 w i a b z)
  then show ?case by (simp add: tcp_client_vt_def client_on_request_def keeps_handles_def)
next
  case (6 w i a b z)
  then show ?case
    by (simp add: tcp_client_vt_def client_on_response_def keeps_on_response) (simp add: keeps_handles_def)
next
  case (7 w a b z)
  then show ?case by (simp add: tcp_client_vt_def client_on_notify_def on_notify_def keeps_handles_def)
next
  case (8 w err)
  then show ?case by (simp add: tcp_client_vt_def keeps_on_system_error)
qed

text \<open>What msgpack's decoder throws derives from \<^verbatim>\<open>std::exception\<close>.\<close>

definition pac_throws_std :: "('x, 'b, 'u) decoder \<Rightarrow> bool" where
  "pac_throws_std d \<longleftrightarrow> (\<forall>u e. fst (snd (pac_next_all d u)) = Some e \<longrightarrow> is_std_exception e)"

lemma client_message_std:
  "stream_on_message d (tcp_client_vt s) msg z w = (Some e, w') \<Longrightarrow> is_std_exception e"
  by (auto simp: stream_on_message_def tcp_client_vt_def client_on_request_def client_on_response_def
      client_on_notify_def split: option.splits if_splits)

lemma client_read_loop_std:
  "read_loop d (tcp_client_vt s) ms fin w = (Some e, w') \<Longrightarrow>
    (\<And>e'. fst fin = Some e' \<Longrightarrow> is_std_exception e') \<Longrightarrow> is_std_exception e"
proof (induction ms arbitrary: w)
  case Nil
  then show ?case by (cases fin) auto
next
  case (Cons m ms)
  obtain msg zn u where m: "m = (msg, zn, u)" by (cases m)
  obtain e1 w1 where st: "stream_on_message d (tcp_client_vt s) msg (Some zn) (set_pac (tcp_client_vt s) u w) = (e1, w1)"
    by (cases "stream_on_message d (tcp_client_vt s) msg (Some zn) (set_pac (tcp_client_vt s) u w)")
  show ?case
    using Cons.IH[OF _ Cons.prems(2)] Cons.prems(1) m st client_message_std[of d s msg "Some zn"]
    by (cases e1) auto
qed

lemma client_fail_closes:
  assumes "s < length (w_sessions w)" "0 < s_handles (ses w s)" "w' = stream_fail d (tcp_client_vt s) err w"
  shows "\<not> sh_open (tc_conn (tcp w' s))" "table w' s = []"
proof -
  have alive: "session_alive w s" using assms(1,2) by (simp add: session_alive_def use_count_def)
  let ?w1 = "client_on_system_error s err w"
  have 1: "table ?w1 s = []" "\<not> sh_open (tc_conn (tcp ?w1 s))" "s < length (w_sessions ?w1)"
    using assms(1) alive
    by (auto simp: client_on_system_error_def Let_def tcp_close_socket_def conn_put_conn)
  then show "\<not> sh_open (tc_conn (tcp w' s))" "table w' s = []"
    by (simp_all add: assms(3) stream_fail_def set_pac_def tcp_client_vt_def conn_put_conn Let_def)
qed

text \<open>A read event without the bookkeeping: what the loop over the messages makes of it.\<close>

lemma client_on_read_cases:
  assumes "pac_throws_std d" "s < length (w_sessions w)" "0 < s_handles (ses w s)"
    and "stream_on_read d (tcp_client_vt s) err bytes w = (e, w')"
  shows "e = None \<and> (err = 0 \<and> sh_reading (tc_conn (tcp w' s)) \<or>
    \<not> sh_open (tc_conn (tcp w' s)) \<and> table w' s = [])"
proof -
  let ?vt = "tcp_client_vt s"
  define w1 where "w1 = vt_put ?vt ((vt_get ?vt w)\<lparr>sh_reading := False\<rparr>) w"
  define u where "u = pac_consumed d bytes (sh_pac (vt_get ?vt w1))"
  obtain ms fin where nx: "pac_next_all d u = (ms, fin)" by (cases "pac_next_all d u")
  obtain e1 w3 where l: "read_loop d ?vt ms fin (set_pac ?vt u w1) = (e1, w3)"
    by (cases "read_loop d ?vt ms fin (set_pac ?vt u w1)")
  have k1: "keeps_handles w w1" using tcp_keep.put_rel[of w s] by (simp add: w1_def)
  have k2: "keeps_handles w (set_pac ?vt u w1)" by (rule tcp_keep.rel_trans[OF k1 tcp_keep.set_pac_rel]) simp
  have k3: "keeps_handles w w3"
    using tcp_keep.rel_trans[OF k2 tcp_keep.read_loop_rel[OF TrueI, where d = d and ms = ms and fin = fin and s = s]] l by simp
  have ok1: "s < length (w_sessions w1)" "0 < s_handles (ses w1 s)" using k1 assms(2,3) by (auto simp: keeps_handles_def)
  have ok3: "s < length (w_sessions w3)" "0 < s_handles (ses w3 s)" using k3 assms(2,3) by (auto simp: keeps_handles_def)
  have std: "is_std_exception x" if "e1 = Some x" for x
    using client_read_loop_std[of d s ms fin "set_pac ?vt u w1" x w3] l that assms(1) nx
    by (auto simp: pac_throws_std_def dest: spec[of _ u])
  have "e = None \<and> (w' = stream_fail d ?vt err w1 \<or> w' = stream_fail d ?vt err w3 \<or>
      err = 0 \<and> w' = vt_put ?vt (stream_start d (vt_get ?vt w3)) w3)"
    using assms(4) nx l std
    by (cases e1) (auto simp: stream_on_read_def Let_def simp flip: w1_def u_def split: if_splits)
  then show ?thesis
    using client_fail_closes[OF ok1, of w' d err] client_fail_closes[OF ok3, of w' d err] ok3(1)
    by (auto simp: tcp_client_vt_def conn_put_conn stream_start_def)
qed

text \<open>A single response on the connection.\<close>

lemma tcp_set_result [simp]: "tcp (set_result f r e z w) s = tcp w s"
  by (simp add: tcp_def)

lemma client_reads_response:
  assumes "pac_next_all d (pac_consumed d bytes (sh_pac (tc_conn (tcp w s)))) = ([(msg, zn, u)], None, u')"
    and "pac_message_size d u' \<le> max_message_size"
    and "conv_rpc d msg = Some rpc" "is_response rpc" "conv_response d msg = Some res"
    and "table_wf w" "s < length (w_sessions w)" "0 < s_handles (ses w s)" "(res_msgid res, f) \<in> set (table w s)"
  shows "\<exists>w'. stream_on_read d (tcp_client_vt s) 0 bytes w = (None, w') \<and>
    sh_reading (tc_conn (tcp w' s)) \<and> sh_open (tc_conn (tcp w' s)) = sh_open (tc_conn (tcp w s)) \<and>
    table w' s = AList.delete (res_msgid res) (table w s) \<and>
    ready w' f \<and> f_result (fut w' f) = res_result res \<and> f_error (fut w' f) = res_error res \<and>
    f_zone (fut w' f) = Some zn \<and> (\<forall>g < length (h_futures w). g \<noteq> f \<longrightarrow> fut w' g = fut w g)"
proof -
  let ?vt = "tcp_client_vt s"
  define u0 where "u0 = pac_consumed d bytes (sh_pac (tc_conn (tcp w s)))"
  define w1 where "w1 = vt_put ?vt ((vt_get ?vt w)\<lparr>sh_reading := False\<rparr>) w"
  define w2 where "w2 = set_pac ?vt u (set_pac ?vt u0 w1)"
  define w3 where "w3 = set_result f (res_result res) (res_error res) (Some zn)
      (put_table s (AList.delete (res_msgid res) (table w2 s)) w2)"
  have pac: "sh_pac (vt_get ?vt w1) = sh_pac (tc_conn (tcp w s))"
    using assms(7) by (simp add: w1_def tcp_client_vt_def conn_put_conn)
  have w2: "table w2 s = table w s" "h_futures w2 = h_futures w" "length (w_sessions w2) = length (w_sessions w)"
    "s_handles (ses w2 s) = s_handles (ses w s)" "sh_open (tc_conn (tcp w2 s)) = sh_open (tc_conn (tcp w s))"
    using assms(7) by (simp_all add: w2_def w1_def set_pac_def tcp_client_vt_def conn_put_conn)
  have "map_of (table w2 s) (res_msgid res) = Some f"
    using assms(6,7,9) w2(1) by (simp add: map_of_table_iff)
  moreover have "session_alive w2 s" using assms(7,8) w2 by (simp add: session_alive_def use_count_def)
  ultimately have "stream_on_message d ?vt msg (Some zn) w2 = (None, w3)"
    using assms(3-5) unfolding w3_def
    by (simp add: stream_on_message_def is_response_def protocol_consts tcp_client_vt_def
        client_on_response_def on_response_known)
  then have loop: "read_loop d ?vt [(msg, zn, u)] (None, u') (set_pac ?vt u0 w1) = (None, set_pac ?vt u' w3)"
    by (simp flip: w2_def)
  have w3: "s < length (w_sessions w3)" "tcp w3 s = tcp w2 s" "table w3 s = AList.delete (res_msgid res) (table w s)"
    using assms(7) w2 by (simp_all add: w3_def table_put_table)
  have size: "\<not> max_message_size < pac_message_size d (sh_pac (vt_get ?vt (set_pac ?vt u' w3)))"
    using assms(2) w3(1) by (simp add: set_pac_def tcp_client_vt_def conn_put_conn)
  define w4 where "w4 = vt_put ?vt (stream_start d (vt_get ?vt (set_pac ?vt u' w3))) (set_pac ?vt u' w3)"
  have "stream_on_read d ?vt 0 bytes w = (None, w4)"
    using assms(1) pac loop size by (simp add: stream_on_read_def Let_def w4_def flip: w1_def u0_def)
  moreover have "h_futures w4 = h_futures w3" "table w4 s = table w3 s"
    "tc_conn (tcp w4 s) = (tc_conn (tcp w3 s))\<lparr>sh_pac := pac_reserve d u', sh_reading := True\<rparr>"
    using w3(1) by (simp_all add: w4_def set_pac_def tcp_client_vt_def conn_put_conn stream_start_def)
  moreover have "f < length (h_futures w2)" using table_wfD(3)[OF assms(6,7,9)] w2(2) by simp
  ultimately show ?thesis
    using w2 w3 by (simp add: w3_def fut_set_result is_ready_def)
qed

section \<open>Reading responses\<close>

text \<open>
  A response as a client receives it, and what the client socket does with it. In whatever pieces the
  responses arrive, they are taken one after the other (\<open>client_frames\<close>).
\<close>

definition response_dec ::
  "('x, 'b, 'u) decoder \<Rightarrow> msgid \<times> 'x object \<times> 'x object \<Rightarrow> 'x object \<Rightarrow> bool" where
  "response_dec d m ob = (case m of (i, r, e) \<Rightarrow>
     conv_rpc d ob = Some \<lparr>rpc_type = RESPONSE\<rparr> \<and> conv_response d ob = Some (new_msg_response r e i))"

definition client_take ::
  "sid \<Rightarrow> msgid \<times> 'x object \<times> 'x object \<Rightarrow> zone \<Rightarrow> ('x, 'ip, 't, 'n, 'z) world_scheme \<Rightarrow>
   ('x, 'ip, 't, 'n, 'z) world_scheme"
where
  "client_take s m z w = (case m of (i, r, e) \<Rightarrow> on_response s i r e (Some z) w)"

lemma tcp_put_conn_again:
  "s < length (w_sessions w) \<Longrightarrow> tcp_put_conn s h (tcp_put_conn s h' w) = tcp_put_conn s h w"
  by (simp add: tcp_put_conn_def put_tcp_def put_session_def tcp_def)

lemma set_result_put_conn:
  "set_result f r e z (tcp_put_conn s h w) = tcp_put_conn s h (set_result f r e z w)"
  by (simp add: set_result_def Let_def put_future_def log_effects_def tcp_put_conn_def put_tcp_def put_session_def
     tcp_def split: option.split)

lemma on_response_put_conn:
  "s < length (w_sessions w) \<Longrightarrow>
    on_response s i r e z (tcp_put_conn s h w) = tcp_put_conn s h (on_response s i r e z w)"
proof -
  assume s: "s < length (w_sessions w)"
  have "put_table s m (tcp_put_conn s h w) = tcp_put_conn s h (put_table s m w)" for m
    using s by (cases "ses w s") (simp add: tcp_put_conn_def put_tcp_def put_table_def put_session_def tcp_def)
  then show ?thesis by (simp add: on_response_def Let_def set_result_put_conn split: prod.split option.split)
qed

interpretation client_frames: framed_reader d "tcp_client_vt s" "response_dec d" "client_take s"
  "\<lambda>w. s < length (w_sessions w) \<and> 0 < s_handles (ses w s)" for d s
proof (unfold_locales, goal_cases)
  case (1 w h)
  then show ?case by (simp add: tcp_client_vt_def conn_put_conn)
next
  case (2 h h' w)
  then show ?case by (simp add: tcp_client_vt_def tcp_put_conn_again)
next
  case (3 w h)
  then show ?case by (simp add: tcp_client_vt_def)
next
  case (4 w m z)
  then show ?case using keeps_on_response[of w s] by (simp add: client_take_def keeps_handles_def split: prod.split)
next
  case (5 w m z)
  then show ?case
    by (simp add: client_take_def tcp_client_vt_def on_response_def Let_def split: prod.split option.split)
next
  case (6 w h m z)
  then show ?case by (simp add: client_take_def tcp_client_vt_def on_response_put_conn split: prod.split)
next
  case (7 w m ob z)
  then show ?case
    by (auto simp: response_dec_def client_take_def stream_on_message_def protocol_consts tcp_client_vt_def
        client_on_response_def session_alive_def use_count_def new_msg_response_def)
qed

section \<open>Properties\<close>

definition sample_asio :: "errno \<Rightarrow> (nat, nat, nat) asio" where
  "sample_asio ec =
     \<lparr>sock_connect = (\<lambda>s ad n. (ec, ec = 0, n + 1)), sock_write = (\<lambda>s bs n. (None, n + length bs)),
      io_poll = (\<lambda>n. ([], n))\<rparr>"

definition sample_decoder :: "(nat, nat, unit) decoder" where
  "sample_decoder =
     \<lparr>pac_new = (), pac_reserve = id, pac_consumed = (\<lambda>bs u. u), pac_next_all = (\<lambda>u. ([], None, u)),
      pac_message_size = (\<lambda>u. 0), pac_remove_nonparsed = id, conv_rpc = (\<lambda>ob. None),
      conv_request = (\<lambda>ob. None), conv_response = (\<lambda>ob. None), conv_notify = (\<lambda>ob. None)\<rparr>"

definition sample_packer :: "(nat, nat) packer" where
  "sample_packer =
     \<lparr>pack_request = (\<lambda>m. [1, 2]), vpack_request = (\<lambda>m. [[1], [2]]), pack_notify = (\<lambda>m. [3]),
      vpack_notify = (\<lambda>m. [[3]]), pack_response = (\<lambda>m. [4]), vpack_response = (\<lambda>m. [[4]])\<rparr>"

definition sample_client :: "bool \<Rightarrow> (nat, nat, unit tcp_client, nat) world" where
  "sample_client op =
     \<lparr>h_futures = [], h_loops = [add_worker 1 new_loop], h_log = [],
      w_sessions = [(new_session_impl (Address 1 80) 0)
        \<lparr>s_tran := Some ((new_tcp_client sample_decoder new_tcp_builder)
           \<lparr>tc_conn := \<lparr>sh_pac = (), sh_open = op, sh_reading = op\<rparr>\<rparr>)\<rparr>],
      w_net = 0\<rparr>"

lemma sample_client_simps:
  "h_futures (sample_client op) = []" "length (w_sessions (sample_client op)) = 1"
  "table (sample_client op) 0 = []" "s_msgid_rr (ses (sample_client op) 0) = 1"
  "tc_reconnect_limit (tcp (sample_client op) 0) = 3" "sh_open (tc_conn (tcp (sample_client op) 0)) = op"
  "loop_running (sample_client op) 0" "w_net (sample_client op) = 0"
  "s_addr (ses (sample_client op) 0) = Address 1 80" "0 < s_handles (ses (sample_client op) 0)"
  "table_wf (sample_client op)" "sh_reading (tc_conn (tcp (sample_client op) 0)) = op"
  by (simp_all add: sample_client_def new_session_impl_def new_reqtable_def tcp_def new_tcp_client_def
      new_tcp_builder_def is_running_def add_worker_eq new_loop_def table_wf_def reqtable_invar_def)

text \<open>
  C17: If the peer refuses every connection, a call over TCP makes exactly \<open>max 1 m_reconnect_limit\<close>
  attempts, closes the socket and throws \<open>connect_error\<close>; the new request and every other
  outstanding request of the session are completed with the local connection error, and the request
  table is empty.
\<close>

theorem tcp_call_refused:
  assumes "refuses a s" "loop_running w s" "table_wf w" "s < length (w_sessions w)"
    and "\<not> sh_open (tc_conn (tcp w s))"
  shows "\<exists>w'. send_request pk (tcp_send_data a d) s m p z w = (Inl (connect_error ''connection failed''), w') \<and>
    table w' s = [] \<and> \<not> sh_open (tc_conn (tcp w' s)) \<and>
    ready w' (length (h_futures w)) \<and> f_error (fut w' (length (h_futures w))) = CONNECT_ERROR \<and>
    (\<forall>(k, f) \<in> set (table w s). k \<noteq> s_msgid_rr (ses w s) \<longrightarrow> ready w' f \<and> f_error (fut w' f) = CONNECT_ERROR) \<and>
    w_net w' = (after_connect a s (s_addr (ses w s)) ^^ nat (max 1 (tc_reconnect_limit (tcp w s)))) (w_net w)"
proof -
  let ?b = "request_buf pk m p z (s_msgid_rr (ses w s))"
  let ?r = "registered s w"
  have "loop_running ?r s" "s < length (w_sessions ?r)" "\<not> sh_open (tc_conn (tcp ?r s))"
    using assms by (simp_all add: registered_simps)
  from tcp_send_data_refused[OF assms(1) this, of d ?b] obtain w' where
    w': "tcp_send_data a d s ?b ?r = (Some new_connect_error, w')" "\<not> sh_open (tc_conn (tcp w' s))" "table w' s = []"
    and compl: "\<forall>(k, f) \<in> set (table ?r s). f < length (h_futures ?r) \<longrightarrow> fut w' f = failed_with CONNECT_ERROR (fut ?r f)"
    and net: "w_net w' = (after_connect a s (s_addr (ses w s)) ^^ nat (max 1 (tc_reconnect_limit (tcp w s)))) (w_net w)"
    by (auto simp: registered_simps assms(4))
  have all: "ready w' f \<and> f_error (fut w' f) = CONNECT_ERROR" if "(k, f) \<in> set (table ?r s)" for k f
    using bspec[OF compl that] table_wfD(3)[OF registered_wf[OF assms(3,4)] _ that] assms(4)
    by (simp add: registered_simps)
  have old: "ready w' f \<and> f_error (fut w' f) = CONNECT_ERROR"
    if "(k, f) \<in> set (table w s)" "k \<noteq> s_msgid_rr (ses w s)" for k f
    using that all[of k f] in_set_update_iff[OF table_wfD(2)[OF assms(3,4)]] assms(4)
    by (simp add: registered_simps)
  have "send_request pk (tcp_send_data a d) s m p z w = (Inl (connect_error ''connection failed''), w')"
    using w'(1) by (simp add: send_request_eq exn_consts)
  with w' net all[OF registered_entry[OF assms(3,4)]] old show ?thesis by (intro exI[of _ w']) auto
qed

lemma tcp_call_refused_witness:
  "\<exists>w'. send_request sample_packer (tcp_send_data (sample_asio 111) sample_decoder) 0 ''f'' [] None (sample_client False) =
     (Inl (connect_error ''connection failed''), w') \<and> table w' 0 = [] \<and>
     f_error (fut w' 0) = CONNECT_ERROR \<and> w_net w' = 3"
proof -
  have "refuses (sample_asio 111) 0" by (simp add: refuses_def sample_asio_def ETIMEDOUT_def)
  moreover have "(after_connect (sample_asio 111) 0 (Address 1 80) ^^ 3) 0 = 3"
    by (simp add: after_connect_def sample_asio_def numeral_eq_Suc)
  ultimately show ?thesis
    using tcp_call_refused[of "sample_asio 111" 0 "sample_client False" sample_packer sample_decoder "''f''" "[]" None]
    by (auto simp: sample_client_simps)
qed

text \<open>
  The first call of a session connects: if the peer accepts, the socket is open and reading, the
  packed request is written after the connection was made, and the future of the call waits in the
  table, where it was entered before anything was sent.
\<close>

lemma tcp_call_connects:
  assumes "loop_running w s" "table_wf w" "s < length (w_sessions w)" "\<not> sh_open (tc_conn (tcp w s))"
    and "sock_connect a s (s_addr (ses w s)) (w_net w) = (0, True, n)"
    and "sock_write a s (outbuf_bytes (request_buf pk m p z (s_msgid_rr (ses w s)))) n = (None, n')"
  shows "\<exists>w'. send_request pk (tcp_send_data a d) s m p z w =
      (Inr \<lparr>fu_method = m, fu_pimpl = Some (length (h_futures w))\<rparr>, w') \<and>
    sh_open (tc_conn (tcp w' s)) \<and> sh_reading (tc_conn (tcp w' s)) \<and> w_net w' = n' \<and>
    (s_msgid_rr (ses w s), length (h_futures w)) \<in> set (table w' s) \<and>
    h_futures w' = h_futures w @ [new_future_impl (s_msgid_rr (ses w s)) s (s_loop (ses w s)) (s_timeout (ses w s))]"
proof -
  let ?b = "request_buf pk m p z (s_msgid_rr (ses w s))"
  let ?r = "registered s w"
  have pre: "loop_running ?r s" "s < length (w_sessions ?r)" "\<not> sh_open (tc_conn (tcp ?r s))"
    "sock_connect a s (s_addr (ses ?r s)) (w_net ?r) = (0, True, n)"
    using assms by (simp_all add: registered_simps)
  from tcp_send_data_accepted[OF pre assms(6), of d] obtain w' where w': "tcp_send_data a d s ?b ?r = (None, w')"
    "sh_open (tc_conn (tcp w' s))" "sh_reading (tc_conn (tcp w' s))" "w_net w' = n'" "h_futures w' = h_futures ?r"
    "table w' s = table ?r s" by blast
  then have "send_request pk (tcp_send_data a d) s m p z w =
      (Inr \<lparr>fu_method = m, fu_pimpl = Some (length (h_futures w))\<rparr>, w')" by (simp add: send_request_eq)
  with w' registered_entry[OF assms(2,3)] show ?thesis using assms(3) by (simp add: registered_simps)
qed

text \<open>
  A read event of a TCP client never lets an exception out and either starts the next read or
  fails the connection: then the socket is closed and the request table empty, and in both cases
  every request that was outstanding is still in the table or has been completed. A read error always
  fails the connection.
\<close>

lemma tcp_client_read_outcome:
  assumes "pac_throws_std d" "table_wf w" "s < length (w_sessions w)" "0 < s_handles (ses w s)"
  shows "\<exists>w'. stream_on_read d (tcp_client_vt s) err bytes w = (None, w') \<and>
    (err = 0 \<and> sh_reading (tc_conn (tcp w' s)) \<or> \<not> sh_open (tc_conn (tcp w' s)) \<and> table w' s = []) \<and>
    (\<forall>(k, f) \<in> set (table w s). (k, f) \<in> set (table w' s) \<or> ready w' f)"
proof -
  obtain e w' where r: "stream_on_read d (tcp_client_vt s) err bytes w = (e, w')"
    by (cases "stream_on_read d (tcp_client_vt s) err bytes w")
  have ret: "retires w w'" using retiring.socket.on_read_rel[of w s d err bytes] assms(2,3) r by simp
  have "(k, f) \<in> set (table w' s) \<or> ready w' f" if "(k, f) \<in> set (table w s)" for k f
    using retiresD(9)[OF ret assms(3) that table_wfD(3)[OF assms(2,3) that]] .
  with r client_on_read_cases[OF assms(1,3,4) r] show ?thesis by auto
qed

text \<open>
  A client accepts no requests: if the first message of a read event is a request, the message is
  not dispatched, the connection is closed and all outstanding requests of the session are failed.
\<close>

lemma tcp_client_rejects_request:
  assumes "pac_next_all d (pac_consumed d bytes (sh_pac (tc_conn (tcp w s)))) = ((msg, zn, u) # ms, fin)"
    and "conv_rpc d msg = Some rpc" "is_request rpc" "s < length (w_sessions w)" "0 < s_handles (ses w s)"
  shows "\<exists>w'. stream_on_read d (tcp_client_vt s) 0 bytes w = (None, w') \<and>
    \<not> sh_open (tc_conn (tcp w' s)) \<and> table w' s = [] \<and> \<not> sh_reading (tc_conn (tcp w' s))"
proof -
  let ?vt = "tcp_client_vt s"
  define w1 where "w1 = vt_put ?vt ((vt_get ?vt w)\<lparr>sh_reading := False\<rparr>) w"
  define w2 where "w2 = set_pac ?vt u (set_pac ?vt (pac_consumed d bytes (sh_pac (tc_conn (tcp w s)))) w1)"
  have pac: "sh_pac (vt_get ?vt w1) = sh_pac (tc_conn (tcp w s))"
    using assms(4) by (simp add: w1_def tcp_client_vt_def conn_put_conn)
  have msg: "stream_on_message d ?vt msg (Some zn) w2 = (Some type_error, w2)"
    using assms(2,3)
    by (auto simp: stream_on_message_def tcp_client_vt_def client_on_request_def is_request_def split: option.split)
  have r: "stream_on_read d ?vt 0 bytes w = (None, stream_fail d ?vt 0 w2)"
    using assms(1) msg pac by (simp add: stream_on_read_def Let_def flip: w1_def w2_def)
  have ok2: "s < length (w_sessions w2)" "0 < s_handles (ses w2 s)" "\<not> sh_reading (tc_conn (tcp w2 s))"
    using assms(4,5) by (simp_all add: w2_def w1_def set_pac_def tcp_client_vt_def conn_put_conn)
  have "\<not> sh_reading (tc_conn (tcp (stream_fail d ?vt 0 w2) s))"
    using ok2 by (auto simp: stream_fail_def set_pac_def tcp_client_vt_def conn_put_conn Let_def
        client_on_system_error_def tcp_close_socket_def)
  with r client_fail_closes[OF ok2(1,2) refl] show ?thesis by auto
qed

end
