(* ===== verification/RPC_Request.thy ===== *)
theory RPC_Request
  imports RPC_Session
begin

text \<open>
  Requests on the side of a server (\<^verbatim>\<open>request.h\<close>, \<^verbatim>\<open>request_impl.h\<close>, \<^verbatim>\<open>request.cc\<close>). A request
  holds the sender of its response (\<^verbatim>\<open>m_ms\<close>) until the response is sent; the virtual
  \<open>message_sendable::send_data\<close> is an argument. Copies of a \<open>request\<close> share one \<open>request_impl\<close>, so
  requests live in a heap and are named by their index.
\<close>

section \<open>Definitions\<close>

record ('x, 'ms) request_impl =
  r_ms :: "'ms option"
  r_msgid :: msgid
  r_method :: "'x object"
  r_params :: "'x object"
  r_zone :: "zone option"

record ('x, 'ms) req_heap =
  q_requests :: "('x, 'ms) request_impl list"

type_synonym ('b, 'ms, 'w) ms_send = "'ms \<Rightarrow> 'b outbuf \<Rightarrow> 'w \<Rightarrow> exn option \<times> 'w"

definition new_request_impl ::
  "'ms option \<Rightarrow> msgid \<Rightarrow> 'x object \<Rightarrow> 'x object \<Rightarrow> zone option \<Rightarrow> ('x, 'ms) request_impl" where
  "new_request_impl ms msgid method params z =
     \<lparr>r_ms = ms, r_msgid = msgid, r_method = method, r_params = params, r_zone = z\<rparr>"

abbreviation rq :: "('x, 'ms, 'z) req_heap_scheme \<Rightarrow> nat \<Rightarrow> ('x, 'ms) request_impl" where
  "rq w q \<equiv> q_requests w ! q"

definition is_sent :: "nat \<Rightarrow> ('x, 'ms, 'z) req_heap_scheme \<Rightarrow> bool" where
  "is_sent q w = (r_ms (rq w q) = None)"

definition get_msgid :: "nat \<Rightarrow> ('x, 'ms, 'z) req_heap_scheme \<Rightarrow> 32 word" where
  "get_msgid q w = r_msgid (rq w q)"

text \<open>
  \<open>request_impl::send_data\<close>: the sender is dropped after it has returned, so an exception keeps it.
\<close>

definition request_send_data ::
  "('b, 'ms, ('x, 'ms, 'z) req_heap_scheme) ms_send \<Rightarrow> nat \<Rightarrow> 'b outbuf \<Rightarrow>
   ('x, 'ms, 'z) req_heap_scheme \<Rightarrow> exn option \<times> ('x, 'ms, 'z) req_heap_scheme"
where
  "request_send_data send q buf w =
     (case r_ms (rq w q) of
        None \<Rightarrow> (None, w)
      | Some ms \<Rightarrow>
          (case send ms buf w of
             (Some e, w') \<Rightarrow> (Some e, w')
           | (None, w') \<Rightarrow>
               (None, w'\<lparr>q_requests := (q_requests w')[q := (rq w' q)\<lparr>r_ms := None\<rparr>]\<rparr>)))"

text \<open>The two overloads of \<open>request::call\<close>.\<close>

definition request_call ::
  "('x, 'b) packer \<Rightarrow> ('b, 'ms, ('x, 'ms, 'z) req_heap_scheme) ms_send \<Rightarrow> nat \<Rightarrow>
   'x object \<Rightarrow> 'x object \<Rightarrow> ('x, 'ms, 'z) req_heap_scheme \<Rightarrow>
   exn option \<times> ('x, 'ms, 'z) req_heap_scheme"
where
  "request_call pk send q res err w =
     (if is_sent q w then (None, w)
      else request_send_data send q
             (Sbuf (pack_response pk (new_msg_response res err (get_msgid q w)))) w)"

definition request_call_zone ::
  "('x, 'b) packer \<Rightarrow> ('b, 'ms, ('x, 'ms, 'z) req_heap_scheme) ms_send \<Rightarrow> nat \<Rightarrow>
   'x object \<Rightarrow> 'x object \<Rightarrow> zone option \<Rightarrow> ('x, 'ms, 'z) req_heap_scheme \<Rightarrow>
   exn option \<times> ('x, 'ms, 'z) req_heap_scheme"
where
  "request_call_zone pk send q res err z w =
     (if is_sent q w then (None, w)
      else request_send_data send q
             (Vbuf (vpack_response pk (new_msg_response res err (get_msgid q w)))) w)"

text \<open>
  The replies of a server program: \<open>result(res)\<close>, \<open>result(res, zone)\<close>, \<open>result_nil()\<close>,
  \<open>error(err)\<close>, \<open>error(err, zone)\<close>, \<open>error(err, res)\<close>, \<open>error(err, res, zone)\<close>.
\<close>

datatype 'x reply =
    Result "'x object"
  | Result_zone "'x object" "zone option"
  | Result_nil
  | Error "'x object"
  | Error_zone "'x object" "zone option"
  | Error_result "'x object" "'x object"
  | Error_result_zone "'x object" "'x object" "zone option"

fun request_reply ::
  "('x, 'b) packer \<Rightarrow> ('b, 'ms, ('x, 'ms, 'z) req_heap_scheme) ms_send \<Rightarrow> nat \<Rightarrow> 'x reply \<Rightarrow>
   ('x, 'ms, 'z) req_heap_scheme \<Rightarrow> exn option \<times> ('x, 'ms, 'z) req_heap_scheme"
where
  "request_reply pk send q (Result res) w = request_call pk send q res NIL w"
| "request_reply pk send q (Result_zone res z) w = request_call_zone pk send q res NIL z w"
| "request_reply pk send q Result_nil w = request_call pk send q NIL NIL w"
| "request_reply pk send q (Error err) w = request_call pk send q NIL err w"
| "request_reply pk send q (Error_zone err z) w = request_call_zone pk send q NIL err z w"
| "request_reply pk send q (Error_result err res) w = request_call pk send q res err w"
| "request_reply pk send q (Error_result_zone err res z) w = request_call_zone pk send q res err z w"

fun reply_result :: "'x reply \<Rightarrow> 'x object" where
  "reply_result (Result res) = res"
| "reply_result (Result_zone res z) = res"
| "reply_result Result_nil = NIL"
| "reply_result (Error err) = NIL"
| "reply_result (Error_zone err z) = NIL"
| "reply_result (Error_result err res) = res"
| "reply_result (Error_result_zone err res z) = res"

fun reply_error :: "'x reply \<Rightarrow> 'x object" where
  "reply_error (Error err) = err"
| "reply_error (Error_zone err z) = err"
| "reply_error (Error_result err res) = err"
| "reply_error (Error_result_zone err res z) = err"
| "reply_error _ = NIL"

text \<open>
  \<^verbatim>\<open>request::type<Result>\<close> restricts the type of results; \<open>pk_res\<close> is msgpack's conversion of a
  \<open>Result\<close> to an object. The overload with an owned zone does not compile.
\<close>

definition typed_result ::
  "('a \<Rightarrow> 'x object) \<Rightarrow> ('x, 'b) packer \<Rightarrow> ('b, 'ms, ('x, 'ms, 'z) req_heap_scheme) ms_send \<Rightarrow> nat \<Rightarrow> 'a \<Rightarrow>
   ('x, 'ms, 'z) req_heap_scheme \<Rightarrow> exn option \<times> ('x, 'ms, 'z) req_heap_scheme"
where
  "typed_result pk_res pk send q res w = request_reply pk send q (Result (pk_res res)) w"

definition typed_result_zone ::
  "('a \<Rightarrow> 'x object) \<Rightarrow> ('x, 'b) packer \<Rightarrow> ('b, 'ms, ('x, 'ms, 'z) req_heap_scheme) ms_send \<Rightarrow> nat \<Rightarrow> 'a \<Rightarrow>
   zone option \<Rightarrow> ('x, 'ms, 'z) req_heap_scheme \<Rightarrow> exn option \<times> ('x, 'ms, 'z) req_heap_scheme"
where
  "typed_result_zone pk_res pk send q res z w = request_reply pk send q (Result_zone (pk_res res) z) w"

definition typed_result_void ::
  "('x, 'b) packer \<Rightarrow> ('b, 'ms, ('x, 'ms, 'z) req_heap_scheme) ms_send \<Rightarrow> nat \<Rightarrow>
   ('x, 'ms, 'z) req_heap_scheme \<Rightarrow> exn option \<times> ('x, 'ms, 'z) req_heap_scheme"
where
  "typed_result_void pk send q w = request_reply pk send q Result_nil w"

text \<open>Replies in sequence, up to the first exception.\<close>

fun request_replies ::
  "('x, 'b) packer \<Rightarrow> ('b, 'ms, ('x, 'ms, 'z) req_heap_scheme) ms_send \<Rightarrow> nat \<Rightarrow> 'x reply list \<Rightarrow>
   ('x, 'ms, 'z) req_heap_scheme \<Rightarrow> exn option \<times> ('x, 'ms, 'z) req_heap_scheme"
where
  "request_replies pk send q [] w = (None, w)"
| "request_replies pk send q (r # rs) w =
     (case request_reply pk send q r w of
        (Some e, w') \<Rightarrow> (Some e, w')
      | (None, w') \<Rightarrow> request_replies pk send q rs w')"

section \<open>Lemmas\<close>

lemma request_reply_sent: "is_sent q w \<Longrightarrow> request_reply pk send q r w = (None, w)"
  by (cases r) (simp_all add: request_call_def request_call_zone_def)

lemma request_replies_sent: "is_sent q w \<Longrightarrow> request_replies pk send q rs w = (None, w)"
  by (induction rs) (simp_all add: request_reply_sent)

lemma request_send_data_sent:
  "request_send_data send q buf w = (None, w') \<Longrightarrow> q < length (q_requests w') \<Longrightarrow> is_sent q w'"
  by (auto simp: request_send_data_def is_sent_def split: option.splits prod.splits)

lemma request_reply_sends:
  "request_reply pk send q r w = (None, w') \<Longrightarrow> q < length (q_requests w') \<Longrightarrow> is_sent q w'"
  by (cases r)
     (auto simp: request_call_def request_call_zone_def split: if_splits intro: request_send_data_sent)

text \<open>The message that a reply hands to the sender.\<close>

definition reply_buf :: "('x, 'b) packer \<Rightarrow> msgid \<Rightarrow> 'x reply \<Rightarrow> 'b outbuf" where
  "reply_buf pk i r =
     (let m = new_msg_response (reply_result r) (reply_error r) i
      in case r of
           Result_zone _ _ \<Rightarrow> Vbuf (vpack_response pk m)
         | Error_zone _ _ \<Rightarrow> Vbuf (vpack_response pk m)
         | Error_result_zone _ _ _ \<Rightarrow> Vbuf (vpack_response pk m)
         | _ \<Rightarrow> Sbuf (pack_response pk m))"

lemma request_reply_pending:
  "r_ms (rq w q) = Some ms \<Longrightarrow>
    request_reply pk send q r w =
      request_send_data send q (reply_buf pk (r_msgid (rq w q)) r) w"
  by (cases r) (simp_all add: request_call_def request_call_zone_def is_sent_def get_msgid_def
      reply_buf_def Let_def)

end
