(* ===== verification/RPC_Dgram.thy ===== *)
theory RPC_Dgram
  imports RPC_Tcp RPC_Request
begin

text \<open>
  Datagram sockets (\<^verbatim>\<open>transport/dgram_handler.h\<close>, \<^verbatim>\<open>transport/dgram_handler.cc\<close>) and the UDP
  transports built on them (\<^verbatim>\<open>transport/udp.h\<close>, \<^verbatim>\<open>transport/udp.cc\<close>).
\<close>

section \<open>Definitions\<close>

subsection \<open>dgram\_handler\<close>

record ('u, 'ep) dgram_handler =
  dg_pac :: 'u
  dg_open :: bool
  dg_receiving :: bool    \<comment> \<open>an \<open>async_receive_from\<close> is pending\<close>
  dg_remote :: 'ep        \<comment> \<open>\<open>m_remote\<close>: the source of the last datagram\<close>

record ('x, 'u, 'ep, 'w) dgram_vt =
  dvt_get :: "'w \<Rightarrow> ('u, 'ep) dgram_handler"
  dvt_put :: "('u, 'ep) dgram_handler \<Rightarrow> 'w \<Rightarrow> 'w"
  dvt_on_request :: "msgid \<Rightarrow> 'x object \<Rightarrow> 'x object \<Rightarrow> zone option \<Rightarrow> 'ep \<Rightarrow> 'w \<Rightarrow> exn option \<times> 'w"
  dvt_on_response :: "msgid \<Rightarrow> 'x object \<Rightarrow> 'x object \<Rightarrow> zone option \<Rightarrow> 'w \<Rightarrow> exn option \<times> 'w"
  dvt_on_notify :: "'x object \<Rightarrow> 'x object \<Rightarrow> zone option \<Rightarrow> 'w \<Rightarrow> exn option \<times> 'w"

definition new_dgram_handler :: "('x, 'b, 'u) decoder \<Rightarrow> 'ep \<Rightarrow> ('u, 'ep) dgram_handler" where
  "new_dgram_handler d any =
     \<lparr>dg_pac = pac_new d, dg_open = False, dg_receiving = False, dg_remote = any\<rparr>"

definition dgram_start :: "('u, 'ep) dgram_handler \<Rightarrow> ('u, 'ep) dgram_handler" where
  "dgram_start h = h\<lparr>dg_receiving := True\<rparr>"

definition dgram_on_message ::
  "('x, 'b, 'u) decoder \<Rightarrow> ('x, 'u, 'ep, 'w) dgram_vt \<Rightarrow> 'x object \<Rightarrow> zone option \<Rightarrow> 'ep \<Rightarrow> 'w \<Rightarrow>
   exn option \<times> 'w"
where
  "dgram_on_message d vt msg z ep w =
     (case conv_rpc d msg of
        None \<Rightarrow> (Some type_error, w)
      | Some rpc \<Rightarrow>
          if rpc_type rpc = REQUEST then
            (case conv_request d msg of
               None \<Rightarrow> (Some type_error, w)
             | Some req \<Rightarrow> dvt_on_request vt (req_msgid req) (req_method req) (req_param req) z ep w)
          else if rpc_type rpc = RESPONSE then
            (case conv_response d msg of
               None \<Rightarrow> (Some type_error, w)
             | Some res \<Rightarrow> dvt_on_response vt (res_msgid res) (res_result res) (res_error res) z w)
          else if rpc_type rpc = NOTIFY then
            (case conv_notify d msg of
               None \<Rightarrow> (Some type_error, w)
             | Some ntf \<Rightarrow> dvt_on_notify vt (ntf_method ntf) (ntf_param ntf) z w)
          else (Some type_error, w))"

definition dset_pac :: "('x, 'u, 'ep, 'w) dgram_vt \<Rightarrow> 'u \<Rightarrow> 'w \<Rightarrow> 'w" where
  "dset_pac vt u w = dvt_put vt ((dvt_get vt w)\<lparr>dg_pac := u\<rparr>) w"

fun dgram_read_loop ::
  "('x, 'b, 'u) decoder \<Rightarrow> ('x, 'u, 'ep, 'w) dgram_vt \<Rightarrow> 'ep \<Rightarrow> ('x object \<times> zone \<times> 'u) list \<Rightarrow>
   exn option \<times> 'u \<Rightarrow> 'w \<Rightarrow> exn option \<times> 'w"
where
  "dgram_read_loop d vt ep [] (e, u) w = (e, dset_pac vt u w)"
| "dgram_read_loop d vt ep ((msg, z, u) # ms) fin w =
     (case dgram_on_message d vt msg (Some z) ep (dset_pac vt u w) of
        (Some e, w') \<Rightarrow> (Some e, w')
      | (None, w') \<Rightarrow> dgram_read_loop d vt ep ms fin w')"

definition dgram_fail :: "('x, 'b, 'u) decoder \<Rightarrow> ('x, 'u, 'ep, 'w) dgram_vt \<Rightarrow> 'w \<Rightarrow> 'w" where
  "dgram_fail d vt w = dset_pac vt (pac_remove_nonparsed d (dg_pac (dvt_get vt w))) w"

text \<open>\<open>on_read\<close>: a datagram from \<open>ep\<close>, or an error. On success the next receive is started.\<close>

definition dgram_on_read ::
  "('x, 'b, 'u) decoder \<Rightarrow> ('x, 'u, 'ep, 'w) dgram_vt \<Rightarrow> errno \<Rightarrow> 'b list \<Rightarrow> 'ep \<Rightarrow> 'w \<Rightarrow>
   exn option \<times> 'w"
where
  "dgram_on_read d vt err bytes ep w0 =
     (let w = dvt_put vt ((dvt_get vt w0)\<lparr>dg_receiving := False, dg_remote := ep\<rparr>) w0
      in if err = 0 then
           let u = pac_consumed d bytes (dg_pac (dvt_get vt w));
               (ms, fin) = pac_next_all d u
           in case dgram_read_loop d vt ep ms fin (dset_pac vt u w) of
                (Some e, w') \<Rightarrow>
                  if is_std_exception e then (None, dgram_fail d vt w') else (Some e, w')
              | (None, w') \<Rightarrow>
                  (None, dvt_put vt (dgram_start ((dvt_get vt w')
                            \<lparr>dg_pac := pac_reserve d (dg_pac (dvt_get vt w'))\<rparr>)) w')
         else (None, dgram_fail d vt w))"

text \<open>
  \<open>send_data(ep, buf)\<close> calls \<open>send_to\<close>, whose error is thrown as \<open>system_error\<close>; \<open>send_data(buf)\<close>
  on an open socket first asks for the remote endpoint, which may throw as well.
\<close>

definition dgram_send_to ::
  "('ep \<Rightarrow> 'b list \<Rightarrow> 'w \<Rightarrow> errno option \<times> 'w) \<Rightarrow> 'ep \<Rightarrow> 'b outbuf \<Rightarrow> 'w \<Rightarrow> exn option \<times> 'w" where
  "dgram_send_to send_to ep buf w =
     (let (e, w') = send_to ep (outbuf_bytes buf) w in (map_option system_error e, w'))"

definition dgram_send_data ::
  "('w \<Rightarrow> errno + 'ep) \<Rightarrow> ('ep \<Rightarrow> 'b list \<Rightarrow> 'w \<Rightarrow> errno option \<times> 'w) \<Rightarrow>
   ('x, 'u, 'ep, 'w) dgram_vt \<Rightarrow> 'b outbuf \<Rightarrow> 'w \<Rightarrow> exn option \<times> 'w"
where
  "dgram_send_data remote_endpoint send_to vt buf w =
     (if \<not> dg_open (dvt_get vt w) then (None, w)
      else case remote_endpoint w of
             Inl ec \<Rightarrow> (Some (system_error ec), w)
           | Inr ep \<Rightarrow> dgram_send_to send_to ep buf w)"

subsection \<open>UDP client\<close>

record ('u, 'ep) udp_client =
  uc_conn :: "('u, 'ep) dgram_handler"
  uc_broadcast :: bool
  uc_options :: "string list"     \<comment> \<open>socket options set after connecting\<close>

text \<open>What the event loop may deliver to a UDP client.\<close>

datatype ('b, 'ep) udp_event =
    Udp_step_timer sid bool
  | Udp_read sid errno "'b list" 'ep
  | Udp_callback cbid fid

record ('ip, 'ep, 'b, 'n) udp_asio =
  udp_sock_connect :: "sid \<Rightarrow> 'ip address \<Rightarrow> 'n \<Rightarrow> errno \<times> 'n"
  udp_remote :: "sid \<Rightarrow> 'n \<Rightarrow> errno + 'ep"
  udp_send_to :: "sid \<Rightarrow> 'ep \<Rightarrow> 'b list \<Rightarrow> 'n \<Rightarrow> errno option \<times> 'n"
  udp_poll :: "'n \<Rightarrow> ('b, 'ep) udp_event list \<times> 'n"   \<comment> \<open>the handlers that are ready\<close>
  udp_any :: 'ep

record udp_builder =
  ub_timeout :: uint
  ub_broadcast :: bool

definition new_udp_builder :: udp_builder where
  "new_udp_builder = \<lparr>ub_timeout = 30, ub_broadcast = False\<rparr>"

definition set_broadcast :: "bool \<Rightarrow> udp_builder \<Rightarrow> udp_builder" where
  "set_broadcast val b = b\<lparr>ub_broadcast := val\<rparr>"

definition get_broadcast :: "udp_builder \<Rightarrow> bool" where
  "get_broadcast b = ub_broadcast b"

text \<open>\<open>client_socket::connect\<close> on the transport object alone: it touches no session.\<close>

definition udp_connect ::
  "('ip, 'ep, 'b, 'n) udp_asio \<Rightarrow> sid \<Rightarrow> 'ip address \<Rightarrow> ('u, 'ep) udp_client \<Rightarrow> 'n \<Rightarrow>
   ('u, 'ep) udp_client \<times> 'n"
where
  "udp_connect a s addr t n =
     (let (ec, n') = udp_sock_connect a s addr n
      in if ec \<noteq> 0 then (t\<lparr>uc_conn := (uc_conn t)\<lparr>dg_open := False\<rparr>\<rparr>, n')
         else (t\<lparr>uc_conn := dgram_start ((uc_conn t)\<lparr>dg_open := True\<rparr>),
                 uc_options := uc_options t @ ''reuse_address'' #
                   (if uc_broadcast t then [''broadcast''] else [])\<rparr>, n'))"

definition new_udp_socket :: "('x, 'b, 'u) decoder \<Rightarrow> 'ep \<Rightarrow> bool \<Rightarrow> ('u, 'ep) udp_client" where
  "new_udp_socket d any broadcast = \<lparr>uc_conn = new_dgram_handler d any, uc_broadcast = broadcast, uc_options = []\<rparr>"

text \<open>The constructor of \<open>client_transport\<close> connects at once; a failure leaves the socket closed.\<close>

definition new_udp_client ::
  "('ip, 'ep, 'b, 'n) udp_asio \<Rightarrow> ('x, 'b, 'u) decoder \<Rightarrow> udp_builder \<Rightarrow> sid \<Rightarrow> 'ip address \<Rightarrow> 'n \<Rightarrow>
   ('u, 'ep) udp_client \<times> 'n"
where
  "new_udp_client a d b s addr n = udp_connect a s addr (new_udp_socket d (udp_any a) (get_broadcast b)) n"

definition udp_build ::
  "('ip, 'ep, 'b, 'n) udp_asio \<Rightarrow> ('x, 'b, 'u) decoder \<Rightarrow> udp_builder \<Rightarrow>
   ('ip, ('u, 'ep) udp_client, 'n) builder"
where
  "udp_build a d b =
     \<lparr>b_timeout = ub_timeout b, b_build = new_udp_client a d b\<rparr>"

definition udp :: "('x, 'ip, ('u, 'ep) udp_client, 'n, 'z) world_scheme \<Rightarrow> sid \<Rightarrow> ('u, 'ep) udp_client" where
  "udp w s = the (s_tran (ses w s))"

definition put_udp ::
  "sid \<Rightarrow> ('u, 'ep) udp_client \<Rightarrow> ('x, 'ip, ('u, 'ep) udp_client, 'n, 'z) world_scheme \<Rightarrow>
   ('x, 'ip, ('u, 'ep) udp_client, 'n, 'z) world_scheme"
where
  "put_udp s t w = put_session s ((ses w s)\<lparr>s_tran := Some t\<rparr>) w"

definition udp_client_on_request ::
  "msgid \<Rightarrow> 'x object \<Rightarrow> 'x object \<Rightarrow> zone option \<Rightarrow> 'ep \<Rightarrow> 'w \<Rightarrow> exn option \<times> 'w" where
  "udp_client_on_request msgid result error z ep w = (Some type_error, w)"

definition udp_client_on_response ::
  "sid \<Rightarrow> msgid \<Rightarrow> 'x object \<Rightarrow> 'x object \<Rightarrow> zone option \<Rightarrow>
   ('x, 'ip, 't, 'n, 'z) world_scheme \<Rightarrow> exn option \<times> ('x, 'ip, 't, 'n, 'z) world_scheme"
where
  "udp_client_on_response s msgid result error z w =
     (if \<not> session_alive w s then (Some closed_exception, w)
      else (None, on_response s msgid result error z w))"

definition udp_client_on_notify ::
  "sid \<Rightarrow> 'x object \<Rightarrow> 'x object \<Rightarrow> zone option \<Rightarrow>
   ('x, 'ip, 't, 'n, 'z) world_scheme \<Rightarrow> exn option \<times> ('x, 'ip, 't, 'n, 'z) world_scheme"
where
  "udp_client_on_notify s method params z w =
     (if \<not> session_alive w s then (Some closed_exception, w)
      else (None, on_notify s method params z w))"

definition udp_client_vt ::
  "sid \<Rightarrow> ('x, 'u, 'ep, ('x, 'ip, ('u, 'ep) udp_client, 'n, 'z) world_scheme) dgram_vt" where
  "udp_client_vt s =
     \<lparr>dvt_get = (\<lambda>w. uc_conn (udp w s)),
      dvt_put = (\<lambda>h w. put_udp s ((udp w s)\<lparr>uc_conn := h\<rparr>) w),
      dvt_on_request = udp_client_on_request,
      dvt_on_response = udp_client_on_response s,
      dvt_on_notify = udp_client_on_notify s\<rparr>"

fun handle_udp_event ::
  "('x, 'b, 'u) decoder \<Rightarrow> ('b, 'ep) udp_event \<Rightarrow>
   ('x, 'ip, ('u, 'ep) udp_client, 'n, 'z) world_scheme \<Rightarrow>
   exn option \<times> ('x, 'ip, ('u, 'ep) udp_client, 'n, 'z) world_scheme"
where
  "handle_udp_event d (Udp_step_timer s aborted) w = (None, step_timer_handler aborted s w)"
| "handle_udp_event d (Udp_read s err bytes ep) w = dgram_on_read d (udp_client_vt s) err bytes ep w"
| "handle_udp_event d (Udp_callback cb f) w = (None, log_effects [Run_callback cb f] w)"

fun udp_event_valid :: "('x, 'ip, 't, 'n, 'z) world_scheme \<Rightarrow> ('b, 'ep) udp_event \<Rightarrow> bool" where
  "udp_event_valid w (Udp_step_timer s _) = (s < length (w_sessions w))"
| "udp_event_valid w (Udp_read s _ _ _) = (s < length (w_sessions w))"
| "udp_event_valid w (Udp_callback _ _) = True"

fun run_udp_events ::
  "('x, 'b, 'u) decoder \<Rightarrow> ('b, 'ep) udp_event list \<Rightarrow>
   ('x, 'ip, ('u, 'ep) udp_client, 'n, 'z) world_scheme \<Rightarrow>
   exn option \<times> ('x, 'ip, ('u, 'ep) udp_client, 'n, 'z) world_scheme"
where
  "run_udp_events d [] w = (None, w)"
| "run_udp_events d (ev # evs) w =
     (if \<not> udp_event_valid w ev then run_udp_events d evs w
      else case handle_udp_event d ev w of
             (Some e, w') \<Rightarrow> (Some e, w')
           | (None, w') \<Rightarrow> run_udp_events d evs w')"

text \<open>
  \<open>client_transport::send_data\<close> of the UDP transport: an idle loop is polled, a closed socket is
  connected again, then the buffer is sent.
\<close>

definition udp_flush_if_idle ::
  "('ip, 'ep, 'b, 'n) udp_asio \<Rightarrow> ('x, 'b, 'u) decoder \<Rightarrow> sid \<Rightarrow>
   ('x, 'ip, ('u, 'ep) udp_client, 'n, 'z) world_scheme \<Rightarrow>
   exn option \<times> ('x, 'ip, ('u, 'ep) udp_client, 'n, 'z) world_scheme"
where
  "udp_flush_if_idle a d s w =
     (if is_running (h_loops w ! s_loop (ses w s)) then (None, w)
      else let (evs, n) = udp_poll a (w_net w)
           in run_udp_events d evs ((on_loop (s_loop (ses w s)) loop_flush w)\<lparr>w_net := n\<rparr>))"

definition udp_reconnect ::
  "('ip, 'ep, 'b, 'n) udp_asio \<Rightarrow> sid \<Rightarrow> ('x, 'ip, ('u, 'ep) udp_client, 'n, 'z) world_scheme \<Rightarrow>
   ('x, 'ip, ('u, 'ep) udp_client, 'n, 'z) world_scheme"
where
  "udp_reconnect a s w =
     (if \<not> dg_open (uc_conn (udp w s))
      then let (t, n) = udp_connect a s (s_addr (ses w s)) (udp w s) (w_net w)
           in put_udp s t (w\<lparr>w_net := n\<rparr>)
      else w)"

definition udp_sock_send ::
  "('ip, 'ep, 'b, 'n) udp_asio \<Rightarrow> sid \<Rightarrow> 'ep \<Rightarrow> 'b list \<Rightarrow> ('x, 'ip, 't, 'n, 'z) world_scheme \<Rightarrow>
   errno option \<times> ('x, 'ip, 't, 'n, 'z) world_scheme"
where
  "udp_sock_send a s ep bs w = (let (e, n) = udp_send_to a s ep bs (w_net w) in (e, w\<lparr>w_net := n\<rparr>))"

definition udp_send_data ::
  "('ip, 'ep, 'b, 'n) udp_asio \<Rightarrow> ('x, 'b, 'u) decoder \<Rightarrow>
   ('b, ('x, 'ip, ('u, 'ep) udp_client, 'n, 'z) world_scheme) send_data"
where
  "udp_send_data a d s buf w =
     (case udp_flush_if_idle a d s w of
        (Some e, w1) \<Rightarrow> (Some e, w1)
      | (None, w1) \<Rightarrow>
          dgram_send_data (\<lambda>w. udp_remote a s (w_net w)) (udp_sock_send a s) (udp_client_vt s) buf
            (udp_reconnect a s w1))"

subsection \<open>UDP server\<close>

record ('x, 'u, 'ep, 'n) udp_server = "('x, 'ep) req_heap" +
  us_dp :: bool
  us_alive :: bool
  us_conn :: "('u, 'ep) dgram_handler"
  us_net :: 'n

definition udp_sock_on_request ::
  "(nat \<Rightarrow> ('x, 'u, 'ep, 'n, 'z) udp_server_scheme \<Rightarrow> exn option \<times> ('x, 'u, 'ep, 'n, 'z) udp_server_scheme) \<Rightarrow>
   msgid \<Rightarrow> 'x object \<Rightarrow> 'x object \<Rightarrow> zone option \<Rightarrow> 'ep \<Rightarrow> ('x, 'u, 'ep, 'n, 'z) udp_server_scheme \<Rightarrow>
   exn option \<times> ('x, 'u, 'ep, 'n, 'z) udp_server_scheme"
where
  "udp_sock_on_request dispatch msgid method params z ep w =
     (if \<not> us_alive w then (Some closed_exception, w)
      else let q = length (q_requests w);
               w1 = w\<lparr>q_requests := q_requests w @ [new_request_impl (Some ep) msgid method params z]\<rparr>
           in if us_dp w1 then dispatch q w1 else (Some Null_dereference, w1))"

definition udp_sock_on_response ::
  "msgid \<Rightarrow> 'x object \<Rightarrow> 'x object \<Rightarrow> zone option \<Rightarrow> 'w \<Rightarrow> exn option \<times> 'w" where
  "udp_sock_on_response msgid result error z w = (Some type_error, w)"

definition udp_sock_on_notify ::
  "(nat \<Rightarrow> ('x, 'u, 'ep, 'n, 'z) udp_server_scheme \<Rightarrow> exn option \<times> ('x, 'u, 'ep, 'n, 'z) udp_server_scheme) \<Rightarrow>
   'x object \<Rightarrow> 'x object \<Rightarrow> zone option \<Rightarrow> ('x, 'u, 'ep, 'n, 'z) udp_server_scheme \<Rightarrow>
   exn option \<times> ('x, 'u, 'ep, 'n, 'z) udp_server_scheme"
where
  "udp_sock_on_notify dispatch method params z w =
     (if \<not> us_alive w then (Some closed_exception, w)
      else let q = length (q_requests w);
               w1 = w\<lparr>q_requests := q_requests w @ [new_request_impl None 0 method params z]\<rparr>
           in if us_dp w1 then dispatch q w1 else (Some Null_dereference, w1))"

definition udp_server_vt ::
  "(nat \<Rightarrow> ('x, 'u, 'ep, 'n, 'z) udp_server_scheme \<Rightarrow> exn option \<times> ('x, 'u, 'ep, 'n, 'z) udp_server_scheme) \<Rightarrow>
   ('x, 'u, 'ep, ('x, 'u, 'ep, 'n, 'z) udp_server_scheme) dgram_vt"
where
  "udp_server_vt dispatch =
     \<lparr>dvt_get = us_conn,
      dvt_put = (\<lambda>h w. w\<lparr>us_conn := h\<rparr>),
      dvt_on_request = udp_sock_on_request dispatch,
      dvt_on_response = udp_sock_on_response,
      dvt_on_notify = udp_sock_on_notify dispatch\<rparr>"

text \<open>
  \<open>server_socket::listen\<close>: open, bind (an error is thrown), start receiving; the result is the local
  endpoint. \<open>bind\<close> stands for the calls of Boost.Asio.
\<close>

definition udp_listen ::
  "('ip address \<Rightarrow> 'n \<Rightarrow> (errno + 'ip address) \<times> 'n) \<Rightarrow> 'ip address \<Rightarrow> ('x, 'u, 'ep, 'n, 'z) udp_server_scheme \<Rightarrow>
   (exn + 'ip address) \<times> ('x, 'u, 'ep, 'n, 'z) udp_server_scheme"
where
  "udp_listen bind addr w =
     (case bind addr (us_net w) of
        (Inl ec, n) \<Rightarrow> (Inl (system_error ec), w\<lparr>us_net := n\<rparr>)
      | (Inr lep, n) \<Rightarrow> (Inr lep, w\<lparr>us_net := n, us_conn := dgram_start ((us_conn w)\<lparr>dg_open := True\<rparr>)\<rparr>))"

text \<open>\<open>response_sender\<close>: replies go to the endpoint of the request.\<close>

definition udp_ms_send ::
  "('ep \<Rightarrow> 'b list \<Rightarrow> 'n \<Rightarrow> errno option \<times> 'n) \<Rightarrow>
   ('b, 'ep, ('x, 'u, 'ep, 'n, 'z) udp_server_scheme) ms_send"
where
  "udp_ms_send send_to ep buf w =
     dgram_send_to (\<lambda>ep bs w. let (e, n) = send_to ep bs (us_net w) in (e, w\<lparr>us_net := n\<rparr>)) ep buf w"

section \<open>The contract of the virtual functions\<close>

text \<open>The counterpart of \<open>message_handler\<close> for datagrams; there is no \<open>on_system_error\<close>.\<close>

locale datagram_handler =
  fixes vt :: "('x, 'u, 'ep, 'w) dgram_vt"
    and ok :: "'w \<Rightarrow> bool"
    and rel :: "'w \<Rightarrow> 'w \<Rightarrow> bool"
  assumes rel_refl: "rel w w"
    and rel_trans: "rel w w' \<Longrightarrow> rel w' w'' \<Longrightarrow> rel w w''"
    and rel_ok: "ok w \<Longrightarrow> rel w w' \<Longrightarrow> ok w'"
    and put_rel: "ok w \<Longrightarrow> rel w (dvt_put vt h w)"
    and request_rel: "ok w \<Longrightarrow> rel w (snd (dvt_on_request vt i a b z ep w))"
    and response_rel: "ok w \<Longrightarrow> rel w (snd (dvt_on_response vt i a b z w))"
    and notify_rel: "ok w \<Longrightarrow> rel w (snd (dvt_on_notify vt a b z w))"
begin

lemma dset_pac_rel: "ok w \<Longrightarrow> rel w (dset_pac vt u w)"
  by (simp add: dset_pac_def put_rel)

lemma on_datagram_rel: "ok w \<Longrightarrow> rel w (snd (dgram_on_message d vt msg z ep w))"
  by (simp add: dgram_on_message_def rel_refl request_rel response_rel notify_rel split: option.split)

lemma dgram_loop_rel: "ok w \<Longrightarrow> rel w (snd (dgram_read_loop d vt ep ms fin w))"
proof (induction ms arbitrary: w)
  case Nil
  then show ?case by (cases fin) (simp add: dset_pac_rel)
next
  case (Cons m ms)
  obtain msg z u where m: "m = (msg, z, u)" by (cases m)
  obtain e w1 where st: "dgram_on_message d vt msg (Some z) ep (dset_pac vt u w) = (e, w1)"
    by (cases "dgram_on_message d vt msg (Some z) ep (dset_pac vt u w)")
  note r0 = dset_pac_rel[OF Cons.prems, of u]
  have "rel (dset_pac vt u w) w1"
    using on_datagram_rel[OF rel_ok[OF Cons.prems r0], of d msg "Some z" ep] st by simp
  then have r1: "rel w w1" by (rule rel_trans[OF r0])
  show ?case
    using rel_trans[OF r1 Cons.IH[OF rel_ok[OF Cons.prems r1]]] m st r1 by (cases e) simp_all
qed

lemma dgram_read_rel:
  assumes "ok w"
  shows "rel w (snd (dgram_on_read d vt err bytes ep w))"
proof -
  define w1 where "w1 = dvt_put vt ((dvt_get vt w)\<lparr>dg_receiving := False, dg_remote := ep\<rparr>) w"
  define u where "u = pac_consumed d bytes (dg_pac (dvt_get vt w1))"
  obtain ms fin where nx: "pac_next_all d u = (ms, fin)" by (cases "pac_next_all d u")
  obtain e w3 where l: "dgram_read_loop d vt ep ms fin (dset_pac vt u w1) = (e, w3)"
    by (cases "dgram_read_loop d vt ep ms fin (dset_pac vt u w1)")
  have r1: "rel w w1" using put_rel[OF assms] by (simp add: w1_def)
  have r2: "rel w (dset_pac vt u w1)" by (rule rel_trans[OF r1 dset_pac_rel[OF rel_ok[OF assms r1]]])
  have r3: "rel w w3"
    using rel_trans[OF r2 dgram_loop_rel[OF rel_ok[OF assms r2], of d ep ms fin]] l by simp
  have r4: "rel w (dgram_fail d vt w1)"
    unfolding dgram_fail_def by (rule rel_trans[OF r1 dset_pac_rel[OF rel_ok[OF assms r1]]])
  have r5: "rel w (dgram_fail d vt w3)"
    unfolding dgram_fail_def by (rule rel_trans[OF r3 dset_pac_rel[OF rel_ok[OF assms r3]]])
  have "snd (dgram_on_read d vt err bytes ep w) \<in>
      {w3, dgram_fail d vt w3, dgram_fail d vt w1,
       dvt_put vt (dgram_start ((dvt_get vt w3)\<lparr>dg_pac := pac_reserve d (dg_pac (dvt_get vt w3))\<rparr>)) w3}"
    using nx l
    by (auto simp: dgram_on_read_def Let_def simp flip: w1_def u_def split: option.split)
  then show ?thesis
    using r3 r4 r5 rel_trans[OF r3 put_rel[OF rel_ok[OF assms r3]]] by auto
qed

lemma dgram_send_to_rel:
  "(\<And>bs. rel w (snd (send_to ep bs w))) \<Longrightarrow> rel w (snd (dgram_send_to send_to ep buf w))"
  by (simp add: dgram_send_to_def split: prod.split) (metis snd_conv)

lemma dgram_send_rel:
  "(\<And>ep bs. rel w (snd (send_to ep bs w))) \<Longrightarrow> rel w (snd (dgram_send_data re send_to vt buf w))"
  by (simp add: dgram_send_data_def rel_refl dgram_send_to_rel split: sum.split)

end

section \<open>The UDP client transport only retires requests\<close>

lemma retires_put_udp: "retires w (put_udp s t w)"
  unfolding put_udp_def by (rule retires_put_session) simp_all

interpretation udp_handler: datagram_handler "udp_client_vt s"
  "\<lambda>w. table_wf w \<and> s < length (w_sessions w)" retires for s
proof (unfold_locales, goal_cases)
  case (1 w)
  show ?case by (rule retires_refl)
next
  case (2 w w' w'')
  then show ?case by (rule retires_trans)
next
  case (3 w w')
  then show ?case using retires_ok by blast
next
  case (4 w h)
  then show ?case by (simp add: udp_client_vt_def retires_put_udp)
next
  case (5 w i a b z ep)
  then show ?case by (simp add: udp_client_vt_def udp_client_on_request_def retires_refl)
next
  case (6 w i a b z)
  then show ?case by (auto simp: udp_client_vt_def udp_client_on_response_def on_response_retires)
next
  case (7 w a b z)
  then show ?case by (auto simp: udp_client_vt_def udp_client_on_notify_def on_notify_def)
qed

lemma handle_udp_event_retires:
  "table_wf w \<Longrightarrow> udp_event_valid w ev \<Longrightarrow> retires w (snd (handle_udp_event d ev w))"
  by (cases ev) (auto simp: step_timer_retires udp_handler.dgram_read_rel retires_log)

lemma run_udp_events_retires:
  "table_wf w \<Longrightarrow> retires w (snd (run_udp_events d evs w))"
proof (induction evs arbitrary: w)
  case Nil
  then show ?case by auto
next
  case (Cons ev evs)
  obtain e w1 where h: "handle_udp_event d ev w = (e, w1)" by (cases "handle_udp_event d ev w")
  show ?case
  proof (cases "udp_event_valid w ev")
    case False
    with Cons show ?thesis by simp
  next
    case True
    have 1: "retires w w1" using handle_udp_event_retires[OF Cons.prems True, of d] h by simp
    have "retires w (snd (run_udp_events d evs w1))"
      by (rule retires_trans[OF 1 Cons.IH[OF retires_table_wf[OF 1 Cons.prems]]])
    with 1 h True show ?thesis by (cases e) simp_all
  qed
qed

lemma udp_flush_if_idle_retires:
  assumes "table_wf w"
  shows "retires w (snd (udp_flush_if_idle a d s w))"
proof -
  obtain evs n where p: "udp_poll a (w_net w) = (evs, n)" by (cases "udp_poll a (w_net w)")
  define w0 where "w0 = (on_loop (s_loop (ses w s)) loop_flush w)\<lparr>w_net := n\<rparr>"
  have 0: "retires w w0" unfolding w0_def by (rule retires_trans[OF retires_on_loop retires_net])
  show ?thesis
    using p retires_trans[OF 0 run_udp_events_retires[OF retires_table_wf[OF 0 assms], of d evs]]
    by (auto simp: udp_flush_if_idle_def simp flip: w0_def)
qed

lemma udp_reconnect_retires: "retires w (udp_reconnect a s w)"
  using retires_trans[OF retires_net retires_put_udp]
  by (auto simp: udp_reconnect_def split: prod.split)

lemma udp_sock_send_retires: "retires w (snd (udp_sock_send a s ep bs w))"
  by (simp add: udp_sock_send_def retires_net split: prod.split)

lemma udp_send_data_retires:
  assumes "table_wf w" "s < length (w_sessions w)"
  shows "retires w (snd (udp_send_data a d s buf w))"
proof -
  obtain e w1 where f: "udp_flush_if_idle a d s w = (e, w1)" by (cases "udp_flush_if_idle a d s w")
  have 1: "retires w w1" using udp_flush_if_idle_retires[OF assms(1), of a d s] f by simp
  have "retires w (snd (dgram_send_data (\<lambda>w. udp_remote a s (w_net w)) (udp_sock_send a s)
      (udp_client_vt s) buf (udp_reconnect a s w1)))"
    by (rule retires_trans[OF retires_trans[OF 1 udp_reconnect_retires] udp_handler.dgram_send_rel])
       (rule udp_sock_send_retires)
  with 1 f show ?thesis by (cases e) (simp_all add: udp_send_data_def)
qed

interpretation udp_tran: client_transport "udp_send_data a d" for a d
  by unfold_locales (rule udp_send_data_retires)

section \<open>Properties\<close>

text \<open>
  C33: A datagram that the decoder rejects makes the UDP server deaf: \<open>on_read\<close> catches the exception
  and clears the buffer, but starts no further receive, while the socket stays open.
\<close>

theorem udp_server_deaf_after_malformed:
  assumes "pac_next_all d (pac_consumed d bytes (dg_pac (us_conn w))) = ([], Some e, u)" "is_std_exception e"
  shows "\<exists>w'. dgram_on_read d (udp_server_vt dispatch) 0 bytes ep w = (None, w') \<and>
    \<not> dg_receiving (us_conn w') \<and> dg_open (us_conn w') = dg_open (us_conn w) \<and> q_requests w' = q_requests w"
  using assms by (simp add: dgram_on_read_def Let_def udp_server_vt_def dset_pac_def dgram_fail_def)

definition sample_udp_server :: "(nat, unit, nat, nat) udp_server" where
  "sample_udp_server =
     \<lparr>q_requests = [], us_dp = True, us_alive = True,
      us_conn = \<lparr>dg_pac = (), dg_open = True, dg_receiving = True, dg_remote = 0\<rparr>, us_net = 0\<rparr>"

lemma udp_server_deaf_after_malformed_witness:
  "\<exists>w'. dgram_on_read (sample_decoder\<lparr>pac_next_all := (\<lambda>u. ([], Some (Std_exception ''parse error''), ()))\<rparr>)
      (udp_server_vt (\<lambda>q w. (None, w))) 0 [193] 7 sample_udp_server = (None, w') \<and> \<not> dg_receiving (us_conn w')"
  using udp_server_deaf_after_malformed[of
      "sample_decoder\<lparr>pac_next_all := (\<lambda>u. ([], Some (Std_exception ''parse error''), ()))\<rparr>" "[193]"
      sample_udp_server "Std_exception ''parse error''" "()" "\<lambda>q w. (None, w)" 7]
  by auto

text \<open>A program that answers datagrams at once.\<close>

definition udp_reply_dispatch ::
  "('x, 'b) packer \<Rightarrow> ('ep \<Rightarrow> 'b list \<Rightarrow> 'n \<Rightarrow> errno option \<times> 'n) \<Rightarrow> ('x object \<Rightarrow> 'x object \<Rightarrow> 'x reply list) \<Rightarrow>
   nat \<Rightarrow> ('x, 'u, 'ep, 'n, 'z) udp_server_scheme \<Rightarrow> exn option \<times> ('x, 'u, 'ep, 'n, 'z) udp_server_scheme"
where
  "udp_reply_dispatch pk send_to compute q w =
     request_replies pk (udp_ms_send send_to) q (compute (r_method (rq w q)) (r_params (rq w q))) w"

lemma udp_server_vt_simps [simp]:
  "dvt_get (udp_server_vt dispatch) = us_conn" "dvt_put (udp_server_vt dispatch) h w = w\<lparr>us_conn := h\<rparr>"
  by (simp_all add: udp_server_vt_def)

lemma udp_replies:
  assumes "r_ms (rq w q) = Some ep" "q < length (q_requests w)"
    and "send_to ep (outbuf_bytes (reply_buf pk (r_msgid (rq w q)) r)) (us_net w) = (None, n)"
  shows "request_replies pk (udp_ms_send send_to) q (r # rs) w =
    (None, w\<lparr>us_net := n, q_requests := (q_requests w)[q := (rq w q)\<lparr>r_ms := None\<rparr>]\<rparr>)" (is "_ = (None, ?w')")
proof -
  have "request_reply pk (udp_ms_send send_to) q r w = (None, ?w')"
    using assms by (simp add: request_reply_pending request_send_data_def udp_ms_send_def dgram_send_to_def)
  moreover have "is_sent q ?w'" using assms(2) by (simp add: is_sent_def)
  ultimately show ?thesis by (simp add: request_replies_sent)
qed

lemma udp_reads_request:
  fixes w :: "('x, 'u, 'ep, 'n, 'z) udp_server_scheme"
  assumes "us_alive w" "us_dp w"
    and "pac_next_all d (pac_consumed d bytes (dg_pac (us_conn w))) = ([(msg, zn, u)], None, u')"
    and "conv_rpc d msg = Some rpc" "is_request rpc" "conv_request d msg = Some req"
    and "compute (req_method req) (req_param req) = r # rs"
    and "send_to ep (outbuf_bytes (reply_buf pk (req_msgid req) r)) (us_net w) = (None, n)"
  shows "\<exists>w'. dgram_on_read d (udp_server_vt (udp_reply_dispatch pk send_to compute)) 0 bytes ep w = (None, w') \<and>
    us_net w' = n \<and> dg_receiving (us_conn w') \<and> dg_open (us_conn w') = dg_open (us_conn w) \<and>
    q_requests w' = q_requests w @ [new_request_impl None (req_msgid req) (req_method req) (req_param req) (Some zn)]"
proof -
  let ?vt = "udp_server_vt (udp_reply_dispatch pk send_to compute)"
  let ?r = "\<lambda>ms. new_request_impl ms (req_msgid req) (req_method req) (req_param req) (Some zn)"
  have msg: "dgram_on_message d ?vt msg (Some zn) ep v =
      (None, v\<lparr>q_requests := q_requests v @ [?r None], us_net := n\<rparr>)"
    if v: "us_alive v" "us_dp v" "us_net v = us_net w" for v :: "('x, 'u, 'ep, 'n, 'z) udp_server_scheme"
  proof -
    let ?v = "v\<lparr>q_requests := q_requests v @ [?r (Some ep)]\<rparr>"
    have "r_ms (rq ?v (length (q_requests v))) = Some ep" "length (q_requests v) < length (q_requests ?v)"
      "send_to ep (outbuf_bytes (reply_buf pk (r_msgid (rq ?v (length (q_requests v)))) r)) (us_net ?v) = (None, n)"
      using v assms(8) by (simp_all add: new_request_impl_def)
    from udp_replies[where send_to = send_to, OF this, of rs] show ?thesis
      using v assms(4-7)
      by (simp add: dgram_on_message_def is_request_def udp_server_vt_def udp_sock_on_request_def
          udp_reply_dispatch_def new_request_impl_def Let_def)
  qed
  show ?thesis
    using assms(1-3) by (simp add: dgram_on_read_def Let_def dset_pac_def msg dgram_start_def)
qed

text \<open>
  C32: A UDP server answers a request datagram to the endpoint it came from: the first reply of the
  program is sent there with the message identifier of the request, further replies are dropped, and
  the next receive is started.
\<close>

theorem udp_server_answers_request:
  fixes w :: "('x, 'u, 'ep, 'n, 'z) udp_server_scheme"
  assumes "us_alive w" "us_dp w"
    and "pac_next_all d (pac_consumed d bytes (dg_pac (us_conn w))) = ([(msg, zn, u)], None, u')"
    and "conv_rpc d msg = Some rpc" "is_request rpc" "conv_request d msg = Some req"
    and "compute (req_method req) (req_param req) = r # rs"
    and "send_to ep (outbuf_bytes (reply_buf pk (req_msgid req) r)) (us_net w) = (None, n)"
  shows "\<exists>w'. dgram_on_read d (udp_server_vt (udp_reply_dispatch pk send_to compute)) 0 bytes ep w = (None, w') \<and>
    us_net w' = n \<and> dg_receiving (us_conn w') \<and> dg_open (us_conn w') = dg_open (us_conn w) \<and>
    q_requests w' = q_requests w @ [new_request_impl None (req_msgid req) (req_method req) (req_param req) (Some zn)]"
  using assms by (rule udp_reads_request)

lemma udp_server_answers_request_witness:
  "\<exists>w'. dgram_on_read (sample_decoder\<lparr>pac_next_all := (\<lambda>u. ([(Opaque 1, 0, ())], None, ())),
        conv_rpc := (\<lambda>ob. Some \<lparr>rpc_type = REQUEST\<rparr>),
        conv_request := (\<lambda>ob. Some \<lparr>req_type = REQUEST, req_msgid = 5, req_method = NIL, req_param = NIL\<rparr>)\<rparr>)
      (udp_server_vt (udp_reply_dispatch sample_packer (\<lambda>ep bs n. (None, n + 10 * ep + length bs)) (\<lambda>m p. [Result p])))
      0 [9] 7 sample_udp_server = (None, w') \<and> us_net w' = 71 \<and> dg_receiving (us_conn w')"
  using udp_server_answers_request[of sample_udp_server
      "sample_decoder\<lparr>pac_next_all := (\<lambda>u. ([(Opaque 1, 0, ())], None, ())),
        conv_rpc := (\<lambda>ob. Some \<lparr>rpc_type = REQUEST\<rparr>),
        conv_request := (\<lambda>ob. Some \<lparr>req_type = REQUEST, req_msgid = 5, req_method = NIL, req_param = NIL\<rparr>)\<rparr>"
      "[9]" "Opaque 1" 0 "()" "()" "\<lparr>rpc_type = REQUEST\<rparr>"
      "\<lparr>req_type = REQUEST, req_msgid = 5, req_method = NIL, req_param = NIL\<rparr>" "\<lambda>m p. [Result p]" "Result NIL" "[]"
      "\<lambda>ep bs n. (None, n + 10 * ep + length bs)" 7 sample_packer 71]
  by (auto simp: sample_udp_server_def is_request_def reply_buf_def sample_packer_def)

text \<open>
  A call over UDP enters its future in the request table before it sends: whatever the network
  does (no connection, a failing send, datagrams handled in between), afterwards the future is in the
  table under the session's next message identifier or has been completed, so the step timer covers
  it even if the call threw; the tables stay consistent.
\<close>

lemma udp_call_registered:
  assumes "table_wf w" "s < length (w_sessions w)" "f = length (h_futures w)"
    and "w' = snd (send_request pk (udp_send_data a d) s m p z w)"
  shows "table_wf w' \<and> f_msgid (fut w' f) = s_msgid_rr (ses w s) \<and>
    ((s_msgid_rr (ses w s), f) \<in> set (table w' s) \<or> ready w' f)"
proof -
  let ?w1 = "snd (next_msgid s w)" and ?i = "s_msgid_rr (ses w s)"
  have wf: "table_wf ?w1" "s < length (w_sessions ?w1)" "f = length (h_futures ?w1)"
    using assms(1-3) by (simp_all add: table_wf_next_msgid next_msgid_simps)
  define buf where "buf = request_buf pk m p z ?i"
  have eq: "w' = snd (send_request_impl (udp_send_data a d) s ?i m buf ?w1)"
    unfolding assms(4) buf_def by (simp add: send_request_eq registered_def udp_tran.send_request_impl_state split: prod.split option.split)
  show ?thesis
    using udp_tran.send_request_impl_table_wf[OF wf(1,2), of a d ?i m buf]
      udp_tran.send_request_impl_future(2,3)[OF wf(1-3) eq] by (simp add: eq)
qed

end
