(* ===== verification/RPC_Udp_Server.thy ===== *)
theory RPC_Udp_Server
  imports RPC_Dgram
begin

text \<open>
  The UDP server transport (server part of \<^verbatim>\<open>transport/udp.cc\<close>, with the functions of
  \<^verbatim>\<open>server.cc\<close> that use a transport): listening, the local endpoint, closing. The transport holds its
  socket by a shared pointer, and so does the pending receive of the socket; \<open>close\<close> of the
  transport does nothing, so a socket lives as long as a receive is pending.
\<close>

section \<open>Definitions\<close>

text \<open>
  \<open>up_stran\<close> is \<^verbatim>\<open>m_stran\<close> with the transport's \<^verbatim>\<open>m_local_endpoint\<close>; \<open>us_conn\<close> is the socket of the
  last transport, and \<open>up_left\<close> are the sockets of earlier ones that are still receiving.
\<close>

record ('x, 'u, 'ep, 'n, 'ip) udp_process = "('x, 'u, 'ep, 'n) udp_server" +
  up_stran :: "'ip address option"
  up_left :: "('u, 'ep) dgram_handler list"

record 'ip udp_listener =
  ul_addr :: "'ip address"

definition new_udp_listener :: "'ip address \<Rightarrow> 'ip udp_listener" where
  "new_udp_listener addr = \<lparr>ul_addr = addr\<rparr>"

definition new_udp_listener_host ::
  "('ip \<Rightarrow> bool) \<Rightarrow> 'ip resolver \<Rightarrow> string \<Rightarrow> 16 word \<Rightarrow> exn + 'ip udp_listener" where
  "new_udp_listener_host is_v4 resolver host port =
     (case address_host_port is_v4 resolver host port of Inl e \<Rightarrow> Inl e | Inr addr \<Rightarrow> Inr \<lparr>ul_addr = addr\<rparr>)"

text \<open>The server before it listens.\<close>

definition new_udp_process :: "('x, 'b, 'u) decoder \<Rightarrow> 'ep \<Rightarrow> 'n \<Rightarrow> ('x, 'u, 'ep, 'n, 'ip) udp_process" where
  "new_udp_process d any n =
     \<lparr>q_requests = [], us_dp = False, us_alive = True, us_conn = new_dgram_handler d any, us_net = n,
      up_stran = None, up_left = []\<rparr>"

text \<open>
  The constructor of the transport: a new socket listens; its local endpoint is remembered. When
  listening throws, the new socket is destroyed.
\<close>

definition udp_server_transport ::
  "('ip address \<Rightarrow> 'n \<Rightarrow> (errno + 'ip address) \<times> 'n) \<Rightarrow> ('x, 'b, 'u) decoder \<Rightarrow> 'ep \<Rightarrow> 'ip address \<Rightarrow>
   ('x, 'u, 'ep, 'n, 'ip, 'z) udp_process_scheme \<Rightarrow> (exn + 'ip address) \<times> ('x, 'u, 'ep, 'n, 'ip, 'z) udp_process_scheme"
where
  "udp_server_transport bind d any addr w =
     (case udp_listen bind addr (w\<lparr>us_conn := new_dgram_handler d any\<rparr>) of
        (Inl e, w1) \<Rightarrow> (Inl e, w1\<lparr>us_conn := us_conn w\<rparr>)
      | (Inr lep, w1) \<Rightarrow> (Inr lep, w1))"

definition udp_listener_listen ::
  "('ip address \<Rightarrow> 'n \<Rightarrow> (errno + 'ip address) \<times> 'n) \<Rightarrow> ('x, 'b, 'u) decoder \<Rightarrow> 'ep \<Rightarrow> 'ip udp_listener \<Rightarrow>
   ('x, 'u, 'ep, 'n, 'ip, 'z) udp_process_scheme \<Rightarrow> (exn + 'ip address) \<times> ('x, 'u, 'ep, 'n, 'ip, 'z) udp_process_scheme"
where
  "udp_listener_listen bind d any l w = udp_server_transport bind d any (ul_addr l) w"

text \<open>The destructor of a transport drops its reference to the socket, after an empty \<open>close\<close>.\<close>

definition udp_transport_close :: "'w \<Rightarrow> 'w" where
  "udp_transport_close w = w"

text \<open>\<open>server_impl::listen\<close>: the new transport is made first, then the old one destroyed.\<close>

definition udp_server_listen ::
  "('ip address \<Rightarrow> 'n \<Rightarrow> (errno + 'ip address) \<times> 'n) \<Rightarrow> ('x, 'b, 'u) decoder \<Rightarrow> 'ep \<Rightarrow> 'ip udp_listener \<Rightarrow>
   ('x, 'u, 'ep, 'n, 'ip, 'z) udp_process_scheme \<Rightarrow> exn option \<times> ('x, 'u, 'ep, 'n, 'ip, 'z) udp_process_scheme"
where
  "udp_server_listen bind d any l w =
     (case udp_listener_listen bind d any l w of
        (Inl e, w1) \<Rightarrow> (Some e, w1)
      | (Inr lep, w1) \<Rightarrow>
          (None, udp_transport_close
                   (w1\<lparr>up_stran := Some lep,
                       up_left := up_left w @ (if dg_receiving (us_conn w) then [us_conn w] else [])\<rparr>)))"

text \<open>\<open>server_impl::close\<close>: a socket without a pending receive is destroyed with the transport.\<close>

definition udp_server_close ::
  "('x, 'u, 'ep, 'n, 'ip, 'z) udp_process_scheme \<Rightarrow> ('x, 'u, 'ep, 'n, 'ip, 'z) udp_process_scheme" where
  "udp_server_close w =
     (case up_stran w of
        None \<Rightarrow> w
      | Some lep \<Rightarrow>
          let w1 = (udp_transport_close w)\<lparr>up_stran := None\<rparr>
          in if dg_receiving (us_conn w) then w1 else w1\<lparr>us_conn := (us_conn w)\<lparr>dg_open := False\<rparr>\<rparr>)"

definition udp_get_local_endpoint ::
  "('ip \<Rightarrow> bool) \<Rightarrow> 'ip resolver \<Rightarrow> ('x, 'u, 'ep, 'n, 'ip, 'z) udp_process_scheme \<Rightarrow> exn + 'ip address" where
  "udp_get_local_endpoint is_v4 resolver w =
     (case up_stran w of Some lep \<Rightarrow> Inr lep | None \<Rightarrow> address_host_port is_v4 resolver ''0.0.0.0'' 0)"

text \<open>\<open>get_connection_num\<close>: without a transport there is no connection; a UDP transport throws.\<close>

definition udp_get_connection_num ::
  "('x, 'u, 'ep, 'n, 'ip, 'z) udp_process_scheme \<Rightarrow> exn + nat" where
  "udp_get_connection_num w =
     (case up_stran w of Some lep \<Rightarrow> Inl (runtime_error ''not supported in udp'') | None \<Rightarrow> Inr 0)"

section \<open>Listening and closing\<close>

lemma udp_server_listen_ok:
  assumes "bind (ul_addr l) (us_net w) = (Inr lep, n)"
  shows "\<exists>w'. udp_server_listen bind d any l w = (None, w') \<and> up_stran w' = Some lep \<and> us_net w' = n \<and>
    us_conn w' = \<lparr>dg_pac = pac_new d, dg_open = True, dg_receiving = True, dg_remote = any\<rparr> \<and>
    q_requests w' = q_requests w \<and> us_dp w' = us_dp w \<and> us_alive w' = us_alive w"
  using assms
  by (simp add: udp_server_listen_def udp_listener_listen_def udp_server_transport_def udp_listen_def
      new_dgram_handler_def dgram_start_def udp_transport_close_def)

text \<open>A listen that fails changes nothing but the network.\<close>

lemma udp_server_listen_fails:
  "bind (ul_addr l) (us_net w) = (Inl ec, n) \<Longrightarrow>
    udp_server_listen bind d any l w = (Some (system_error ec), w\<lparr>us_net := n\<rparr>)"
  by (simp add: udp_server_listen_def udp_listener_listen_def udp_server_transport_def udp_listen_def)

lemma udp_server_close_receiving:
  "dg_receiving (us_conn w) \<Longrightarrow> udp_server_close w = w\<lparr>up_stran := None\<rparr>"
  by (simp add: udp_server_close_def udp_transport_close_def split: option.split)

section \<open>Properties\<close>

text \<open>
  \<open>server_impl::close\<close> does not stop a UDP server: after a successful \<open>listen\<close> and this \<open>close\<close> the
  server reports no connection and no transport, but its socket is open and still receiving, and when
  the loop (which \<open>server::close\<close> only tells to end) delivers a request datagram it is given to the
  program and answered as before.
\<close>

lemma udp_close_keeps_serving:
  fixes w :: "('x, 'u, 'ep, 'n, 'ip) udp_process"
  assumes "us_alive w" "us_dp w" "udp_server_listen bind d any l w = (None, w1)"
    and "pac_next_all d (pac_consumed d bytes (pac_new d)) = ([(msg, zn, u)], None, u')"
    and "conv_rpc d msg = Some rpc" "is_request rpc" "conv_request d msg = Some req"
    and "compute (req_method req) (req_param req) = r # rs"
    and "send_to ep (outbuf_bytes (reply_buf pk (req_msgid req) r)) (us_net w1) = (None, n)"
  shows "udp_get_connection_num (udp_server_close w1) = Inr 0 \<and> dg_open (us_conn (udp_server_close w1)) \<and>
    dg_receiving (us_conn (udp_server_close w1)) \<and>
    (\<exists>w'. dgram_on_read d (udp_server_vt (udp_reply_dispatch pk send_to compute)) 0 bytes ep (udp_server_close w1) =
        (None, w') \<and> us_net w' = n \<and> dg_receiving (us_conn w'))"
proof -
  obtain lep n1 where "bind (ul_addr l) (us_net w) = (Inr lep, n1)"
    using assms(3) udp_server_listen_fails[of bind l w _ _ d any] by (metis option.distinct(1) prod.inject old.sum.exhaust surj_pair)
  from udp_server_listen_ok[of bind l w, OF this, of d any] assms(1-3)
  have w1: "us_conn w1 = \<lparr>dg_pac = pac_new d, dg_open = True, dg_receiving = True, dg_remote = any\<rparr>"
    "us_alive w1" "us_dp w1" by auto
  then have cl: "udp_server_close w1 = w1\<lparr>up_stran := None\<rparr>" by (simp add: udp_server_close_receiving)
  have "\<exists>w'. dgram_on_read d (udp_server_vt (udp_reply_dispatch pk send_to compute)) 0 bytes ep (w1\<lparr>up_stran := None\<rparr>) =
      (None, w') \<and> us_net w' = n \<and> dg_receiving (us_conn w') \<and>
      dg_open (us_conn w') = dg_open (us_conn (w1\<lparr>up_stran := None\<rparr>)) \<and>
      q_requests w' = q_requests (w1\<lparr>up_stran := None\<rparr>) @
        [new_request_impl None (req_msgid req) (req_method req) (req_param req) (Some zn)]"
    by (rule udp_reads_request[where d = d and msg = msg and u = u and u' = u' and rpc = rpc and r = r and rs = rs])
       (use w1 assms(4-9) in simp_all)
  with w1 show ?thesis by (auto simp: cl udp_get_connection_num_def)
qed

end
