(* ===== verification/RPC_Codec.thy ===== *)
theory RPC_Codec
  imports RPC_Framing RPC_Request
begin

text \<open>
  A small codec on which the assumptions about msgpack can be discharged: a message is two bytes, a
  \<open>Head\<close> and a \<open>Body\<close> that holds its value, and the decoder keeps a \<open>Head\<close> whose \<open>Body\<close> has not
  arrived. It satisfies the law of streaming decoders (\<open>codec_frames\<close>), so it can cut a stream at any
  place. The theorems on streams and on systems are applied to it.
\<close>

section \<open>Definitions\<close>

datatype msg_value =
    Str string
  | Num "32 word"
  | Arr "msg_value object list"
  | Req string "msg_value object list" msgid
  | Ntf string "msg_value object list"
  | Res "msg_value object" "msg_value object" msgid

datatype wire = Head | Body msg_value

fun codec_parse :: "wire list \<Rightarrow> msg_value list \<times> wire list" where
  "codec_parse (Head # Body x # bs) = (let (xs, rest) = codec_parse bs in (x # xs, rest))"
| "codec_parse bs = ([], bs)"

fun codec_rpc :: "msg_value object \<Rightarrow> msg_rpc option" where
  "codec_rpc (Opaque (Req m p i)) = Some \<lparr>rpc_type = REQUEST\<rparr>"
| "codec_rpc (Opaque (Ntf m p)) = Some \<lparr>rpc_type = NOTIFY\<rparr>"
| "codec_rpc (Opaque (Res r e i)) = Some \<lparr>rpc_type = RESPONSE\<rparr>"
| "codec_rpc _ = None"

fun codec_request :: "msg_value object \<Rightarrow> (msg_value object, msg_value object) msg_request option" where
  "codec_request (Opaque (Req m p i)) = Some (new_msg_request (Opaque (Str m)) (Opaque (Arr p)) i)"
| "codec_request _ = None"

fun codec_notify :: "msg_value object \<Rightarrow> (msg_value object, msg_value object) msg_notify option" where
  "codec_notify (Opaque (Ntf m p)) = Some (new_msg_notify (Opaque (Str m)) (Opaque (Arr p)))"
| "codec_notify _ = None"

fun codec_response :: "msg_value object \<Rightarrow> (msg_value object, msg_value object) msg_response option" where
  "codec_response (Opaque (Res r e i)) = Some (new_msg_response r e i)"
| "codec_response _ = None"

definition codec_decoder :: "(msg_value, wire, wire list) decoder" where
  "codec_decoder =
     \<lparr>pac_new = [], pac_reserve = (\<lambda>u. u), pac_consumed = (\<lambda>bs u. u @ bs),
      pac_next_all = (\<lambda>u. let (xs, rest) = codec_parse u in (map (\<lambda>x. (Opaque x, 0, rest)) xs, None, rest)),
      pac_message_size = length, pac_remove_nonparsed = (\<lambda>u. []), conv_rpc = codec_rpc,
      conv_request = codec_request, conv_response = codec_response, conv_notify = codec_notify\<rparr>"

definition codec_packer :: "(msg_value, wire) packer" where
  "codec_packer =
     \<lparr>pack_request = (\<lambda>r. [Head, Body (Req (req_method r) (req_param r) (req_msgid r))]),
      vpack_request = (\<lambda>r. [[Head], [Body (Req (req_method r) (req_param r) (req_msgid r))]]),
      pack_notify = (\<lambda>r. [Head, Body (Ntf (ntf_method r) (ntf_param r))]),
      vpack_notify = (\<lambda>r. [[Head], [Body (Ntf (ntf_method r) (ntf_param r))]]),
      pack_response = (\<lambda>r. [Head, Body (Res (res_result r) (res_error r) (res_msgid r))]),
      vpack_response = (\<lambda>r. [[Head], [Body (Res (res_result r) (res_error r) (res_msgid r))]])\<rparr>"

definition codec_held :: "wire list \<Rightarrow> wire list \<Rightarrow> bool" where
  "codec_held u p \<longleftrightarrow> u = p \<and> p \<in> {[], [Head]}"

section \<open>The law of streaming decoders\<close>

lemma codec_parse_frames:
  "q \<in> {[], [Head]} \<Longrightarrow> codec_parse (concat (map (\<lambda>x. [Head, Body x]) xs) @ q) = (xs, q)"
  by (induction xs) auto

lemma strict_prefix_two: "strict_prefix q [x, y] \<longleftrightarrow> q \<in> {[], [x]}"
  by (cases q; cases "tl q") (auto simp: strict_prefix_def prefix_def)

theorem codec_frames:
  assumes enc: "\<And>m. ok m \<Longrightarrow> enc m = [Head, Body (val m)]" and dec: "\<And>m. ok m \<Longrightarrow> dec m (Opaque (val m))"
  shows "frames codec_decoder codec_held enc dec ok"
  unfolding frames_def
proof (intro conjI allI impI, goal_cases)
  case (3 u p bytes ms q ms')
  have q: "q \<in> {[], [Head]}" using 3(3,5) enc by (cases ms') (auto simp: strict_prefix_two)
  have ms: "map enc ms = map (\<lambda>x. [Head, Body x]) (map val ms)" using 3(2) enc by (auto simp: list_all_iff)
  have "codec_parse (u @ bytes) = (map val ms, q)"
    using 3(1,4) codec_parse_frames[OF q, of "map val ms"] by (simp add: codec_held_def ms del: map_map)
  moreover have "list_all2 (\<lambda>m (ob, z, v). dec m ob) ms (map (\<lambda>x. (Opaque x, 0, q)) (map val ms))"
    using 3(2) dec by (auto simp: list_all2_map2 list_all_iff intro: list_all2_same[THEN iffD2])
  moreover have "codec_held q q" "length q \<le> max_message_size" using q by (auto simp: codec_held_def max_message_size_def)
  ultimately show ?case by (simp add: codec_decoder_def)
qed (use enc in \<open>auto simp: codec_decoder_def\<close>)

lemma codec_pack_reply:
  "outbuf_bytes (reply_buf codec_packer i r) = [Head, Body (Res (reply_result r) (reply_error r) i)]"
  by (cases r) (simp_all add: reply_buf_def codec_packer_def new_msg_response_def Let_def)

end
