(* ===== verification/RPC_Udp_System.thy ===== *)
theory RPC_Udp_System
  imports RPC_Udp_Server RPC_Codec
begin

text \<open>
  Runs over UDP. A client process over the UDP transport is a process of \<open>RPC_Process\<close>. A client and a
  server together are a closed system: the network may lose datagrams, deliver them again and in any
  order, so what a socket can receive is any datagram that the other side has ever sent. The steps of
  both sides are the code of the components, in any order.
\<close>

section \<open>Definitions\<close>

abbreviation udp_run ::
  "('ip, 'ep, 'b, 'n) udp_asio \<Rightarrow> ('x, 'b, 'u) decoder \<Rightarrow> ('x, 'b) packer \<Rightarrow> nat \<Rightarrow> nat \<Rightarrow>
   ('x, 'ip, ('u, 'ep) udp_client, 'n) world \<Rightarrow> bool"
where
  "udp_run a d pk \<equiv> process_run (udp_send_data a d) (handle_udp_event d) udp_event_valid pk"

text \<open>
  The network keeps the datagrams that were sent: \<open>send_to\<close> adds one or fails without a trace (a
  datagram that is never received is lost); connecting sends nothing, and handlers run as events.
\<close>

definition keeps_sent :: "('b list list \<Rightarrow> 'b list \<Rightarrow> 'e option \<times> 'b list list) \<Rightarrow> bool" where
  "keeps_sent snd_to \<longleftrightarrow> (\<forall>n bs. snd (snd_to n bs) = n \<or> snd (snd_to n bs) = n @ [bs])"

definition lossy_asio :: "('ip, 'ep, 'b, 'b list list) udp_asio \<Rightarrow> bool" where
  "lossy_asio a \<longleftrightarrow> (\<forall>n. udp_poll a n = ([], n)) \<and> (\<forall>s ad n. snd (udp_sock_connect a s ad n) = n) \<and>
     (\<forall>s ep. keeps_sent (\<lambda>n bs. udp_send_to a s ep bs n))"

text \<open>
  msgpack on datagrams: a decoder that holds nothing (\<open>idle\<close>) finds exactly the one message of a
  datagram, and holds nothing again. \<open>em\<close> and \<open>ep\<close> give the method and the parameters as objects, \<open>rd\<close>
  the receiver's copy of an object.
\<close>

definition one_message ::
  "('x, 'b, 'u) decoder \<Rightarrow> ('u \<Rightarrow> bool) \<Rightarrow> 'b list \<Rightarrow> ('x object \<Rightarrow> bool) \<Rightarrow> bool" where
  "one_message d idle bytes is_msg \<longleftrightarrow> (\<forall>u. idle u \<longrightarrow> (\<exists>ob zn u'.
     pac_next_all d (pac_consumed d bytes u) = ([(ob, zn, u')], None, u') \<and> idle u' \<and> is_msg ob))"

definition datagram_codec ::
  "('x, 'b, 'u) decoder \<Rightarrow> ('x, 'b) packer \<Rightarrow> ('u \<Rightarrow> bool) \<Rightarrow> (string \<Rightarrow> 'x object) \<Rightarrow>
   ('x object list \<Rightarrow> 'x object) \<Rightarrow> ('x object \<Rightarrow> 'x object) \<Rightarrow> bool"
where
  "datagram_codec d pk idle em ep rd \<longleftrightarrow>
     idle (pac_new d) \<and> (\<forall>u. idle u \<longrightarrow> idle (pac_reserve d u) \<and> idle (pac_remove_nonparsed d u)) \<and>
     (\<forall>m p z i. one_message d idle (outbuf_bytes (request_buf pk m p z i)) (\<lambda>ob.
        conv_rpc d ob = Some \<lparr>rpc_type = REQUEST\<rparr> \<and> conv_request d ob = Some (new_msg_request (em m) (ep p) i))) \<and>
     (\<forall>m p z. one_message d idle (outbuf_bytes (notify_buf pk m p z)) (\<lambda>ob.
        conv_rpc d ob = Some \<lparr>rpc_type = NOTIFY\<rparr> \<and> conv_notify d ob = Some (new_msg_notify (em m) (ep p)))) \<and>
     (\<forall>r i. one_message d idle (outbuf_bytes (reply_buf pk i r)) (\<lambda>ob.
        conv_rpc d ob = Some \<lparr>rpc_type = RESPONSE\<rparr> \<and>
        conv_response d ob = Some (new_msg_response (rd (reply_result r)) (rd (reply_error r)) i)))"

text \<open>
  \<open>udp_system a d pk send_to compute cs t w v\<close>: a client with one session and a server have reached the
  states \<open>w\<close> and \<open>v\<close>; \<open>cs\<close> are the calls of the client, in order, and \<open>t\<close> of its waits have timed out. The
  server's program answers a request with \<open>compute\<close>.
\<close>

inductive udp_system ::
  "('ip, 'ep, 'b, 'b list list) udp_asio \<Rightarrow> ('x, 'b, 'u) decoder \<Rightarrow> ('x, 'b) packer \<Rightarrow>
   ('ep \<Rightarrow> 'b list \<Rightarrow> 'b list list \<Rightarrow> errno option \<times> 'b list list) \<Rightarrow> ('x object \<Rightarrow> 'x object \<Rightarrow> 'x reply list) \<Rightarrow>
   (string \<times> 'x object list) list \<Rightarrow> nat \<Rightarrow> ('x, 'ip, ('u, 'ep) udp_client, 'b list list) world \<Rightarrow>
   ('x, 'u, 'ep, 'b list list) udp_server \<Rightarrow> bool"
  for a d pk send_to compute
where
  usys_start: "us_net v = [] \<Longrightarrow> dg_pac (us_conn v) = pac_new d \<Longrightarrow>
    udp_system a d pk send_to compute [] 0
      (snd (session_create (udp_build a d b) addr lo (initial_world ls []))) v"
| usys_call: "udp_system a d pk send_to compute cs t w v \<Longrightarrow>
    udp_system a d pk send_to compute (cs @ [(m, p)]) t (snd (send_request pk (udp_send_data a d) 0 m p z w)) v"
| usys_notify: "udp_system a d pk send_to compute cs t w v \<Longrightarrow>
    udp_system a d pk send_to compute cs t (snd (send_notify pk (udp_send_data a d) 0 m p z w)) v"
| usys_serve: "udp_system a d pk send_to compute cs t w v \<Longrightarrow> err = 0 \<longrightarrow> bytes \<in> set (w_net w) \<Longrightarrow>
    udp_system a d pk send_to compute cs t w
      (snd (dgram_on_read d (udp_server_vt (udp_reply_dispatch pk send_to compute)) err bytes src v))"
| usys_receive: "udp_system a d pk send_to compute cs t w v \<Longrightarrow> err = 0 \<longrightarrow> bytes \<in> set (us_net v) \<Longrightarrow>
    udp_system a d pk send_to compute cs t (snd (handle_udp_event d (Udp_read 0 err bytes src) w)) v"
| usys_tick: "udp_system a d pk send_to compute cs t w v \<Longrightarrow>
    udp_system a d pk send_to compute cs t (snd (handle_udp_event d (Udp_step_timer 0 aborted) w)) v"
| usys_wait_expired: "udp_system a d pk send_to compute cs t w v \<Longrightarrow> f < length (h_futures w) \<Longrightarrow>
    udp_system a d pk send_to compute cs (Suc t) (set_result f NIL TIMEOUT_ERROR None w) v"
| usys_attach: "udp_system a d pk send_to compute cs t w v \<Longrightarrow>
    udp_system a d pk send_to compute cs t (attach_callback f cb w) v"

section \<open>Processes over UDP\<close>

interpretation udp_process: client_process "udp_send_data a d" "handle_udp_event d" udp_event_valid for a d
  by unfold_locales (rule handle_udp_event_retires)

interpretation udp_runs: client_runs "udp_send_data a d" "handle_udp_event d" udp_event_valid for a d
  by unfold_locales

lemma udp_sessions:
  "length (w_sessions (snd (session_create b addr lo w))) = Suc (length (w_sessions w))"
  using session_create_eq(5)[of b addr lo w] by (cases "session_create b addr lo w") auto

lemma udp_system_run:
  assumes "udp_system a d pk send_to compute cs t w v"
  shows "udp_run a d pk (length cs) t w \<and> length (w_sessions w) = 1"
  using assms
proof induction
  case (usys_start v b addr lo ls)
  then show ?case using run_create[OF run_init] by (simp add: udp_sessions initial_world_def)
next
  case (usys_call cs t w v m p z)
  then have w: "udp_run a d pk (length cs) t w" "0 < length (w_sessions w)" by simp_all
  then have "udp_run a d pk (Suc (length cs)) t (snd (send_request pk (udp_send_data a d) 0 m p z w))" by (rule run_call)
  moreover have "length (w_sessions (snd (send_request pk (udp_send_data a d) 0 m p z w))) = length (w_sessions (registered 0 w))"
    by (rule retiresD(2)[OF udp_process.call_retires[OF run_inv_wf[OF udp_runs.process_run_inv[OF w(1)]] w(2)]])
  ultimately show ?case using usys_call w(2) by (simp add: registered_simps)
next
  case (usys_notify cs t w v m p z)
  then have w: "udp_run a d pk (length cs) t w" "0 < length (w_sessions w)" by simp_all
  with usys_notify show ?case
    using run_notify[OF w] retiresD(2)[OF udp_process.notify_retires[OF run_inv_wf[OF udp_runs.process_run_inv[OF w(1)]] w(2)]] by simp
next
  case (usys_serve cs t w v err bytes src)
  then show ?case by simp
next
  case (usys_receive cs t w v err bytes src)
  then have w: "udp_run a d pk (length cs) t w" "udp_event_valid w (Udp_read 0 err bytes src)" by simp_all
  with usys_receive show ?case
    using run_event[OF w] retiresD(2)[OF udp_process.handle_retires[OF run_inv_wf[OF udp_runs.process_run_inv[OF w(1)]] w(2)]] by simp
next
  case (usys_tick cs t w v aborted)
  then have w: "udp_run a d pk (length cs) t w" "udp_event_valid w (Udp_step_timer 0 aborted)" by simp_all
  with usys_tick show ?case
    using run_event[OF w] retiresD(2)[OF udp_process.handle_retires[OF run_inv_wf[OF udp_runs.process_run_inv[OF w(1)]] w(2)]] by simp
next
  case (usys_wait_expired cs t w v f)
  then show ?case using run_wait_expired by fastforce
next
  case (usys_attach cs t w v f cb)
  then show ?case using same_attach[of w f cb] by (simp add: run_attach same_requests_def)
qed

section \<open>One datagram\<close>

text \<open>A socket whose handler can be read back after it was written.\<close>

locale datagram_socket = datagram_handler vt ok rel
  for vt :: "('x, 'u, 'ep, 'w) dgram_vt" and ok :: "'w \<Rightarrow> bool" and rel :: "'w \<Rightarrow> 'w \<Rightarrow> bool" +
  assumes get_put: "ok w \<Longrightarrow> dvt_get vt (dvt_put vt h w) = h"
    and put_put: "ok w \<Longrightarrow> dvt_put vt h (dvt_put vt h' w) = dvt_put vt h w"
begin

lemma put_ok: "ok w \<Longrightarrow> ok (dvt_put vt h w)"
  using rel_ok put_rel by blast

text \<open>
  A datagram with one message: the message is handled, and the decoder is left as it was after the
  message, or cleaned up.
\<close>

lemma dgram_on_read_one:
  assumes ok: "ok w" and nx: "pac_next_all d (pac_consumed d bytes (dg_pac (dvt_get vt w))) = ([(ob, zn, u)], None, u)"
    and kept: "\<And>h e w2. dgram_on_message d vt ob (Some zn) ep (dvt_put vt h w) = (e, w2) \<Longrightarrow> dg_pac (dvt_get vt w2) = dg_pac h"
  shows "\<exists>h1 e w2 w3. dgram_on_message d vt ob (Some zn) ep (dvt_put vt h1 w) = (e, w2) \<and>
    snd (dgram_on_read d vt 0 bytes ep w) = w3 \<and> (w3 = w2 \<or> (\<exists>h. w3 = dvt_put vt h w2)) \<and> ok w2 \<and>
    dg_pac (dvt_get vt w3) \<in> {u, pac_reserve d u, pac_remove_nonparsed d u}"
proof -
  define h1 where "h1 = (dvt_get vt w)\<lparr>dg_receiving := False, dg_remote := ep, dg_pac := u\<rparr>"
  obtain e w2 where msg: "dgram_on_message d vt ob (Some zn) ep (dvt_put vt h1 w) = (e, w2)"
    by (cases "dgram_on_message d vt ob (Some zn) ep (dvt_put vt h1 w)")
  have ok2: "ok w2" using rel_ok[OF put_ok[OF ok] on_datagram_rel[OF put_ok[OF ok, of h1], of d ob "Some zn" ep]] msg by simp
  have pac: "dg_pac (dvt_get vt w2) = u" using kept[OF msg] by (simp add: h1_def)
  let ?w1 = "dvt_put vt ((dvt_get vt w)\<lparr>dg_receiving := False, dg_remote := ep\<rparr>) w"
  have first: "dset_pac vt u (dset_pac vt u0 ?w1) = dvt_put vt h1 w" for u0
    using ok put_ok by (simp add: dset_pac_def get_put put_put h1_def)
  have loop: "dgram_read_loop d vt ep [(ob, zn, u)] (None, u) (dset_pac vt u0 ?w1) =
      (case e of None \<Rightarrow> (None, dset_pac vt u w2) | Some ex \<Rightarrow> (Some ex, w2))" for u0
    by (simp add: first msg split: option.split)
  have nx': "pac_next_all d (pac_consumed d bytes (dg_pac (dvt_get vt ?w1))) = ([(ob, zn, u)], None, u)"
    using nx ok by (simp add: get_put)
  have read: "snd (dgram_on_read d vt 0 bytes ep w) =
      (case e of None \<Rightarrow> dvt_put vt (dgram_start ((dvt_get vt (dset_pac vt u w2))
           \<lparr>dg_pac := pac_reserve d (dg_pac (dvt_get vt (dset_pac vt u w2)))\<rparr>)) (dset_pac vt u w2)
       | Some ex \<Rightarrow> if is_std_exception ex then dgram_fail d vt w2 else w2)"
    by (simp add: dgram_on_read_def Let_def nx' loop del: dgram_read_loop.simps split: option.split)
  have "\<exists>w3. snd (dgram_on_read d vt 0 bytes ep w) = w3 \<and> (w3 = w2 \<or> (\<exists>h. w3 = dvt_put vt h w2)) \<and>
      dg_pac (dvt_get vt w3) \<in> {u, pac_reserve d u, pac_remove_nonparsed d u}"
  proof (cases e)
    case None
    have "snd (dgram_on_read d vt 0 bytes ep w) = dvt_put vt (dgram_start ((dvt_get vt w2)\<lparr>dg_pac := pac_reserve d u\<rparr>)) w2"
      using None ok2 put_ok[OF ok2] by (simp add: read dset_pac_def get_put put_put)
    then show ?thesis using ok2 by (auto simp: get_put dgram_start_def)
  next
    case (Some ex)
    with ok2 pac show ?thesis by (cases "is_std_exception ex") (auto simp: read dgram_fail_def dset_pac_def get_put)
  qed
  with msg ok2 show ?thesis by blast
qed

end

section \<open>The server\<close>

interpretation udp_server_socket: datagram_socket "udp_server_vt dispatch" "\<lambda>w. True" "\<lambda>w w'. True" for dispatch
  by unfold_locales simp_all

lemma udp_replies_net:
  assumes "\<forall>ep. keeps_sent (\<lambda>n bs. send_to ep bs n)" "request_replies pk (udp_ms_send send_to) q rs w = (e, w')"
    and "q < length (q_requests w)"
  shows "us_conn w' = us_conn w \<and> (us_net w' = us_net w \<or>
    (\<exists>r rs'. rs = r # rs' \<and> r_ms (rq w q) \<noteq> None \<and>
       us_net w' = us_net w @ [outbuf_bytes (reply_buf pk (r_msgid (rq w q)) r)]))"
proof (cases "rs = [] \<or> is_sent q w")
  case True
  then show ?thesis using assms(2) by (auto simp: request_replies_sent)
next
  case False
  then obtain r rs' ep where rs: "rs = r # rs'" "r_ms (rq w q) = Some ep" by (cases rs) (auto simp: is_sent_def)
  let ?bs = "outbuf_bytes (reply_buf pk (r_msgid (rq w q)) r)"
  obtain e1 n where s: "send_to ep ?bs (us_net w) = (e1, n)" by (cases "send_to ep ?bs (us_net w)")
  have "snd (send_to ep ?bs (us_net w)) = us_net w \<or> snd (send_to ep ?bs (us_net w)) = us_net w @ [?bs]"
    using assms(1) by (simp add: keeps_sent_def)
  then have n: "n = us_net w \<or> n = us_net w @ [?bs]" using s by simp
  have "us_conn w' = us_conn w \<and> us_net w' = n"
  proof (cases e1)
    case None
    with udp_replies[of w q ep send_to pk r n rs'] rs s assms(2,3) show ?thesis by auto
  next
    case (Some ex)
    with rs s assms(2) show ?thesis
      by (auto simp: request_reply_pending request_send_data_def udp_ms_send_def dgram_send_to_def)
  qed
  with n rs show ?thesis by auto
qed

text \<open>A datagram with one message, whose handling leaves the socket alone and changes the network by \<open>Q\<close>.\<close>

lemma udp_serve_one:
  fixes v :: "('x, 'u, 'ep, 'n, 'z) udp_server_scheme"
  assumes "one_message d idle bytes is_msg" "idle (dg_pac (us_conn v))"
    and "\<And>u. idle u \<Longrightarrow> idle (pac_reserve d u) \<and> idle (pac_remove_nonparsed d u)"
    and handled: "\<And>ob zn w e w2. is_msg ob \<Longrightarrow> dgram_on_message d (udp_server_vt dispatch) ob (Some zn) src w = (e, w2) \<Longrightarrow>
      us_conn w2 = us_conn w \<and> Q (us_net w) (us_net w2)"
    and v': "v' = snd (dgram_on_read d (udp_server_vt dispatch) 0 bytes src v)"
  shows "idle (dg_pac (us_conn v')) \<and> Q (us_net v) (us_net v')"
proof -
  let ?vt = "udp_server_vt dispatch :: (_, _, _, ('x, 'u, 'ep, 'n, 'z) udp_server_scheme) dgram_vt"
  from assms(1,2) obtain ob zn u where msg: "pac_next_all d (pac_consumed d bytes (dg_pac (us_conn v))) = ([(ob, zn, u)], None, u)"
      "idle u" "is_msg ob" unfolding one_message_def by meson
  have "\<exists>h1 e w2 w3. dgram_on_message d ?vt ob (Some zn) src (dvt_put ?vt h1 v) = (e, w2) \<and> v' = w3 \<and>
      (w3 = w2 \<or> (\<exists>h. w3 = dvt_put ?vt h w2)) \<and> True \<and>
      dg_pac (dvt_get ?vt w3) \<in> {u, pac_reserve d u, pac_remove_nonparsed d u}"
    unfolding v' by (rule udp_server_socket.dgram_on_read_one) (use msg(1) handled[OF msg(3)] in auto)
  then obtain h1 e w2 h where "dgram_on_message d ?vt ob (Some zn) src (v\<lparr>us_conn := h1\<rparr>) = (e, w2)"
    "v' = w2 \<or> v' = w2\<lparr>us_conn := h\<rparr>" "dg_pac (us_conn v') \<in> {u, pac_reserve d u, pac_remove_nonparsed d u}" by auto
  with handled[OF msg(3) this(1)] msg(2) assms(3)[OF msg(2)] show ?thesis by auto
qed

text \<open>What the server sends for the datagrams of the client.\<close>

lemma udp_serve_request:
  assumes codec: "datagram_codec d pk idle em ep rd" and sent: "\<forall>src. keeps_sent (\<lambda>n bs. send_to src bs n)"
    and "idle (dg_pac (us_conn v))"
    and "v' = snd (dgram_on_read d (udp_server_vt (udp_reply_dispatch pk send_to compute)) 0 (outbuf_bytes (request_buf pk m p z i)) src v)"
  shows "idle (dg_pac (us_conn v')) \<and> (us_net v' = us_net v \<or>
    (\<exists>r rs. compute (em m) (ep p) = r # rs \<and> us_net v' = us_net v @ [outbuf_bytes (reply_buf pk i r)]))"
proof (rule udp_serve_one[where idle = idle and is_msg = "\<lambda>ob. conv_rpc d ob = Some \<lparr>rpc_type = REQUEST\<rparr> \<and>
      conv_request d ob = Some (new_msg_request (em m) (ep p) i)" and Q = "\<lambda>n n'. n' = n \<or>
      (\<exists>r rs. compute (em m) (ep p) = r # rs \<and> n' = n @ [outbuf_bytes (reply_buf pk i r)])", OF _ assms(3) _ _ assms(4)], goal_cases)
  case (3 ob zn w e w2)
  let ?q = "length (q_requests w)"
  let ?w = "w\<lparr>q_requests := q_requests w @ [new_request_impl (Some src) i (em m) (ep p) (Some zn)]\<rparr>"
  have "w2 = w \<or> w2 = ?w \<or> request_replies pk (udp_ms_send send_to) ?q (compute (em m) (ep p)) ?w = (e, w2)"
    using 3 by (auto simp: dgram_on_message_def udp_server_vt_def udp_sock_on_request_def udp_reply_dispatch_def
        new_msg_request_def new_request_impl_def Let_def split: if_splits)
  then show ?case
    using udp_replies_net[OF sent, of pk ?q "compute (em m) (ep p)" ?w e w2] by (auto simp: new_request_impl_def)
qed (use codec in \<open>simp_all add: datagram_codec_def\<close>)

lemma udp_serve_notify:
  assumes codec: "datagram_codec d pk idle em ep rd" and sent: "\<forall>src. keeps_sent (\<lambda>n bs. send_to src bs n)"
    and "idle (dg_pac (us_conn v))"
    and "v' = snd (dgram_on_read d (udp_server_vt (udp_reply_dispatch pk send_to compute)) 0 (outbuf_bytes (notify_buf pk m p z)) src v)"
  shows "idle (dg_pac (us_conn v')) \<and> us_net v' = us_net v"
proof (rule udp_serve_one[where idle = idle and is_msg = "\<lambda>ob. conv_rpc d ob = Some \<lparr>rpc_type = NOTIFY\<rparr> \<and>
      conv_notify d ob = Some (new_msg_notify (em m) (ep p))" and Q = "\<lambda>n n'. n' = n", OF _ assms(3) _ _ assms(4)], goal_cases)
  case (3 ob zn w e w2)
  let ?q = "length (q_requests w)"
  let ?w = "w\<lparr>q_requests := q_requests w @ [new_request_impl None 0 (em m) (ep p) (Some zn)]\<rparr>"
  have "is_sent ?q ?w" by (simp add: is_sent_def new_request_impl_def)
  moreover have "w2 = w \<or> w2 = ?w \<or> request_replies pk (udp_ms_send send_to) ?q (compute (em m) (ep p)) ?w = (e, w2)"
    using 3 by (auto simp: dgram_on_message_def udp_server_vt_def udp_sock_on_notify_def udp_reply_dispatch_def
        new_msg_notify_def new_request_impl_def Let_def REQUEST_def RESPONSE_def NOTIFY_def split: if_splits)
  ultimately show ?case by (auto simp: request_replies_sent)
qed (use codec in \<open>simp_all add: datagram_codec_def\<close>)

lemma udp_serve_error:
  "err \<noteq> 0 \<Longrightarrow> v' = snd (dgram_on_read d (udp_server_vt dispatch) err bytes src v) \<Longrightarrow>
    us_net v' = us_net v \<and> dg_pac (us_conn v') = pac_remove_nonparsed d (dg_pac (us_conn v))"
  by (simp add: dgram_on_read_def Let_def dgram_fail_def dset_pac_def)

section \<open>The client\<close>

lemma udp_put_udp: "s < length (w_sessions w) \<Longrightarrow> udp (put_udp s t w) s = t"
  by (simp add: udp_def put_udp_def ses_put_session)

lemma put_udp_simps [simp]:
  "h_futures (put_udp s t w) = h_futures w" "w_net (put_udp s t w) = w_net w" "table (put_udp s t w) s' = table w s'"
  by (simp_all add: put_udp_def ses_put_session)

interpretation udp_client_socket: datagram_socket "udp_client_vt s"
  "\<lambda>w. table_wf w \<and> s < length (w_sessions w)" retires for s
proof unfold_locales
  fix w :: "('x, 'ip, ('u, 'ep) udp_client, 'n, 'z) world_scheme" and h h' :: "('u, 'ep) dgram_handler"
  assume w: "table_wf w \<and> s < length (w_sessions w)"
  then show "dvt_get (udp_client_vt s) (dvt_put (udp_client_vt s) h w) = h" by (simp add: udp_client_vt_def udp_put_udp)
  show "dvt_put (udp_client_vt s) h (dvt_put (udp_client_vt s) h' w) = dvt_put (udp_client_vt s) h w"
    using w by (simp add: udp_client_vt_def udp_put_udp) (simp add: put_udp_def put_session_def)
qed

lemma on_response_frame:
  "w_net (on_response s i r e z w) = w_net w" "s_tran (ses (on_response s i r e z w) s') = s_tran (ses w s')"
  by (simp_all add: on_response_def set_result_def put_table_def put_future_def log_effects_def ses_put_session Let_def
      split: option.split prod.split)

text \<open>An answer completes at most the future that is in the table under its identifier.\<close>

lemma udp_receive_reply:
  assumes codec: "datagram_codec d pk idle em ep rd" and wf: "table_wf w" "s < length (w_sessions w)"
    and idle: "idle (dg_pac (uc_conn (udp w s)))"
    and w': "w' = snd (handle_udp_event d (Udp_read s 0 (outbuf_bytes (reply_buf pk i r)) src) w)"
  shows "idle (dg_pac (uc_conn (udp w' s))) \<and> w_net w' = w_net w \<and>
    (\<forall>f. ready w' f \<longrightarrow> fut w' f = fut w f \<or> (i, f) \<in> set (table w s) \<and>
      f_result (fut w' f) = rd (reply_result r) \<and> f_error (fut w' f) = rd (reply_error r))"
proof -
  let ?vt = "udp_client_vt s" and ?res = "new_msg_response (rd (reply_result r)) (rd (reply_error r)) i"
  from codec idle obtain ob zn u where msg: "pac_next_all d (pac_consumed d (outbuf_bytes (reply_buf pk i r)) (dg_pac (uc_conn (udp w s)))) =
      ([(ob, zn, u)], None, u)" "idle u" "conv_rpc d ob = Some \<lparr>rpc_type = RESPONSE\<rparr>" "conv_response d ob = Some ?res"
    unfolding datagram_codec_def one_message_def by meson
  have handled: "w2 = w1 \<or> w2 = on_response s i (rd (reply_result r)) (rd (reply_error r)) (Some zn) w1"
    if "dgram_on_message d ?vt ob (Some zn) src w1 = (e, w2)" for e w1 w2
    using that msg(3,4)
    by (auto simp: dgram_on_message_def udp_client_vt_def udp_client_on_response_def new_msg_response_def
        REQUEST_def RESPONSE_def split: if_splits)
  have "\<exists>h1 e w2 w3. dgram_on_message d ?vt ob (Some zn) src (dvt_put ?vt h1 w) = (e, w2) \<and> w' = w3 \<and>
      (w3 = w2 \<or> (\<exists>h. w3 = dvt_put ?vt h w2)) \<and> (table_wf w2 \<and> s < length (w_sessions w2)) \<and>
      dg_pac (dvt_get ?vt w3) \<in> {u, pac_reserve d u, pac_remove_nonparsed d u}"
    unfolding w' handle_udp_event.simps
  proof (rule udp_client_socket.dgram_on_read_one)
    fix h e w2 assume "dgram_on_message d ?vt ob (Some zn) src (dvt_put ?vt h w) = (e, w2)"
    from handled[OF this] wf(2) show "dg_pac (dvt_get ?vt w2) = dg_pac h"
      by (auto simp: udp_client_vt_def udp_def on_response_frame put_udp_def ses_put_session)
  qed (use wf msg(1) in \<open>simp_all add: udp_client_vt_def\<close>)
  then obtain h1 e w2 h where r: "dgram_on_message d ?vt ob (Some zn) src (dvt_put ?vt h1 w) = (e, w2)"
    "w' = w2 \<or> w' = dvt_put ?vt h w2" "dg_pac (uc_conn (udp w' s)) \<in> {u, pac_reserve d u, pac_remove_nonparsed d u}"
    by (auto simp: udp_client_vt_def)
  let ?w1 = "dvt_put ?vt h1 w"
  have w1: "h_futures ?w1 = h_futures w" "w_net ?w1 = w_net w" "table ?w1 s = table w s" by (simp_all add: udp_client_vt_def)
  have w2: "h_futures w' = h_futures w2" "w_net w' = w_net w2" using r(2) by (auto simp: udp_client_vt_def)
  have "fut w2 f = fut w f \<or> (i, f) \<in> set (table w s) \<and> f_result (fut w2 f) = rd (reply_result r) \<and> f_error (fut w2 f) = rd (reply_error r)" for f
  proof (cases "map_of (table w s) i")
    case None
    with handled[OF r(1)] w1 show ?thesis by (auto simp: on_response_unknown)
  next
    case (Some g)
    with handled[OF r(1)] w1 show ?thesis
      by (cases "g = f") (auto simp: on_response_known fut_set_result map_of_SomeD put_table_def)
  qed
  moreover have "w_net w2 = w_net w" using handled[OF r(1)] w1 by (auto simp: on_response_frame)
  ultimately show ?thesis using r(3) msg(2) codec w2 by (auto simp: datagram_codec_def)
qed

lemma udp_receive_error:
  "err \<noteq> 0 \<Longrightarrow> s < length (w_sessions w) \<Longrightarrow> w' = snd (handle_udp_event d (Udp_read s err bytes src) w) \<Longrightarrow>
    h_futures w' = h_futures w \<and> w_net w' = w_net w \<and> dg_pac (uc_conn (udp w' s)) = pac_remove_nonparsed d (dg_pac (uc_conn (udp w s)))"
  by (simp add: dgram_on_read_def Let_def dgram_fail_def dset_pac_def udp_client_vt_def udp_put_udp put_udp_def
      put_session_def udp_def)

lemma udp_send_frame:
  assumes a: "lossy_asio a" and s: "s < length (w_sessions w)" and w': "w' = snd (udp_send_data a d s buf w)"
  shows "h_futures w' = h_futures w \<and> dg_pac (uc_conn (udp w' s)) = dg_pac (uc_conn (udp w s)) \<and>
    (w_net w' = w_net w \<or> w_net w' = w_net w @ [outbuf_bytes buf])"
proof -
  obtain w1 where f: "udp_flush_if_idle a d s w = (None, w1)" "h_futures w1 = h_futures w" "w_sessions w1 = w_sessions w" "w_net w1 = w_net w"
  proof (cases "loop_running w s")
    case True
    then show ?thesis using that[of w] by (simp add: udp_flush_if_idle_def)
  next
    case False
    then show ?thesis using that[of "on_loop (s_loop (ses w s)) loop_flush w"] a
      by (simp add: udp_flush_if_idle_def lossy_asio_def on_loop_def)
  qed
  let ?w2 = "udp_reconnect a s w1"
  obtain ec n where c: "udp_sock_connect a s (s_addr (ses w1 s)) (w_net w1) = (ec, n)"
    by (cases "udp_sock_connect a s (s_addr (ses w1 s)) (w_net w1)")
  have "n = w_net w1" using a c unfolding lossy_asio_def by (metis snd_conv)
  then have w2: "h_futures ?w2 = h_futures w" "w_net ?w2 = w_net w" "dg_pac (uc_conn (udp ?w2 s)) = dg_pac (uc_conn (udp w s))"
    using f(2-4) c s by (simp_all add: udp_reconnect_def udp_connect_def dgram_start_def Let_def udp_put_udp[unfolded udp_def] udp_def)
  have sent: "snd (udp_send_to a s ep bs n) = n \<or> snd (udp_send_to a s ep bs n) = n @ [bs]" for ep bs n
    using a by (simp add: lossy_asio_def keeps_sent_def)
  have "w' = snd (dgram_send_data (\<lambda>w. udp_remote a s (w_net w)) (udp_sock_send a s) (udp_client_vt s) buf ?w2)"
    using w' f(1) by (simp add: udp_send_data_def)
  then have "w' = ?w2 \<or> (\<exists>ep. w' = ?w2\<lparr>w_net := snd (udp_send_to a s ep (outbuf_bytes buf) (w_net w))\<rparr>)"
    using w2(2) by (auto simp: dgram_send_data_def dgram_send_to_def udp_sock_send_def split: sum.split prod.split)
      (metis snd_conv)
  then have "w' = ?w2 \<or> (\<exists>n. w' = ?w2\<lparr>w_net := n\<rparr> \<and> (n = w_net w \<or> n = w_net w @ [outbuf_bytes buf]))"
    using sent by blast
  then show ?thesis using w2 by (auto simp: udp_def)
qed

lemma udp_call_frame:
  assumes "lossy_asio a" "s < length (w_sessions w)" "w' = snd (send_request pk (udp_send_data a d) s m p z w)"
  shows "h_futures w' = h_futures (registered s w) \<and> dg_pac (uc_conn (udp w' s)) = dg_pac (uc_conn (udp w s)) \<and>
    (w_net w' = w_net w \<or> w_net w' = w_net w @ [outbuf_bytes (request_buf pk m p z (s_msgid_rr (ses w s)))])"
proof -
  have s: "s < length (w_sessions (registered s w))" using assms(2) by (simp add: registered_simps)
  have "udp (registered s w) s = udp w s" by (simp add: udp_def registered_def register_session_simps next_msgid_simps)
  with udp_send_frame[OF assms(1) s assms(3)[unfolded send_request_state]] assms(2) show ?thesis
    by (simp add: registered_simps(3))
qed

lemma step_timer_frame:
  "w_net (step_timer_handler aborted s w) = w_net w" "s_tran (ses (step_timer_handler aborted s w) s') = s_tran (ses w s')"
proof -
  have 1: "w_net (complete_all er fs w) = w_net w \<and> w_sessions (complete_all er fs w) = w_sessions w"
    for er fs and w :: "('x, 'ip, 't, 'n, 'z) world_scheme"
    unfolding complete_all_def
    by (induction fs arbitrary: w) (simp_all add: set_result_def put_future_def log_effects_def Let_def split: option.split)
  show "w_net (step_timer_handler aborted s w) = w_net w" "s_tran (ses (step_timer_handler aborted s w) s') = s_tran (ses w s')"
    by (simp_all add: step_timer_handler_def Let_def 1 put_table_def arm_step_timer_def ses_put_session split: prod.split)
qed

section \<open>The invariant of the system\<close>

text \<open>What the datagrams on the network are, and how the future of the call number \<open>f\<close> may be completed.\<close>

definition udp_sent :: "('x, 'b) packer \<Rightarrow> (string \<times> 'x object list) list \<Rightarrow> 'b list \<Rightarrow> bool" where
  "udp_sent pk cs bytes \<longleftrightarrow>
     (\<exists>j < length cs. \<exists>z. bytes = outbuf_bytes (request_buf pk (fst (cs ! j)) (snd (cs ! j)) z (1 + of_nat j))) \<or>
     (\<exists>m p z. bytes = outbuf_bytes (notify_buf pk m p z))"

definition udp_answer ::
  "(string \<Rightarrow> 'x object) \<Rightarrow> ('x object list \<Rightarrow> 'x object) \<Rightarrow> ('x object \<Rightarrow> 'x object \<Rightarrow> 'x reply list) \<Rightarrow>
   (string \<times> 'x object list) list \<Rightarrow> nat \<Rightarrow> 'x reply \<Rightarrow> bool"
where
  "udp_answer em ep compute cs f r \<longleftrightarrow> (\<exists>rs. compute (em (fst (cs ! f))) (ep (snd (cs ! f))) = r # rs)"

definition udp_outcome ::
  "(string \<Rightarrow> 'x object) \<Rightarrow> ('x object list \<Rightarrow> 'x object) \<Rightarrow> ('x object \<Rightarrow> 'x object) \<Rightarrow>
   ('x object \<Rightarrow> 'x object \<Rightarrow> 'x reply list) \<Rightarrow> (string \<times> 'x object list) list \<Rightarrow> nat \<Rightarrow> 'x future_impl \<Rightarrow> bool"
where
  "udp_outcome em ep rd compute cs f fu \<longleftrightarrow> f_result fu = NIL \<and> f_error fu = TIMEOUT_ERROR \<or>
     (\<exists>r. udp_answer em ep compute cs f r \<and> f_result fu = rd (reply_result r) \<and> f_error fu = rd (reply_error r))"

definition udp_calls_inv ::
  "(string \<Rightarrow> 'x object) \<Rightarrow> ('x object list \<Rightarrow> 'x object) \<Rightarrow> ('x object \<Rightarrow> 'x object) \<Rightarrow>
   ('x object \<Rightarrow> 'x object \<Rightarrow> 'x reply list) \<Rightarrow> (string \<times> 'x object list) list \<Rightarrow>
   ('x, 'ip, 't, 'n, 'z) world_scheme \<Rightarrow> bool"
where
  "udp_calls_inv em ep rd compute cs w \<longleftrightarrow>
     length (h_futures w) = length cs \<and> s_msgid_rr (ses w 0) = 1 + of_nat (length cs) \<and>
     (\<forall>f < length cs. f_msgid (fut w f) = 1 + of_nat f \<and>
        (ready w f \<longrightarrow> udp_outcome em ep rd compute cs f (fut w f)))"

definition udp_net_inv ::
  "('x, 'b) packer \<Rightarrow> ('u \<Rightarrow> bool) \<Rightarrow> (string \<Rightarrow> 'x object) \<Rightarrow> ('x object list \<Rightarrow> 'x object) \<Rightarrow>
   ('x object \<Rightarrow> 'x object \<Rightarrow> 'x reply list) \<Rightarrow> (string \<times> 'x object list) list \<Rightarrow>
   ('x, 'ip, ('u, 'ep) udp_client, 'b list list, 'z) world_scheme \<Rightarrow> ('x, 'u, 'ep, 'b list list, 'y) udp_server_scheme \<Rightarrow> bool"
where
  "udp_net_inv pk idle em ep compute cs w v \<longleftrightarrow>
     idle (dg_pac (uc_conn (udp w 0))) \<and> idle (dg_pac (us_conn v)) \<and>
     (\<forall>bytes \<in> set (w_net w). udp_sent pk cs bytes) \<and>
     (\<forall>bytes \<in> set (us_net v). \<exists>j < length cs. \<exists>r. udp_answer em ep compute cs j r \<and>
        bytes = outbuf_bytes (reply_buf pk (1 + of_nat j) r))"

lemma udp_append:
  "f < length cs \<Longrightarrow> udp_answer em ep compute (cs @ [c]) f r = udp_answer em ep compute cs f r"
  "f < length cs \<Longrightarrow> udp_outcome em ep rd compute (cs @ [c]) f fu = udp_outcome em ep rd compute cs f fu"
  "udp_sent pk cs bytes \<Longrightarrow> udp_sent pk (cs @ [c]) bytes"
  unfolding udp_answer_def udp_outcome_def udp_sent_def by (auto simp: nth_append intro: less_SucI)

text \<open>A step of the client that sends nothing but \<open>sent\<close>.\<close>

lemma udp_net_inv_sends:
  assumes "udp_net_inv pk idle em ep compute cs w v" "udp_sent pk (cs @ c) bytes" "length c \<le> 1"
    and "dg_pac (uc_conn (udp w' 0)) = dg_pac (uc_conn (udp w 0))" "w_net w' = w_net w \<or> w_net w' = w_net w @ [bytes]"
  shows "udp_net_inv pk idle em ep compute (cs @ c) w' v"
proof -
  have c: "c = [] \<or> (\<exists>x. c = [x])" using assms(3) by (cases c) auto
  have "udp_sent pk (cs @ c) b" if "b \<in> set (w_net w)" for b
    using assms(1) that c by (auto simp: udp_net_inv_def udp_append(3))
  moreover have "\<exists>j < length (cs @ c). \<exists>r. udp_answer em ep compute (cs @ c) j r \<and> b = outbuf_bytes (reply_buf pk (1 + of_nat j) r)"
    if b: "b \<in> set (us_net v)" for b
  proof -
    from assms(1) b obtain j r where "j < length cs" "udp_answer em ep compute cs j r" "b = outbuf_bytes (reply_buf pk (1 + of_nat j) r)"
      unfolding udp_net_inv_def by blast
    then show ?thesis using c by (intro exI[of _ j]) (auto simp: udp_append(1))
  qed
  ultimately show ?thesis using assms(1,2,4,5) by (auto simp: udp_net_inv_def)
qed

lemma udp_call_calls_inv:
  assumes a: "lossy_asio a" and inv: "udp_calls_inv em ep rd compute cs w" and wf: "table_wf w" "0 < length (w_sessions w)"
    and w': "w' = snd (send_request pk (udp_send_data a d) 0 m p z w)"
  shows "udp_calls_inv em ep rd compute (cs @ [(m, p)]) w'"
proof -
  let ?r = "registered 0 w"
  have fr: "h_futures w' = h_futures ?r"
    by (rule udp_call_frame[OF a wf(2) w', THEN conjunct1])
  have "s_msgid_rr (ses w' 0) = s_msgid_rr (ses ?r 0)"
    unfolding w' by (rule retiresD(6)[OF udp_process.call_retires[OF wf]]) (use registered_simps(1)[OF wf(2)] wf(2) in presburger)
  with inv wf(2) have "s_msgid_rr (ses w' 0) = 1 + of_nat (length (cs @ [(m, p)]))"
    by (simp add: udp_calls_inv_def registered_simps)
  moreover have "f_msgid (fut w' f) = 1 + of_nat f \<and> (ready w' f \<longrightarrow> udp_outcome em ep rd compute (cs @ [(m, p)]) f (fut w' f))"
    if "f < length (cs @ [(m, p)])" for f
  proof (cases "f < length cs")
    case True
    with inv wf(2) show ?thesis by (simp add: udp_calls_inv_def fr registered_simps nth_append udp_append(2))
  next
    case False
    with that have "f = length cs" by simp
    with inv wf(2) show ?thesis
      by (simp add: udp_calls_inv_def fr registered_simps nth_append new_future_impl_def is_ready_def)
  qed
  ultimately show ?thesis using inv wf(2) by (simp add: udp_calls_inv_def fr registered_simps)
qed

text \<open>Any other step of the client, when the futures it completes get an outcome of their calls.\<close>

lemma udp_retires_calls_inv:
  assumes inv: "udp_calls_inv em ep rd compute cs w" and r: "retires w w'" and ne: "0 < length (w_sessions w)"
    and new: "\<forall>f < length cs. ready w' f \<longrightarrow> fut w' f = fut w f \<or> udp_outcome em ep rd compute cs f (fut w' f)"
  shows "udp_calls_inv em ep rd compute cs w'"
  using inv retiresD(1)[OF r] retiresD(6)[OF r ne] retiresD(3)[OF r] new unfolding udp_calls_inv_def by metis

lemma udp_serve_net_inv:
  assumes codec: "datagram_codec d pk idle em ep rd" and sent: "\<forall>src. keeps_sent (\<lambda>n bs. send_to src bs n)"
    and inv: "udp_net_inv pk idle em ep compute cs w v" and net: "err = 0 \<longrightarrow> bytes \<in> set (w_net w)"
    and v': "v' = snd (dgram_on_read d (udp_server_vt (udp_reply_dispatch pk send_to compute)) err bytes src v)"
  shows "udp_net_inv pk idle em ep compute cs w v'"
proof (cases "err = 0")
  case False
  from udp_serve_error[OF False v'] inv codec show ?thesis by (simp add: udp_net_inv_def datagram_codec_def)
next
  case True
  have idle: "idle (dg_pac (us_conn v))" using inv by (simp add: udp_net_inv_def)
  have "udp_sent pk cs bytes" using inv net True by (simp add: udp_net_inv_def)
  then consider (req) j z where "j < length cs" "bytes = outbuf_bytes (request_buf pk (fst (cs ! j)) (snd (cs ! j)) z (1 + of_nat j))"
    | (ntf) m p z where "bytes = outbuf_bytes (notify_buf pk m p z)" unfolding udp_sent_def by blast
  then show ?thesis
  proof cases
    case req
    from udp_serve_request[OF codec sent idle v'[unfolded True req(2)]]
    have "us_net v' = us_net v \<or> (\<exists>r. udp_answer em ep compute cs j r \<and> us_net v' = us_net v @ [outbuf_bytes (reply_buf pk (1 + of_nat j) r)])"
      and "idle (dg_pac (us_conn v'))" unfolding udp_answer_def by blast+
    with inv req(1) show ?thesis unfolding udp_net_inv_def by auto blast
  next
    case ntf
    from udp_serve_notify[OF codec sent idle v'[unfolded True ntf]] inv show ?thesis by (simp add: udp_net_inv_def)
  qed
qed

lemma udp_receive_inv:
  assumes codec: "datagram_codec d pk idle em ep rd" and inv: "udp_net_inv pk idle em ep compute cs w v"
    and calls: "udp_calls_inv em ep rd compute cs w" and wf: "table_wf w" "0 < length (w_sessions w)"
    and few: "length cs \<le> 2 ^ 32" and net: "err = 0 \<longrightarrow> bytes \<in> set (us_net v)"
    and w': "w' = snd (handle_udp_event d (Udp_read 0 err bytes src) w)"
  shows "udp_net_inv pk idle em ep compute cs w' v \<and> udp_calls_inv em ep rd compute cs w'"
proof (cases "err = 0")
  case False
  from udp_receive_error[OF False wf(2) w'] have fr: "h_futures w' = h_futures w" "w_net w' = w_net w"
    "dg_pac (uc_conn (udp w' 0)) = pac_remove_nonparsed d (dg_pac (uc_conn (udp w 0)))" by simp_all
  have "retires w w'" unfolding w' by (rule handle_udp_event_retires[OF wf(1)]) (use wf(2) in simp)
  from udp_retires_calls_inv[OF calls this wf(2)] fr inv codec show ?thesis
    by (simp add: udp_net_inv_def datagram_codec_def)
next
  case True
  have idle: "idle (dg_pac (uc_conn (udp w 0)))" using inv by (simp add: udp_net_inv_def)
  from inv net True obtain j r where j: "j < length cs" "udp_answer em ep compute cs j r"
    "bytes = outbuf_bytes (reply_buf pk (1 + of_nat j) r)" unfolding udp_net_inv_def by blast
  note rec = udp_receive_reply[OF codec wf idle w'[unfolded True j(3)]]
  have "retires w w'" unfolding w' by (rule handle_udp_event_retires[OF wf(1)]) (use wf(2) in simp)
  moreover have "fut w' f = fut w f \<or> udp_outcome em ep rd compute cs f (fut w' f)" if f: "f < length cs" "ready w' f" for f
  proof (cases "fut w' f = fut w f")
    case False
    with rec f(2) have in_tab: "(1 + of_nat j, f) \<in> set (table w 0)"
      and out: "f_result (fut w' f) = rd (reply_result r)" "f_error (fut w' f) = rd (reply_error r)" by auto
    from table_wfD(4)[OF wf in_tab] calls f(1) have "(of_nat f :: 32 word) = of_nat j" by (simp add: udp_calls_inv_def)
    then have "f = j" using word_of_nat_inj[of f j, where 'a = 32] f(1) j(1) few by simp
    with j(2) out show ?thesis by (auto simp: udp_outcome_def)
  qed simp
  ultimately have "udp_calls_inv em ep rd compute cs w'" by (intro udp_retires_calls_inv[OF calls _ wf(2)]) blast+
  then show ?thesis using rec inv by (simp add: udp_net_inv_def)
qed

lemma udp_tick_calls_inv:
  assumes "udp_calls_inv em ep rd compute cs w" "table_wf w" "0 < length (w_sessions w)"
  shows "udp_calls_inv em ep rd compute cs (step_timer_handler False 0 w)"
proof (rule udp_retires_calls_inv[OF assms(1) step_timer_retires[OF assms(2,3)] assms(3)], intro allI impI)
  fix f assume f: "f < length cs" "ready (step_timer_handler False 0 w) f"
  then have "f < length (h_futures w)" using assms(1) by (simp add: udp_calls_inv_def)
  note fut = fut_step_timer[OF assms(2,3) this]
  show "fut (step_timer_handler False 0 w) f = fut w f \<or> udp_outcome em ep rd compute cs f (fut (step_timer_handler False 0 w) f)"
    using assms(1) f fut
    by (auto simp: udp_outcome_def failed_with_def udp_calls_inv_def step_timeout_def is_ready_def split: if_splits)
qed

lemma udp_start_inv:
  assumes "lossy_asio a" "idle (pac_new d)" "us_net v = []" "dg_pac (us_conn v) = pac_new d"
    and w: "w = snd (session_create (udp_build a d b) addr lo (initial_world ls []))"
  shows "udp_net_inv pk idle em ep compute [] w v \<and> udp_calls_inv em ep rd compute [] w"
proof -
  obtain ec n where c: "udp_sock_connect a 0 addr [] = (ec, n)" by (cases "udp_sock_connect a 0 addr []")
  then have "n = []" using assms(1) unfolding lossy_asio_def by (metis snd_conv)
  with c assms(2-4) show ?thesis
    by (simp add: w udp_net_inv_def udp_calls_inv_def session_create_def session_build_def arm_step_timer_def Let_def
        put_session_def initial_world_def udp_build_def new_udp_client_def udp_connect_def new_udp_socket_def
        new_session_impl_def udp_def dgram_start_def new_dgram_handler_def)
qed

text \<open>Steps that leave the sessions and the network alone and complete a future by a timeout at most.\<close>

lemma udp_other_inv:
  assumes "udp_net_inv pk idle em ep compute cs w v" "udp_calls_inv em ep rd compute cs w"
    and "w_net w' = w_net w" "w_sessions w' = w_sessions w" "length (h_futures w') = length (h_futures w)"
    and "\<forall>f < length cs. f_msgid (fut w' f) = f_msgid (fut w f) \<and>
      (f_result (fut w' f) = f_result (fut w f) \<and> f_error (fut w' f) = f_error (fut w f) \<and> ready w' f = ready w f \<or>
       f_result (fut w' f) = NIL \<and> f_error (fut w' f) = TIMEOUT_ERROR)"
  shows "udp_net_inv pk idle em ep compute cs w' v \<and> udp_calls_inv em ep rd compute cs w'"
  using assms unfolding udp_net_inv_def udp_calls_inv_def udp_def udp_outcome_def by simp metis

lemma udp_system_inv:
  assumes "udp_system a d pk send_to compute cs t w v" "length cs \<le> 2 ^ 32"
    and a: "lossy_asio a" and codec: "datagram_codec d pk idle em ep rd" and sent: "\<forall>src. keeps_sent (\<lambda>n bs. send_to src bs n)"
  shows "udp_net_inv pk idle em ep compute cs w v \<and> udp_calls_inv em ep rd compute cs w"
  using assms(1,2)
proof induction
  case (usys_start v b addr lo ls)
  then show ?case using codec by (intro udp_start_inv[OF a _ _ _ refl]) (simp_all add: datagram_codec_def)
next
  case (usys_call cs t w v m p z)
  let ?w' = "snd (send_request pk (udp_send_data a d) 0 m p z w)"
  have wf: "table_wf w" "0 < length (w_sessions w)"
    using udp_system_run[OF usys_call.hyps] run_inv_wf[OF udp_runs.process_run_inv] by auto
  have inv: "udp_net_inv pk idle em ep compute cs w v" "udp_calls_inv em ep rd compute cs w" using usys_call by simp_all
  have "udp_sent pk (cs @ [(m, p)]) (outbuf_bytes (request_buf pk m p z (s_msgid_rr (ses w 0))))"
    using inv(2) unfolding udp_sent_def udp_calls_inv_def by (intro disjI1 exI[of _ "length cs"]) auto
  with udp_net_inv_sends[OF inv(1) this, of ?w'] udp_call_frame[OF a wf(2) refl, of pk d m p z] udp_call_calls_inv[OF a inv(2) wf refl]
  show ?case by simp
next
  case (usys_notify cs t w v m p z)
  let ?w' = "snd (send_notify pk (udp_send_data a d) 0 m p z w)"
  have wf: "table_wf w" "0 < length (w_sessions w)"
    using udp_system_run[OF usys_notify.hyps] run_inv_wf[OF udp_runs.process_run_inv] by auto
  have inv: "udp_net_inv pk idle em ep compute cs w v" "udp_calls_inv em ep rd compute cs w" using usys_notify by simp_all
  have "udp_sent pk (cs @ []) (outbuf_bytes (notify_buf pk m p z))" unfolding udp_sent_def by blast
  from udp_net_inv_sends[OF inv(1) this, of ?w'] udp_send_frame[OF a wf(2) send_notify_state[of pk "udp_send_data a d" 0 m p z w]]
    udp_retires_calls_inv[OF inv(2) udp_process.notify_retires[OF wf, of pk a d m p z] wf(2)]
  show ?case by simp
next
  case (usys_serve cs t w v err bytes src)
  then show ?case by (intro conjI udp_serve_net_inv[OF codec sent _ _ refl]) simp_all
next
  case (usys_receive cs t w v err bytes src)
  have wf: "table_wf w" "0 < length (w_sessions w)"
    using udp_system_run[OF usys_receive.hyps(1)] run_inv_wf[OF udp_runs.process_run_inv] by auto
  show ?case by (rule udp_receive_inv[OF codec _ _ wf _ _ refl, of compute cs v]) (use usys_receive in simp_all)
next
  case (usys_tick cs t w v aborted)
  have wf: "table_wf w" "0 < length (w_sessions w)"
    using udp_system_run[OF usys_tick.hyps] run_inv_wf[OF udp_runs.process_run_inv] by auto
  have inv: "udp_net_inv pk idle em ep compute cs w v" "udp_calls_inv em ep rd compute cs w" using usys_tick by simp_all
  show ?case
  proof (cases aborted)
    case True
    with inv show ?thesis by (simp add: step_timer_handler_def)
  next
    case False
    with udp_tick_calls_inv[OF inv(2) wf] inv(1) show ?thesis by (simp add: udp_net_inv_def udp_def step_timer_frame)
  qed
next
  case (usys_wait_expired cs t w v f)
  then have inv: "udp_net_inv pk idle em ep compute cs w v" "udp_calls_inv em ep rd compute cs w" by simp_all
  show ?case by (rule udp_other_inv[OF inv])
    (auto simp: set_result_def put_future_def log_effects_def Let_def nth_list_update_if split: option.split)
next
  case (usys_attach cs t w v f cb)
  then have inv: "udp_net_inv pk idle em ep compute cs w v" "udp_calls_inv em ep rd compute cs w" by simp_all
  show ?case by (rule udp_other_inv[OF inv])
    (auto simp: attach_callback_def put_future_def on_loop_def nth_list_update_if is_ready_def)
qed

section \<open>A sample system\<close>

text \<open>A network that loses no datagram, and a server that answers with the parameters.\<close>

definition dgram_asio :: "(nat, nat, wire, wire list list) udp_asio" where
  "dgram_asio =
     \<lparr>udp_sock_connect = (\<lambda>s ad n. (0, n)), udp_remote = (\<lambda>s n. Inr 7), udp_send_to = (\<lambda>s ep bs n. (None, n @ [bs])),
      udp_poll = (\<lambda>n. ([], n)), udp_any = 0\<rparr>"

definition dgram_send :: "nat \<Rightarrow> wire list \<Rightarrow> wire list list \<Rightarrow> errno option \<times> wire list list" where
  "dgram_send ep bs n = (None, n @ [bs])"

definition dgram_compute :: "msg_value object \<Rightarrow> msg_value object \<Rightarrow> msg_value reply list" where
  "dgram_compute m p = [Result p]"

definition dgram_client :: "(msg_value, nat, (wire list, nat) udp_client, wire list list) world" where
  "dgram_client = snd (session_create (udp_build dgram_asio codec_decoder new_udp_builder) (Address 2 80) 0 (initial_world [new_loop] []))"

definition dgram_client_called :: "(msg_value, nat, (wire list, nat) udp_client, wire list list) world" where
  "dgram_client_called =
     snd (send_request codec_packer (udp_send_data dgram_asio codec_decoder) 0 ''echo'' [NIL] None dgram_client)"

definition dgram_server :: "(msg_value, wire list, nat, wire list list) udp_server" where
  "dgram_server = \<lparr>q_requests = [], us_dp = True, us_alive = True,
     us_conn = \<lparr>dg_pac = [], dg_open = True, dg_receiving = True, dg_remote = 0\<rparr>, us_net = []\<rparr>"

definition dgram_server_done :: "(msg_value, wire list, nat, wire list list) udp_server" where
  "dgram_server_done = snd (dgram_on_read codec_decoder
     (udp_server_vt (udp_reply_dispatch codec_packer dgram_send dgram_compute)) 0 [Head, Body (Req ''echo'' [NIL] 1)] 7 dgram_server)"

definition dgram_client_done :: "(msg_value, nat, (wire list, nat) udp_client, wire list list) world" where
  "dgram_client_done = snd (handle_udp_event codec_decoder
     (Udp_read 0 0 [Head, Body (Res (Opaque (Arr [NIL])) NIL 1)] 9) dgram_client_called)"

abbreviation dgram_system where
  "dgram_system \<equiv> udp_system dgram_asio codec_decoder codec_packer dgram_send dgram_compute"

lemma dgram_asio_lossy: "lossy_asio dgram_asio" "\<forall>src. keeps_sent (\<lambda>n bs. dgram_send src bs n)"
  by (simp_all add: lossy_asio_def keeps_sent_def dgram_asio_def dgram_send_def)

lemma codec_one_message: "is_msg (Opaque x) \<Longrightarrow> one_message codec_decoder (\<lambda>u. u = []) [Head, Body x] is_msg"
  by (simp add: one_message_def codec_decoder_def)

lemma codec_fields:
  "pac_new codec_decoder = []" "pac_reserve codec_decoder u = u" "pac_remove_nonparsed codec_decoder u = []"
  "conv_rpc codec_decoder = codec_rpc" "conv_request codec_decoder = codec_request"
  "conv_notify codec_decoder = codec_notify" "conv_response codec_decoder = codec_response"
  by (simp_all add: codec_decoder_def)

lemma codec_datagrams:
  "datagram_codec codec_decoder codec_packer (\<lambda>u. u = []) (\<lambda>m. Opaque (Str m)) (\<lambda>p. Opaque (Arr p)) (\<lambda>x. x)"
proof -
  have "outbuf_bytes (request_buf codec_packer m p z i) = [Head, Body (Req m p i)]"
    "outbuf_bytes (notify_buf codec_packer m p z) = [Head, Body (Ntf m p)]" for m p z i
    by (simp_all add: request_buf_def notify_buf_def codec_packer_def new_msg_request_def new_msg_notify_def)
  then show ?thesis
    unfolding datagram_codec_def by (intro conjI allI) (simp_all add: codec_pack_reply codec_one_message codec_fields)
qed

lemma dgram_client_called_eq:
  "dgram_client_called = \<lparr>h_futures = [new_future_impl 1 0 0 30], h_loops = [loop_flush new_loop], h_log = [],
     w_sessions = [(new_session_impl (Address 2 80) 0)\<lparr>s_msgid_rr := 2, s_reqtable := [(1, 0)], s_timeout := 30, s_timer := True,
       s_tran := Some \<lparr>uc_conn = \<lparr>dg_pac = [], dg_open = True, dg_receiving = True, dg_remote = 0\<rparr>, uc_broadcast = False,
         uc_options = [''reuse_address'']\<rparr>\<rparr>],
     w_net = [[Head, Body (Req ''echo'' [NIL] 1)]]\<rparr>"
  by code_simp

lemma dgram_done:
  "us_net dgram_server_done = [[Head, Body (Res (Opaque (Arr [NIL])) NIL 1)]]"
  "ready dgram_client_done 0" "f_result (fut dgram_client_done 0) = Opaque (Arr [NIL])"
  "h_futures dgram_client_called = [new_future_impl 1 0 0 30]" "length (h_futures dgram_client_done) = 1"
  "length (w_sessions dgram_client_done) = 1"
  by code_simp+

lemma dgram_called_system: "dgram_system [(''echo'', [NIL])] 0 dgram_client_called dgram_server"
proof -
  have "dgram_system [] 0 dgram_client dgram_server"
    unfolding dgram_client_def by (rule usys_start) (simp_all add: dgram_server_def codec_fields)
  from usys_call[OF this, of "''echo''" "[NIL]" None] show ?thesis by (simp add: dgram_client_called_def)
qed

lemma dgram_done_system: "dgram_system [(''echo'', [NIL])] 0 dgram_client_done dgram_server_done"
proof -
  have "dgram_system [(''echo'', [NIL])] 0 dgram_client_called dgram_server_done"
    unfolding dgram_server_done_def by (rule usys_serve[OF dgram_called_system]) (simp add: dgram_client_called_eq)
  then show ?thesis unfolding dgram_client_done_def by (rule usys_receive) (simp add: dgram_done)
qed

section \<open>Properties\<close>

text \<open>
  C8: A client and a server over UDP: on a network that loses datagrams, delivers them again and in any
  order, with up to 2 ^ 32 calls and whatever notifications, errors, timeouts and waits that end occur,
  every completed future of the client holds the answer that the server's program computes for the
  method and the parameters of its own call, or the local timeout error with a nil result.
\<close>

theorem udp_answers_match:
  assumes "udp_system a d pk send_to compute cs t w v" "length cs \<le> 2 ^ 32" "lossy_asio a" "datagram_codec d pk idle em ep rd"
    and "\<forall>src. keeps_sent (\<lambda>n bs. send_to src bs n)" "f < length (h_futures w)" "ready w f"
  shows "f < length cs \<and> (f_result (fut w f) = NIL \<and> f_error (fut w f) = TIMEOUT_ERROR \<or>
    (\<exists>r rs. compute (em (fst (cs ! f))) (ep (snd (cs ! f))) = r # rs \<and>
       f_result (fut w f) = rd (reply_result r) \<and> f_error (fut w f) = rd (reply_error r)))"
  using udp_system_inv[OF assms(1-5)] assms(6,7) by (auto simp: udp_calls_inv_def udp_outcome_def udp_answer_def)

lemma udp_answers_match_witness:
  "dgram_system [(''echo'', [NIL])] 0 dgram_client_done dgram_server_done \<and>
   ready dgram_client_done 0 \<and> f_error (fut dgram_client_done 0) = NIL"
  using udp_answers_match[OF dgram_done_system _ dgram_asio_lossy(1) codec_datagrams dgram_asio_lossy(2), of 0] dgram_done dgram_done_system
  by (simp add: dgram_compute_def)

text \<open>
  C9: No request over UDP waits forever, though a datagram can be lost: in every run of a client with up
  to 2 ^ 32 calls, a future that waits with \<open>n\<close> seconds left is in the request table of its session under
  its own identifier, and \<open>n + 1\<close> ticks of the session's timer complete it with the timeout error if
  nothing else does before.
\<close>

theorem udp_request_times_out:
  assumes "udp_run a d pk c t w" "c \<le> 2 ^ 32" "f < length (h_futures w)" "f_session (fut w f) = Some s"
    and "w' = timer_ticks s (Suc (unat (f_timeout (fut w f)))) w"
  shows "(f_msgid (fut w f), f) \<in> set (table w s) \<and>
    ready w' f \<and> f_error (fut w' f) = TIMEOUT_ERROR \<and> f \<notin> snd ` set (table w' s)"
  using run_inv_ticks[OF udp_runs.process_run_inv[OF assms(1)] assms(2-5)] udp_runs.process_run_inv[OF assms(1)] assms(2-4)
  by (auto simp: run_inv_def no_orphan_def)

lemma udp_request_times_out_witness:
  "f_error (fut (timer_ticks 0 31 dgram_client_called) 0) = TIMEOUT_ERROR"
  using udp_request_times_out[OF udp_system_run[OF dgram_called_system, THEN conjunct1] _ _ _ refl, of 0 0]
  by (simp add: dgram_done new_future_impl_def)

text \<open>
  A datagram that arrives again changes nothing that has been decided: in every run over UDP in which
  no wait has timed out, a completed future keeps its result, its error and its zone through every
  further datagram, tick, call and notification.
\<close>

lemma udp_result_stable:
  assumes "udp_run a d pk c 0 w" "f < length (h_futures w)" "ready w f"
  shows "(udp_event_valid w ev \<longrightarrow> fut (snd (handle_udp_event d ev w)) f = fut w f) \<and>
    (s < length (w_sessions w) \<longrightarrow> fut (snd (send_request pk (udp_send_data a d) s m p z w)) f = fut w f \<and>
       fut (snd (send_notify pk (udp_send_data a d) s m p z w)) f = fut w f)"
  by (rule udp_process.completed_stable[OF udp_runs.process_run_inv[OF assms(1)] assms(2,3)])

end
