(* ===== verification/RPC_Pool.thy ===== *)
theory RPC_Pool
  imports RPC_Tcp
begin

text \<open>
  The session pool (\<^verbatim>\<open>session_pool.h\<close>, \<^verbatim>\<open>session_pool_impl.h\<close>, \<^verbatim>\<open>session_pool.cc\<close>): one session per
  address, kept alive for a limited time after its last use. The pool's state extends the world of
  sessions. Its \<^verbatim>\<open>std::map\<close> is an association list in the order of \<open>operator<\<close> on addresses; the
  operations on it are stated with that operator and shown to be those of a finite map.
\<close>

section \<open>Definitions\<close>

subsection \<open>The ordered map of the pool\<close>

fun omap_find :: "'ip::linorder address \<Rightarrow> ('ip address \<times> 'v) list \<Rightarrow> 'v option" where
  "omap_find a [] = None"
| "omap_find a ((k, v) # m) =
     (if address_less k a then omap_find a m else if address_less a k then None else Some v)"

text \<open>\<^verbatim>\<open>std::map::insert\<close> leaves the map as it is when the key is present.\<close>

fun omap_insert ::
  "'ip::linorder address \<Rightarrow> 'v \<Rightarrow> ('ip address \<times> 'v) list \<Rightarrow> ('ip address \<times> 'v) list" where
  "omap_insert a v [] = [(a, v)]"
| "omap_insert a v ((k, u) # m) =
     (if address_less k a then (k, u) # omap_insert a v m
      else if address_less a k then (a, v) # (k, u) # m
      else (k, u) # m)"

definition omap_invar :: "('ip::linorder address \<times> 'v) list \<Rightarrow> bool" where
  "omap_invar m = sorted_wrt (<) (map fst m)"

subsection \<open>session\_pool\_impl\<close>

text \<open>An \<open>entry_t\<close> is the pair of its session and its remaining time.\<close>

record ('x, 'ip, 't, 'n) pool = "('x, 'ip, 't, 'n) world" +
  p_loop :: lid
  p_table :: "('ip address \<times> sid \<times> uint) list"
  p_builder :: "('ip, 't, 'n) builder"
  p_timer :: bool

definition SESSION_POOL_TIME_LIMIT :: uint where
  "SESSION_POOL_TIME_LIMIT = 60"

definition pool_arm_step_timer ::
  "('x, 'ip, 't, 'n, 'z) pool_scheme \<Rightarrow> ('x, 'ip, 't, 'n, 'z) pool_scheme" where
  "pool_arm_step_timer w = w\<lparr>p_timer := True\<rparr>"

definition pool_disarm_step_timer ::
  "('x, 'ip, 't, 'n, 'z) pool_scheme \<Rightarrow> ('x, 'ip, 't, 'n, 'z) pool_scheme" where
  "pool_disarm_step_timer w = w\<lparr>p_timer := False\<rparr>"

text \<open>The constructor over a world of futures, loops and sessions.\<close>

definition new_session_pool ::
  "('ip, 't, 'n) builder \<Rightarrow> lid \<Rightarrow> ('x, 'ip, 't, 'n) world \<Rightarrow> ('x, 'ip, 't, 'n) pool" where
  "new_session_pool b lo w =
     pool_arm_step_timer
       (world.extend w \<lparr>p_loop = lo, p_table = [], p_builder = b, p_timer = False\<rparr>)"

definition get_session ::
  "'ip::linorder address \<Rightarrow> ('x, 'ip, 't, 'n, 'z) pool_scheme \<Rightarrow>
   sid \<times> ('x, 'ip, 't, 'n, 'z) pool_scheme"
where
  "get_session addr w =
     (case omap_find addr (p_table w) of
        Some (s, ttl) \<Rightarrow>
          (s, session_copy s
                (w\<lparr>p_table := AList.update addr (s, SESSION_POOL_TIME_LIMIT) (p_table w)\<rparr>))
      | None \<Rightarrow>
          let (s, w1) = session_create (p_builder w) addr (p_loop w) w
          in (s, session_copy s
                   (w1\<lparr>p_table := omap_insert addr (s, SESSION_POOL_TIME_LIMIT) (p_table w1)\<rparr>)))"

definition pool_set_timeout ::
  "uint \<Rightarrow> ('x, 'ip, 't, 'n, 'z) pool_scheme \<Rightarrow> ('x, 'ip, 't, 'n, 'z) pool_scheme" where
  "pool_set_timeout sec w = w\<lparr>p_builder := builder_set_timeout sec (p_builder w)\<rparr>"

text \<open>The loop of \<open>step_timer_handler\<close>: erasing an entry destroys its reference to the session.\<close>

fun pool_scan ::
  "('ip address \<times> sid \<times> uint) list \<Rightarrow> ('x, 'ip, 't, 'n, 'z) pool_scheme \<Rightarrow>
   ('ip address \<times> sid \<times> uint) list \<times> ('x, 'ip, 't, 'n, 'z) pool_scheme"
where
  "pool_scan [] w = ([], w)"
| "pool_scan ((a, s, ttl) # it) w =
     (if use_count w s = 1 then
        (if ttl \<le> 0 then pool_scan it (session_release s w)
         else let (m, w') = pool_scan it w in ((a, s, ttl - 1) # m, w'))
      else let (m, w') = pool_scan it w in ((a, s, ttl) # m, w'))"

definition pool_step_timer_handler ::
  "bool \<Rightarrow> ('x, 'ip, 't, 'n, 'z) pool_scheme \<Rightarrow> ('x, 'ip, 't, 'n, 'z) pool_scheme" where
  "pool_step_timer_handler aborted w =
     (if aborted then w
      else let (m, w') = pool_scan (p_table w) w
           in pool_arm_step_timer (w'\<lparr>p_table := m\<rparr>))"

text \<open>The destructor: the timer is cancelled, then the entries of the map are destroyed.\<close>

definition pool_destroy ::
  "('x, 'ip, 't, 'n, 'z) pool_scheme \<Rightarrow> ('x, 'ip, 't, 'n, 'z) pool_scheme" where
  "pool_destroy w =
     (let w1 = pool_disarm_step_timer w
      in (fold (\<lambda>(a, s, ttl). session_release s) (p_table w1) w1)\<lparr>p_table := []\<rparr>)"

subsection \<open>session\_pool\<close>

definition pool_get_session_host ::
  "('ip::linorder \<Rightarrow> bool) \<Rightarrow> 'ip resolver \<Rightarrow> string \<Rightarrow> 16 word \<Rightarrow>
   ('x, 'ip, 't, 'n, 'z) pool_scheme \<Rightarrow> (exn + sid) \<times> ('x, 'ip, 't, 'n, 'z) pool_scheme"
where
  "pool_get_session_host is_v4 resolver host port w =
     (case address_host_port is_v4 resolver host port of
        Inl e \<Rightarrow> (Inl e, w)
      | Inr addr \<Rightarrow> let (s, w') = get_session addr w in (Inr s, w'))"

definition pool_get_session_string ::
  "('ip::linorder \<Rightarrow> bool) \<Rightarrow> 'ip resolver \<Rightarrow> string \<Rightarrow>
   ('x, 'ip, 't, 'n, 'z) pool_scheme \<Rightarrow> (exn + sid) \<times> ('x, 'ip, 't, 'n, 'z) pool_scheme"
where
  "pool_get_session_string is_v4 resolver addr w =
     (case address_of_string is_v4 resolver addr of
        Inl e \<Rightarrow> (Inl e, w)
      | Inr ad \<Rightarrow> let (s, w') = get_session ad w in (Inr s, w'))"

definition pool_loop_try ::
  "(loop_impl \<Rightarrow> exn + loop_impl) \<Rightarrow> ('x, 'ip, 't, 'n, 'z) pool_scheme \<Rightarrow>
   exn option \<times> ('x, 'ip, 't, 'n, 'z) pool_scheme"
where
  "pool_loop_try g w =
     (case g (h_loops w ! p_loop w) of
        Inl e \<Rightarrow> (Some e, w)
      | Inr lo \<Rightarrow> (None, on_loop (p_loop w) (\<lambda>_. lo) w))"

definition pool_start ::
  "nat \<Rightarrow> ('x, 'ip, 't, 'n, 'z) pool_scheme \<Rightarrow> exn option \<times> ('x, 'ip, 't, 'n, 'z) pool_scheme" where
  "pool_start num w = pool_loop_try (loop_start num) w"

definition pool_run ::
  "nat \<Rightarrow> ('x, 'ip, 't, 'n, 'z) pool_scheme \<Rightarrow> exn option \<times> ('x, 'ip, 't, 'n, 'z) pool_scheme" where
  "pool_run num w = pool_loop_try (loop_run num) w"

definition pool_run_once ::
  "('x, 'ip, 't, 'n, 'z) pool_scheme \<Rightarrow> ('x, 'ip, 't, 'n, 'z) pool_scheme" where
  "pool_run_once w = on_loop (p_loop w) loop_run_once w"

definition pool_end ::
  "('x, 'ip, 't, 'n, 'z) pool_scheme \<Rightarrow> ('x, 'ip, 't, 'n, 'z) pool_scheme" where
  "pool_end w = on_loop (p_loop w) loop_end (on_loop (p_loop w) loop_flush w)"

definition pool_join ::
  "(nat \<Rightarrow> bool) \<Rightarrow> ('x, 'ip, 't, 'n, 'z) pool_scheme \<Rightarrow> ('x, 'ip, 't, 'n, 'z) pool_scheme" where
  "pool_join fails w = on_loop (p_loop w) (loop_join fails) w"

definition pool_is_running :: "('x, 'ip, 't, 'n, 'z) pool_scheme \<Rightarrow> bool" where
  "pool_is_running w = is_running (h_loops w ! p_loop w)"

text \<open>\<open>~session_pool\<close>: the loop is ended and joined, then the last reference to the pool dropped.\<close>

definition session_pool_destroy ::
  "(nat \<Rightarrow> bool) \<Rightarrow> ('x, 'ip, 't, 'n, 'z) pool_scheme \<Rightarrow> ('x, 'ip, 't, 'n, 'z) pool_scheme" where
  "session_pool_destroy fails w = pool_destroy (pool_join fails (pool_end w))"

section \<open>The ordered map is a finite map\<close>

text \<open>The interface the pool relies on.\<close>

locale address_map =
  fixes m_find :: "'ip::linorder address \<Rightarrow> 'm \<Rightarrow> 'v option"
    and m_insert :: "'ip address \<Rightarrow> 'v \<Rightarrow> 'm \<Rightarrow> 'm"
    and m_set :: "'ip address \<Rightarrow> 'v \<Rightarrow> 'm \<Rightarrow> 'm"
    and invar :: "'m \<Rightarrow> bool"
  assumes find_insert: "invar m \<Longrightarrow> m_find a m = None \<Longrightarrow>
      m_find b (m_insert a v m) = (if b = a then Some v else m_find b m)"
    and insert_present: "invar m \<Longrightarrow> m_find a m \<noteq> None \<Longrightarrow> m_insert a v m = m"
    and find_set: "invar m \<Longrightarrow> m_find a m \<noteq> None \<Longrightarrow>
      m_find b (m_set a v m) = (if b = a then Some v else m_find b m)"
    and invar_insert: "invar m \<Longrightarrow> invar (m_insert a v m)"
    and invar_set: "invar m \<Longrightarrow> m_find a m \<noteq> None \<Longrightarrow> invar (m_set a v m)"
begin

lemma find_inserted: "invar m \<Longrightarrow> m_find a (m_insert a v m) \<noteq> None"
  using find_insert[of m a a v] insert_present[of m a v] by fastforce

lemma set_twice: "invar m \<Longrightarrow> m_find a m \<noteq> None \<Longrightarrow> m_find b (m_set a u (m_set a v m)) = m_find b (m_set a u m)"
  by (simp add: find_set invar_set)

lemma insert_twice: "invar m \<Longrightarrow> m_insert a u (m_insert a v m) = m_insert a v m"
  using find_inserted insert_present invar_insert by blast

end

lemma address_less_less [simp]: "address_less a b \<longleftrightarrow> a < b"
  by (simp add: less_address_def)

lemma omap_invar_Cons [simp]:
  "omap_invar (p # m) \<longleftrightarrow> (\<forall>q \<in> set m. fst p < fst q) \<and> omap_invar m"
  by (simp add: omap_invar_def)

lemma omap_invar_Nil [simp]: "omap_invar []"
  by (simp add: omap_invar_def)

lemma omap_invar_distinct: "omap_invar m \<Longrightarrow> distinct (map fst m)"
  by (simp add: omap_invar_def strict_sorted_iff)

lemma omap_find_map_of: "omap_invar m \<Longrightarrow> omap_find a m = map_of m a"
proof (induction m)
  case Nil
  then show ?case by simp
next
  case (Cons p m)
  obtain k v where p: "p = (k, v)" by (cases p)
  have "map_of m a = None" if "a < k" using that Cons.prems p by (auto simp: map_of_eq_None_iff)
  then show ?case using Cons p by (auto simp: not_less_iff_gr_or_eq)
qed

lemma set_omap_insert:
  "omap_invar m \<Longrightarrow> set (omap_insert a v m) = (if map_of m a = None then insert (a, v) (set m) else set m)"
proof (induction m)
  case Nil
  then show ?case by simp
next
  case (Cons p m)
  obtain k u where p: "p = (k, u)" by (cases p)
  have "map_of m a = None" if "a < k" using that Cons.prems p by (auto simp: map_of_eq_None_iff)
  then show ?case using Cons p by auto
qed

lemma omap_invar_insert: "omap_invar m \<Longrightarrow> omap_invar (omap_insert a v m)"
proof (induction m)
  case Nil
  then show ?case by simp
next
  case (Cons p m)
  then show ?case by (cases p) (auto simp: set_omap_insert)
qed

lemma omap_insert_present: "omap_invar m \<Longrightarrow> map_of m a \<noteq> None \<Longrightarrow> omap_insert a v m = m"
proof (induction m)
  case Nil
  then show ?case by simp
next
  case (Cons p m)
  obtain k u where p: "p = (k, u)" by (cases p)
  have "map_of m a = None" if "a < k" using that Cons.prems p by (auto simp: map_of_eq_None_iff)
  then show ?case using Cons p by (auto split: if_splits)
qed

lemma map_of_omap_insert:
  "omap_invar m \<Longrightarrow> map_of m a = None \<Longrightarrow> map_of (omap_insert a v m) = (map_of m)(a \<mapsto> v)"
proof (induction m)
  case Nil
  then show ?case by simp
next
  case (Cons p m)
  obtain k u where p: "p = (k, u)" by (cases p)
  with Cons.prems have "k \<noteq> a" "map_of m a = None" by (auto split: if_splits)
  with Cons p show ?case by (auto simp: fun_upd_twist)
qed

lemma fst_update_present: "a \<in> fst ` set m \<Longrightarrow> map fst (AList.update a v m) = map fst m"
  by (induction m) auto

lemma omap_invar_update: "omap_invar m \<Longrightarrow> map_of m a \<noteq> None \<Longrightarrow> omap_invar (AList.update a v m)"
  by (simp add: omap_invar_def map_of_eq_None_iff fst_update_present)

interpretation om: address_map omap_find omap_insert AList.update omap_invar
proof (unfold_locales, goal_cases)
  case (1 m a b v)
  then show ?case by (simp add: omap_find_map_of omap_invar_insert map_of_omap_insert)
next
  case (2 m a v)
  then show ?case by (simp add: omap_find_map_of omap_insert_present)
next
  case (3 m a b v)
  then show ?case by (simp add: omap_find_map_of omap_invar_update update_conv')
next
  case (4 m a v)
  then show ?case by (rule omap_invar_insert)
next
  case (5 m a v)
  then show ?case by (simp add: omap_find_map_of omap_invar_update)
qed

section \<open>References to sessions\<close>

lemma use_count_put_session:
  "use_count (put_session s si w) s' =
     (if s = s' \<and> s < length (w_sessions w)
      then s_handles si + length (filter (\<lambda>fi. f_session fi = Some s) (h_futures w))
      else use_count w s')"
  by (simp add: use_count_def ses_put_session)

lemma session_copy_frame [simp]:
  "h_futures (session_copy s w) = h_futures w"
  "length (w_sessions (session_copy s w)) = length (w_sessions w)"
  "table (session_copy s w) s' = table w s'"
  "s_addr (ses (session_copy s w) s') = s_addr (ses w s')"
  by (simp_all add: session_copy_def ses_put_session)

lemma session_copy_pool [simp]:
  "p_table (session_copy s w) = p_table w" "p_loop (session_copy s w) = p_loop w"
  "p_builder (session_copy s w) = p_builder w" "p_timer (session_copy s w) = p_timer w"
  for w :: "('x, 'ip, 't, 'n, 'z) pool_scheme"
  by (simp_all add: session_copy_def put_session_def)

lemma handles_session_copy:
  "s_handles (ses (session_copy s w) s') =
     (if s = s' \<and> s < length (w_sessions w) then Suc (s_handles (ses w s)) else s_handles (ses w s'))"
  by (simp add: session_copy_def ses_put_session)

lemma use_count_session_copy:
  "use_count (session_copy s w) s' =
     (if s = s' \<and> s < length (w_sessions w) then Suc (use_count w s) else use_count w s')"
  by (simp add: use_count_def handles_session_copy)

lemma session_release_frame [simp]:
  "h_futures (session_release s w) = h_futures w"
  "length (w_sessions (session_release s w)) = length (w_sessions w)"
  "table (session_release s w) s' = table w s'"
  "s_addr (ses (session_release s w) s') = s_addr (ses w s')"
  by (simp_all add: session_release_def disarm_step_timer_def ses_put_session Let_def)

lemma session_release_pool [simp]:
  "p_table (session_release s w) = p_table w" "p_loop (session_release s w) = p_loop w"
  "p_builder (session_release s w) = p_builder w" "p_timer (session_release s w) = p_timer w"
  for w :: "('x, 'ip, 't, 'n, 'z) pool_scheme"
  by (simp_all add: session_release_def disarm_step_timer_def put_session_def Let_def)

lemma handles_session_release:
  "s_handles (ses (session_release s w) s') =
     (if s = s' \<and> s < length (w_sessions w) then s_handles (ses w s) - 1 else s_handles (ses w s'))"
  by (auto simp: session_release_def disarm_step_timer_def ses_put_session Let_def)

lemma use_count_session_release:
  "s \<noteq> s' \<Longrightarrow> use_count (session_release s w) s' = use_count w s'"
  by (simp add: use_count_def handles_session_release)

lemma session_release_last:
  "use_count w s = 1 \<Longrightarrow> 0 < s_handles (ses w s) \<Longrightarrow> s < length (w_sessions w) \<Longrightarrow>
    use_count (session_release s w) s = 0 \<and> \<not> s_timer (ses (session_release s w) s)"
  by (cases "s_handles (ses w s)")
     (simp_all add: session_release_def disarm_step_timer_def use_count_put_session use_count_def
      ses_put_session Let_def)

lemma session_create_pool:
  "session_create b addr lo w = (s, w') \<Longrightarrow> p_table w' = p_table w \<and> p_loop w' = p_loop w \<and>
     p_builder w' = p_builder w \<and> p_timer w' = p_timer w"
  for w :: "('x, 'ip, 't, 'n, 'z) pool_scheme"
  by (auto simp: session_create_def session_build_def Let_def arm_step_timer_def put_session_def
      split: prod.splits)

section \<open>The invariant of the pool\<close>

text \<open>
  The map is ordered; an entry refers to an existing session for its address, holds one of the
  session's references, and has at most the full time left; no two entries share a session.
\<close>

definition pool_entry_ok :: "('x, 'ip, 't, 'n, 'z) world_scheme \<Rightarrow> 'ip address \<times> sid \<times> uint \<Rightarrow> bool" where
  "pool_entry_ok w p =
     (case p of (a, s, ttl) \<Rightarrow> s < length (w_sessions w) \<and> s_addr (ses w s) = a \<and>
        0 < s_handles (ses w s) \<and> ttl \<le> SESSION_POOL_TIME_LIMIT)"

definition pool_invar :: "('x, 'ip::linorder, 't, 'n, 'z) pool_scheme \<Rightarrow> bool" where
  "pool_invar w \<longleftrightarrow> omap_invar (p_table w) \<and> (\<forall>p \<in> set (p_table w). pool_entry_ok w p)"

lemma pool_invar_sids_distinct:
  assumes "pool_invar w"
  shows "distinct (map (\<lambda>p. fst (snd p)) (p_table w))"
proof -
  have "inj_on (\<lambda>p. fst (snd p)) (set (p_table w))"
  proof (rule inj_onI)
    fix p q assume pq: "p \<in> set (p_table w)" "q \<in> set (p_table w)" "fst (snd p) = fst (snd q)"
    obtain a s t b s' t' where [simp]: "p = (a, s, t)" "q = (b, s', t')" by (cases p; cases q) blast
    have "pool_entry_ok w p" "pool_entry_ok w q" using assms pq by (auto simp: pool_invar_def)
    with pq(3) have "a = b" by (simp add: pool_entry_ok_def)
    with assms pq omap_invar_distinct[of "p_table w"] show "p = q"
      by (auto simp: pool_invar_def dest: eq_key_imp_eq_value)
  qed
  moreover have "distinct (p_table w)"
    using assms omap_invar_distinct by (auto simp: pool_invar_def distinct_map)
  ultimately show ?thesis by (simp add: distinct_map)
qed

lemma omap_find_iff: "pool_invar w \<Longrightarrow> omap_find a (p_table w) = Some e \<longleftrightarrow> (a, e) \<in> set (p_table w)"
  by (simp add: pool_invar_def omap_find_map_of omap_invar_distinct)

subsection \<open>get\_session\<close>

lemma get_session_found:
  "omap_find a (p_table w) = Some (s, ttl) \<Longrightarrow>
    get_session a w =
      (s, session_copy s (w\<lparr>p_table := AList.update a (s, SESSION_POOL_TIME_LIMIT) (p_table w)\<rparr>))"
  by (simp add: get_session_def)

lemma get_session_new:
  assumes "omap_find a (p_table w) = None" "get_session a w = (s, w')"
  shows "s = length (w_sessions w)" "h_futures w' = h_futures w"
    and "p_table w' = omap_insert a (s, SESSION_POOL_TIME_LIMIT) (p_table w)"
    and "\<exists>t. w_sessions w' = w_sessions w @ [(new_session_impl a (p_loop w))
           \<lparr>s_tran := Some t, s_timeout := b_timeout (p_builder w), s_timer := True, s_handles := 2\<rparr>]"
proof -
  obtain s1 w1 where c: "session_create (p_builder w) a (p_loop w) w = (s1, w1)"
    by (cases "session_create (p_builder w) a (p_loop w) w")
  with assms have r: "s = s1"
    "w' = session_copy s (w1\<lparr>p_table := omap_insert a (s, SESSION_POOL_TIME_LIMIT) (p_table w1)\<rparr>)"
    by (auto simp: get_session_def)
  note eqs = session_create_eq[OF c] session_create_pool[OF c]
  show "s = length (w_sessions w)" "h_futures w' = h_futures w"
    "p_table w' = omap_insert a (s, SESSION_POOL_TIME_LIMIT) (p_table w)"
    using r eqs by simp_all
  show "\<exists>t. w_sessions w' = w_sessions w @ [(new_session_impl a (p_loop w))
       \<lparr>s_tran := Some t, s_timeout := b_timeout (p_builder w), s_timer := True, s_handles := 2\<rparr>]"
    using r eqs by (auto simp: session_copy_def put_session_def new_session_impl_def)
qed

text \<open>Whatever the pool held before, afterwards it holds the returned session with its full time.\<close>

lemma get_session_holds:
  assumes "pool_invar w" "get_session a w = (s, w')"
  shows "omap_find b (p_table w') =
    (if b = a then Some (s, SESSION_POOL_TIME_LIMIT) else omap_find b (p_table w))"
proof (cases "omap_find a (p_table w)")
  case None
  with get_session_new(3)[OF None assms(2)] assms(1) show ?thesis
    by (simp add: pool_invar_def om.find_insert)
next
  case (Some e)
  obtain s0 ttl where "e = (s0, ttl)" by (cases e)
  with Some assms show ?thesis by (auto simp: get_session_found pool_invar_def om.find_set)
qed

lemma get_session_invar:
  assumes "pool_invar w" "get_session a w = (s, w')"
  shows "pool_invar w'"
proof (cases "omap_find a (p_table w)")
  case None
  note new = get_session_new[OF None assms(2)]
  from new(4) obtain t where ws: "w_sessions w' = w_sessions w @ [(new_session_impl a (p_loop w))
     \<lparr>s_tran := Some t, s_timeout := b_timeout (p_builder w), s_timer := True, s_handles := 2\<rparr>]" by blast
  have old: "pool_entry_ok w' p" if "pool_entry_ok w p" for p
    using that ws by (auto simp: pool_entry_ok_def nth_append)
  have "pool_entry_ok w' (a, s, SESSION_POOL_TIME_LIMIT)"
    using new(1) ws by (simp add: pool_entry_ok_def new_session_impl_def)
  with old assms(1) None new(3) show ?thesis
    by (auto simp: pool_invar_def om.invar_insert set_omap_insert omap_find_map_of)
next
  case (Some e)
  obtain ttl where e: "e = (s, ttl)" "w' = session_copy s (w\<lparr>p_table := AList.update a (s, SESSION_POOL_TIME_LIMIT) (p_table w)\<rparr>)"
    using Some assms(2) by (cases e) (auto simp: get_session_def)
  have entry: "(a, s, ttl) \<in> set (p_table w)" using Some e assms(1) by (simp add: omap_find_iff)
  have d: "distinct (map fst (p_table w))" using assms(1) omap_invar_distinct by (auto simp: pool_invar_def)
  have keep: "pool_entry_ok w' p" if "pool_entry_ok w p" for p
    using that e(2) by (auto simp: pool_entry_ok_def handles_session_copy)
  have "pool_entry_ok w' (a, s, SESSION_POOL_TIME_LIMIT)"
    using keep[of "(a, s, ttl)"] entry assms(1) by (auto simp: pool_invar_def pool_entry_ok_def)
  moreover have "omap_invar (p_table w')"
    using e(2) assms(1) Some by (simp add: pool_invar_def om.invar_set)
  moreover have "pool_entry_ok w' p" if "p \<in> set (p_table w)" for p
    using that keep assms(1) by (auto simp: pool_invar_def)
  ultimately show ?thesis
    using e(2) d by (auto simp: pool_invar_def in_set_update_iff)
qed

subsection \<open>The step timer of the pool\<close>

definition dead :: "('x, 'ip, 't, 'n, 'z) world_scheme \<Rightarrow> 'ip address \<times> sid \<times> uint \<Rightarrow> bool" where
  "dead w p = (case p of (a, s, ttl) \<Rightarrow> use_count w s = 1 \<and> ttl = 0)"

definition aged ::
  "('x, 'ip, 't, 'n, 'z) world_scheme \<Rightarrow> 'ip address \<times> sid \<times> uint \<Rightarrow> 'ip address \<times> sid \<times> uint" where
  "aged w p = (case p of (a, s, ttl) \<Rightarrow> (a, s, if use_count w s = 1 then ttl - 1 else ttl))"

definition dead_sids :: "('x, 'ip, 't, 'n, 'z) pool_scheme \<Rightarrow> sid list" where
  "dead_sids w = map (\<lambda>p. fst (snd p)) (filter (dead w) (p_table w))"

lemma dead_aged_release:
  "s \<notin> (\<lambda>p. fst (snd p)) ` set m \<Longrightarrow>
    filter (dead (session_release s w)) m = filter (dead w) m \<and>
    filter (\<lambda>p. \<not> dead (session_release s w) p) m = filter (\<lambda>p. \<not> dead w p) m \<and>
    map (aged (session_release s w)) (filter P m) = map (aged w) (filter P m)"
  by (induction m) (auto simp: dead_def aged_def use_count_session_release)

lemma pool_scan_eq:
  "distinct (map (\<lambda>p. fst (snd p)) m) \<Longrightarrow>
    pool_scan m w =
      (map (aged w) (filter (\<lambda>p. \<not> dead w p) m),
       fold session_release (map (\<lambda>p. fst (snd p)) (filter (dead w) m)) w)"
proof (induction m w rule: pool_scan.induct)
  case (1 w)
  then show ?case by simp
next
  case (2 a s ttl it w)
  show ?case
  proof (cases "use_count w s = 1 \<and> ttl = 0")
    case True
    then have "dead w (a, s, ttl)" by (simp add: dead_def)
    with True 2(1,4) dead_aged_release[of s it w] show ?thesis by simp
  next
    case False
    then have "\<not> dead w (a, s, ttl)" by (simp add: dead_def)
    with False 2 show ?thesis by (auto simp: aged_def word_le_0_iff)
  qed
qed

lemma fold_release_frame [simp]:
  "h_futures (fold session_release ss w) = h_futures w"
  "length (w_sessions (fold session_release ss w)) = length (w_sessions w)"
  "table (fold session_release ss w) s' = table w s'"
  "s_addr (ses (fold session_release ss w) s') = s_addr (ses w s')"
  "s' \<notin> set ss \<Longrightarrow> s_handles (ses (fold session_release ss w) s') = s_handles (ses w s')"
  "s' \<notin> set ss \<Longrightarrow> use_count (fold session_release ss w) s' = use_count w s'"
  by (induction ss arbitrary: w)
     (simp_all add: handles_session_release use_count_session_release)

lemma pool_tick_eq:
  assumes "pool_invar w"
  shows "pool_step_timer_handler False w =
    (fold session_release (dead_sids w) w)
      \<lparr>p_table := map (aged w) (filter (\<lambda>p. \<not> dead w p) (p_table w)), p_timer := True\<rparr>"
  using pool_scan_eq[OF pool_invar_sids_distinct[OF assms], of w]
  by (simp add: pool_step_timer_handler_def pool_arm_step_timer_def dead_sids_def)

lemma use_count_p_update [simp]:
  "use_count (w\<lparr>p_table := m\<rparr>) s = use_count w s" "use_count (w\<lparr>p_timer := b\<rparr>) s = use_count w s"
  for w :: "('x, 'ip, 't, 'n, 'z) pool_scheme"
  by (simp_all add: use_count_def)

text \<open>One tick, entry by entry.\<close>

lemma pool_tick_set:
  assumes "pool_invar w"
  shows "set (p_table (pool_step_timer_handler False w)) =
    aged w ` {p \<in> set (p_table w). \<not> dead w p}"
  by (auto simp: pool_tick_eq[OF assms])

lemma pool_tick_frame:
  assumes "pool_invar w"
  shows "h_futures (pool_step_timer_handler False w) = h_futures w"
    and "length (w_sessions (pool_step_timer_handler False w)) = length (w_sessions w)"
    and "table (pool_step_timer_handler False w) s = table w s"
    and "s_addr (ses (pool_step_timer_handler False w) s) = s_addr (ses w s)"
    and "s \<notin> set (dead_sids w) \<Longrightarrow>
      s_handles (ses (pool_step_timer_handler False w) s) = s_handles (ses w s)"
    and "s \<notin> set (dead_sids w) \<Longrightarrow> use_count (pool_step_timer_handler False w) s = use_count w s"
  by (simp_all add: pool_tick_eq[OF assms])

lemma live_not_dead_sid:
  assumes "pool_invar w" "(a, s, ttl) \<in> set (p_table w)" "\<not> dead w (a, s, ttl)"
  shows "s \<notin> set (dead_sids w)"
proof
  assume "s \<in> set (dead_sids w)"
  then obtain b t where q: "(b, s, t) \<in> set (p_table w)" "dead w (b, s, t)"
    by (auto simp: dead_sids_def)
  have "inj_on (\<lambda>p. fst (snd p)) (set (p_table w))"
    using pool_invar_sids_distinct[OF assms(1)] by (simp add: distinct_map)
  from inj_onD[OF this _ assms(2) q(1)] q(2) assms(3) show False by simp
qed

lemma pool_tick_invar:
  assumes "pool_invar w"
  shows "pool_invar (pool_step_timer_handler aborted w)"
proof (cases aborted)
  case True
  with assms show ?thesis by (simp add: pool_step_timer_handler_def)
next
  case False
  have "map fst (map (aged w) m) = map fst m" for m :: "('b address \<times> sid \<times> uint) list"
    by (induction m) (auto simp: aged_def)
  moreover have "omap_invar (filter P (p_table w))" for P
    using assms by (auto simp: pool_invar_def omap_invar_def sorted_wrt_map intro: sorted_wrt_filter)
  ultimately have "omap_invar (p_table (pool_step_timer_handler False w))"
    by (simp add: pool_tick_eq[OF assms] omap_invar_def del: map_map)
  moreover have "pool_entry_ok (pool_step_timer_handler False w) (aged w p)"
    if p: "p \<in> set (p_table w)" "\<not> dead w p" for p
  proof -
    obtain a s ttl where [simp]: "p = (a, s, ttl)" by (cases p) auto
    have ok: "pool_entry_ok w p" using assms p(1) by (simp add: pool_invar_def)
    have "ttl - 1 \<le> SESSION_POOL_TIME_LIMIT" if "ttl \<noteq> 0" "ttl \<le> SESSION_POOL_TIME_LIMIT"
      using that unat_minus_one_pos[of ttl] by (simp add: word_le_nat_alt word_gt_0)
    with ok p live_not_dead_sid[OF assms, of a s ttl] show ?thesis
      by (auto simp: pool_entry_ok_def aged_def dead_def pool_tick_frame[OF assms])
  qed
  ultimately show ?thesis
    using False by (auto simp: pool_invar_def pool_tick_set[OF assms])
qed

text \<open>
  \<open>n\<close> ticks without any other activity: an entry that somebody else refers to stays as it is; an
  unreferenced one loses a second per tick and is erased by the tick that finds it at zero.
\<close>

abbreviation ticks :: "nat \<Rightarrow> ('x, 'ip, 't, 'n, 'z) pool_scheme \<Rightarrow> ('x, 'ip, 't, 'n, 'z) pool_scheme" where
  "ticks n w \<equiv> (pool_step_timer_handler False ^^ n) w"

lemma pool_ticks_invar: "pool_invar w \<Longrightarrow> pool_invar (ticks n w)"
  by (induction n) (simp_all add: pool_tick_invar)

lemma pool_tick_gone:
  "pool_invar w \<Longrightarrow> a \<notin> fst ` set (p_table w) \<Longrightarrow> a \<notin> fst ` set (p_table (pool_step_timer_handler False w))"
  by (force simp: pool_tick_set aged_def)

lemma pool_tick_entry:
  assumes "pool_invar w" "(a, s, t) \<in> set (p_table w)" "\<not> dead w (a, s, t)"
  shows "aged w (a, s, t) \<in> set (p_table (pool_step_timer_handler False w))"
    and "use_count (pool_step_timer_handler False w) s = use_count w s"
  using assms live_not_dead_sid[OF assms] by (auto simp: pool_tick_set pool_tick_frame(6))

lemma pool_tick_dead:
  assumes "pool_invar w" "(a, s, t) \<in> set (p_table w)" "dead w (a, s, t)"
  shows "a \<notin> fst ` set (p_table (pool_step_timer_handler False w))"
proof -
  have d: "distinct (map fst (p_table w))"
    using assms(1) omap_invar_distinct by (auto simp: pool_invar_def)
  have "dead w p" if p: "p \<in> set (p_table w)" "fst p = a" for p
  proof -
    obtain e where e: "p = (a, e)" using p(2) by (metis prod.collapse)
    with eq_key_imp_eq_value[OF d] p(1) assms(2) have "e = (s, t)" by simp
    with assms(3) e show ?thesis by simp
  qed
  moreover have "fst (aged w p) = fst p" for p by (cases p) (simp add: aged_def)
  ultimately show ?thesis by (auto simp: pool_tick_set[OF assms(1)])
qed

lemma pool_ticks_referenced:
  assumes "pool_invar w" "(a, s, ttl) \<in> set (p_table w)" "use_count w s \<noteq> 1"
  shows "(a, s, ttl) \<in> set (p_table (ticks n w)) \<and> use_count (ticks n w) s = use_count w s"
proof (induction n)
  case 0
  with assms show ?case by simp
next
  case (Suc n)
  with assms(3) have "\<not> dead (ticks n w) (a, s, ttl)" "aged (ticks n w) (a, s, ttl) = (a, s, ttl)"
    by (simp_all add: dead_def aged_def)
  with Suc pool_tick_entry[OF pool_ticks_invar[OF assms(1)], of a s ttl n] show ?case by simp
qed

lemma pool_ticks_unreferenced:
  assumes "pool_invar w" "(a, s, ttl) \<in> set (p_table w)" "use_count w s = 1" "n \<le> unat ttl"
  shows "(a, s, ttl - of_nat n) \<in> set (p_table (ticks n w)) \<and> use_count (ticks n w) s = 1"
  using assms(4)
proof (induction n)
  case 0
  with assms show ?case by simp
next
  case (Suc n)
  have "ttl - of_nat n \<noteq> 0"
  proof
    assume "ttl - of_nat n = 0"
    then have "unat ttl = unat (of_nat n :: uint)" by simp
    with Suc.prems show False by (simp add: unat_of_nat take_bit_nat_eq_self_iff take_bit_nat_less_eq_self
        leD less_eq_Suc_le)
  qed
  with Suc have "\<not> dead (ticks n w) (a, s, ttl - of_nat n)"
    "aged (ticks n w) (a, s, ttl - of_nat n) = (a, s, ttl - of_nat (Suc n))"
    by (simp_all add: dead_def aged_def)
  with Suc pool_tick_entry[OF pool_ticks_invar[OF assms(1)], of a s "ttl - of_nat n" n] show ?case
    by simp
qed

lemma pool_ticks_evicted:
  assumes "pool_invar w" "(a, s, ttl) \<in> set (p_table w)" "use_count w s = 1" "unat ttl < n"
  shows "a \<notin> fst ` set (p_table (ticks n w))"
  using assms(4)
proof (induction n)
  case 0
  then show ?case by simp
next
  case (Suc n)
  show ?case
  proof (cases "unat ttl < n")
    case True
    with Suc pool_tick_gone[OF pool_ticks_invar[OF assms(1)], of a n] show ?thesis by simp
  next
    case False
    with Suc.prems have "n = unat ttl" by simp
    then have "(a, s, 0) \<in> set (p_table (ticks n w)) \<and> use_count (ticks n w) s = 1"
      using pool_ticks_unreferenced[OF assms(1-3), of "unat ttl"] by simp
    with pool_tick_dead[OF pool_ticks_invar[OF assms(1)], of a s 0 n] show ?thesis
      by (simp add: dead_def)
  qed
qed

section \<open>Unreferenced sessions\<close>

lemma unreferenced_no_future:
  assumes "use_count w s = 1" "0 < s_handles (ses w s)" "f < length (h_futures w)"
  shows "f_session (fut w f) \<noteq> Some s"
proof
  assume "f_session (fut w f) = Some s"
  then have "fut w f \<in> set (filter (\<lambda>fi. f_session fi = Some s) (h_futures w))" using assms(3) by simp
  then have "0 < length (filter (\<lambda>fi. f_session fi = Some s) (h_futures w))" by (metis length_pos_if_in_set)
  with assms(1,2) show False by (simp add: use_count_def)
qed

lemma idle_table:
  assumes "pool_invar w" "table_wf w" "tables_pending w" "(a, s, ttl) \<in> set (p_table w)" "use_count w s = 1"
  shows "table w s = []"
proof (rule ccontr)
  assume "table w s \<noteq> []"
  then obtain k f where kf: "(k, f) \<in> set (table w s)" by (cases "table w s") auto
  have s: "s < length (w_sessions w)" "0 < s_handles (ses w s)"
    using assms(1,4) by (auto simp: pool_invar_def pool_entry_ok_def)
  from kf s(1) assms(3) have "f_session (fut w f) = Some s" by (auto simp: tables_pending_def)
  with unreferenced_no_future[OF assms(5) s(2) table_wfD(3)[OF assms(2) s(1) kf]] show False by simp
qed

lemma pool_invar_set_result: "pool_invar w \<Longrightarrow> pool_invar (set_result f r e z w)"
  for w :: "('x, 'ip::linorder, 't, 'n, 'z) pool_scheme"
  by (auto simp: pool_invar_def pool_entry_ok_def set_result_def Let_def put_future_def log_effects_def
      split: option.split)

lemma p_table_set_result [simp]: "p_table (set_result f r e z w) = p_table w"
  for w :: "('x, 'ip, 't, 'n, 'z) pool_scheme"
  by (auto simp: set_result_def Let_def put_future_def log_effects_def split: option.split)

section \<open>Properties\<close>

definition sample_pool :: "(nat, nat, unit, unit) pool" where
  "sample_pool = session_release 0 (snd (get_session (Address 2 80)
     (new_session_pool (new_builder (\<lambda>s a n. ((), n))) 0
        \<lparr>h_futures = [], h_loops = [new_loop], h_log = [], w_sessions = [], w_net = ()\<rparr>)))"

lemma sample_pool_simps:
  "p_table sample_pool = [(Address 2 80, 0, 60)]" "h_futures sample_pool = []"
  "w_sessions sample_pool = [(new_session_impl (Address 2 80) 0)\<lparr>s_tran := Some (), s_timer := True\<rparr>]"
  by (simp_all add: sample_pool_def new_session_pool_def pool_arm_step_timer_def world.extend_def new_builder_def
      get_session_def session_create_def session_build_def Let_def arm_step_timer_def put_session_def
      session_copy_def session_release_def use_count_def new_session_impl_def SESSION_POOL_TIME_LIMIT_def)

lemma sample_pool_invar: "pool_invar sample_pool"
  by (simp add: pool_invar_def sample_pool_simps pool_entry_ok_def new_session_impl_def SESSION_POOL_TIME_LIMIT_def)

lemma sample_pool_use_count: "use_count sample_pool 0 = 1"
  by (simp add: use_count_def sample_pool_simps new_session_impl_def)

text \<open>
  The pool hands out one session per address: asking twice for an address returns the same
  session, creates no second one, adds a reference and gives the entry its full time again; entries
  for other addresses stay as they are.
\<close>

lemma get_session_same:
  assumes "pool_invar w" "get_session a w = (s, w1)" "get_session a w1 = (s', w2)"
  shows "s' = s \<and> length (w_sessions w2) = length (w_sessions w1) \<and> use_count w2 s = Suc (use_count w1 s) \<and>
    omap_find a (p_table w2) = Some (s, SESSION_POOL_TIME_LIMIT) \<and>
    (\<forall>b. b \<noteq> a \<longrightarrow> omap_find b (p_table w2) = omap_find b (p_table w))"
proof -
  have inv: "pool_invar w1" by (rule get_session_invar[OF assms(1,2)])
  have f1: "omap_find a (p_table w1) = Some (s, SESSION_POOL_TIME_LIMIT)"
    using get_session_holds[OF assms(1,2), of a] by simp
  have eq: "s' = s" "w2 = session_copy s (w1\<lparr>p_table := AList.update a (s, SESSION_POOL_TIME_LIMIT) (p_table w1)\<rparr>)"
    using assms(3) get_session_found[OF f1] by auto
  have "(a, s, SESSION_POOL_TIME_LIMIT) \<in> set (p_table w1)" using f1 omap_find_iff[OF inv] by simp
  then have "s < length (w_sessions w1)" using inv by (auto simp: pool_invar_def pool_entry_ok_def)
  moreover have "omap_find b (p_table w2) = (if b = a then Some (s, SESSION_POOL_TIME_LIMIT) else omap_find b (p_table w))" for b
    using get_session_holds[OF inv assms(3), of b] get_session_holds[OF assms(1,2), of b] eq(1) by simp
  ultimately show ?thesis by (simp add: eq use_count_session_copy)
qed

text \<open>
  The pool's invariant holds for a new pool and is kept by \<open>get_session\<close> and by its step timer:
  the map is ordered by address, every entry refers to a session for its address and holds a
  reference to it, and no entry has more than 60 seconds left.
\<close>

lemma pool_invariant:
  "pool_invar (new_session_pool b lo w0) \<and>
   (pool_invar w \<longrightarrow> pool_invar (snd (get_session a w)) \<and> pool_invar (pool_step_timer_handler aborted w) \<and>
      pool_invar (pool_set_timeout sec w))"
proof (intro conjI impI)
  show "pool_invar (new_session_pool b lo w0)"
    by (simp add: pool_invar_def new_session_pool_def pool_arm_step_timer_def world.extend_def)
  assume inv: "pool_invar w"
  show "pool_invar (snd (get_session a w))" using get_session_invar[OF inv] by (metis prod.collapse)
  show "pool_invar (pool_step_timer_handler aborted w)" by (rule pool_tick_invar[OF inv])
  show "pool_invar (pool_set_timeout sec w)"
    using inv by (auto simp: pool_invar_def pool_set_timeout_def pool_entry_ok_def)
qed

text \<open>
  The step timer evicts exactly the sessions that nobody uses: an entry whose session is
  referenced elsewhere survives any number of ticks unchanged; one whose session only the pool refers
  to loses a second per tick, is still there after as many ticks as it has seconds left, and is gone
  after one more. After the last use of a session that takes 61 ticks.
\<close>

lemma pool_eviction:
  assumes "pool_invar w" "(a, s, ttl) \<in> set (p_table w)"
  shows "if use_count w s \<noteq> 1 then (a, s, ttl) \<in> set (p_table (ticks n w))
    else if n \<le> unat ttl then (a, s, ttl - of_nat n) \<in> set (p_table (ticks n w))
    else a \<notin> fst ` set (p_table (ticks n w))"
  using pool_ticks_referenced[OF assms, of n] pool_ticks_unreferenced[OF assms, of n]
    pool_ticks_evicted[OF assms, of n] by auto

text \<open>
  A wait that times out breaks that argument: \<open>timed_wait\<close> completes the future without taking it
  out of the request table, so the session's last future no longer refers to it, the session counts
  as unused, and the pool evicts it with an entry in its table.
\<close>

lemma timed_wait_breaks_idle:
  assumes "pool_invar w" "(a, s, 0) \<in> set (p_table w)" "s_handles (ses w s) = 1"
    and "table w s = [(k, f)]" "f < length (h_futures w)"
    and "\<And>g. g < length (h_futures w) \<Longrightarrow> f_session (fut w g) = Some s \<longleftrightarrow> g = f"
    and "cond_timed_wait env ms w = (False, w)"
  shows "\<exists>w'. timed_wait env f ms w = Some (False, w') \<and> use_count w' s = 1 \<and> table w' s = [(k, f)] \<and>
    a \<notin> fst ` set (p_table (pool_step_timer_handler False w'))"
proof -
  let ?w = "set_result f NIL TIMEOUT_ERROR None w"
  have "\<not> ready w f" using assms(5,6) by (auto simp: is_ready_def)
  then have tw: "timed_wait env f ms w = Some (False, ?w)" using assms(7) by (subst timed_wait.simps) simp
  have "f_session (fut ?w g) \<noteq> Some s" if "g < length (h_futures ?w)" for g
    using assms(6)[of g] that by (auto simp: fut_set_result)
  then have "filter (\<lambda>fi. f_session fi = Some s) (h_futures ?w) = []"
    by (auto simp: filter_empty_conv in_set_conv_nth)
  then have u: "use_count ?w s = 1" using assms(3) by (simp add: use_count_def)
  have "a \<notin> fst ` set (p_table (pool_step_timer_handler False ?w))"
    by (rule pool_tick_dead[OF pool_invar_set_result[OF assms(1)], of a s 0])
       (use assms(2) u in \<open>simp_all add: dead_def\<close>)
  with tw u assms(4) show ?thesis by simp
qed

end
