(* ===== verification/RPC_Caller.thy ===== *)
theory RPC_Caller
  imports RPC_Pool
begin

text \<open>
  The calling interface (\<^verbatim>\<open>caller.h\<close>) and clients (\<^verbatim>\<open>client.h\<close>, \<^verbatim>\<open>client.cc\<close>). \<open>caller.h\<close> is
  generated: each family \<open>call\<close>, \<open>notify\<close> exists for up to sixteen arguments, packed into a tuple,
  and each member comes with a zone to be released (\<^verbatim>\<open>auto_zone\<close>), with a shared zone, and
  without a zone. A parameter tuple is the list of its elements; a null pointer to a zone is \<open>None\<close>.
\<close>

section \<open>Definitions\<close>

text \<open>The functions of the implementation class (\<^verbatim>\<open>IMPL\<close>) that \<open>caller\<close> calls.\<close>

type_synonym ('x, 'w) send_request_fn =
  "string \<Rightarrow> 'x object list \<Rightarrow> zone option \<Rightarrow> 'w \<Rightarrow> (exn + future) \<times> 'w"
type_synonym ('x, 'w) send_notify_fn =
  "string \<Rightarrow> 'x object list \<Rightarrow> zone option \<Rightarrow> 'w \<Rightarrow> exn option \<times> 'w"

text \<open>\<^verbatim>\<open>shared_zone slife(msglife.release())\<close>: the shared zone and what is left in \<open>msglife\<close>.\<close>

definition zone_release :: "zone option \<Rightarrow> zone option \<times> zone option" where
  "zone_release msglife = (msglife, None)"

definition call0 :: "('x, 'w) send_request_fn \<Rightarrow> string \<Rightarrow> 'w \<Rightarrow> (exn + future) \<times> 'w" where
  "call0 impl_request name w = impl_request name [] None w"

definition call_auto ::
  "('x, 'w) send_request_fn \<Rightarrow> string \<Rightarrow> zone option \<Rightarrow> 'x object list \<Rightarrow> 'w \<Rightarrow> (exn + future) \<times> 'w"
where
  "call_auto impl_request name msglife params w =
     (let (slife, msglife') = zone_release msglife in impl_request name params slife w)"

definition call_shared ::
  "('x, 'w) send_request_fn \<Rightarrow> string \<Rightarrow> zone option \<Rightarrow> 'x object list \<Rightarrow> 'w \<Rightarrow> (exn + future) \<times> 'w"
where
  "call_shared impl_request name msglife params w = impl_request name params msglife w"

definition call_plain ::
  "('x, 'w) send_request_fn \<Rightarrow> string \<Rightarrow> 'x object list \<Rightarrow> 'w \<Rightarrow> (exn + future) \<times> 'w"
where
  "call_plain impl_request name params w = impl_request name params None w"

definition call_apply_auto ::
  "('x, 'w) send_request_fn \<Rightarrow> string \<Rightarrow> zone option \<Rightarrow> 'x object list \<Rightarrow> 'w \<Rightarrow> (exn + future) \<times> 'w"
where
  "call_apply_auto impl_request name msglife params w =
     (let (slife, msglife') = zone_release msglife in impl_request name params slife w)"

definition call_apply_shared ::
  "('x, 'w) send_request_fn \<Rightarrow> string \<Rightarrow> zone option \<Rightarrow> 'x object list \<Rightarrow> 'w \<Rightarrow> (exn + future) \<times> 'w"
where
  "call_apply_shared impl_request name msglife params w = impl_request name params msglife w"

definition call_apply_plain ::
  "('x, 'w) send_request_fn \<Rightarrow> string \<Rightarrow> 'x object list \<Rightarrow> 'w \<Rightarrow> (exn + future) \<times> 'w"
where
  "call_apply_plain impl_request name params w = impl_request name params None w"

definition notify0 :: "('x, 'w) send_notify_fn \<Rightarrow> string \<Rightarrow> 'w \<Rightarrow> exn option \<times> 'w" where
  "notify0 impl_notify name w = impl_notify name [] None w"

definition notify_auto ::
  "('x, 'w) send_notify_fn \<Rightarrow> string \<Rightarrow> zone option \<Rightarrow> 'x object list \<Rightarrow> 'w \<Rightarrow> exn option \<times> 'w"
where
  "notify_auto impl_notify name msglife params w =
     (let (slife, msglife') = zone_release msglife in impl_notify name params slife w)"

definition notify_shared ::
  "('x, 'w) send_notify_fn \<Rightarrow> string \<Rightarrow> zone option \<Rightarrow> 'x object list \<Rightarrow> 'w \<Rightarrow> exn option \<times> 'w"
where
  "notify_shared impl_notify name msglife params w = impl_notify name params msglife w"

definition notify_plain ::
  "('x, 'w) send_notify_fn \<Rightarrow> string \<Rightarrow> 'x object list \<Rightarrow> 'w \<Rightarrow> exn option \<times> 'w"
where
  "notify_plain impl_notify name params w = impl_notify name params None w"

definition notify_apply_auto ::
  "('x, 'w) send_notify_fn \<Rightarrow> string \<Rightarrow> zone option \<Rightarrow> 'x object list \<Rightarrow> 'w \<Rightarrow> exn option \<times> 'w"
where
  "notify_apply_auto impl_notify name msglife params w =
     (let (slife, msglife') = zone_release msglife in impl_notify name params slife w)"

definition notify_apply_shared ::
  "('x, 'w) send_notify_fn \<Rightarrow> string \<Rightarrow> zone option \<Rightarrow> 'x object list \<Rightarrow> 'w \<Rightarrow> exn option \<times> 'w"
where
  "notify_apply_shared impl_notify name msglife params w = impl_notify name params msglife w"

definition notify_apply_plain ::
  "('x, 'w) send_notify_fn \<Rightarrow> string \<Rightarrow> 'x object list \<Rightarrow> 'w \<Rightarrow> exn option \<times> 'w"
where
  "notify_apply_plain impl_notify name params w = impl_notify name params None w"

subsection \<open>Clients\<close>

text \<open>The constructors of \<open>client\<close>: from an address, from a host and a port, from a string.\<close>

definition client_builder ::
  "('ip, 't, 'n) builder \<Rightarrow> 'ip address \<Rightarrow> lid \<Rightarrow> ('x, 'ip, 't, 'n, 'z) world_scheme \<Rightarrow>
   sid \<times> ('x, 'ip, 't, 'n, 'z) world_scheme"
where
  "client_builder b addr lo w = session_create b addr lo w"

definition client_address ::
  "('x, 'b, 'u) decoder \<Rightarrow> 'ip address \<Rightarrow> lid \<Rightarrow> ('x, 'ip, 'u tcp_client, 'n, 'z) world_scheme \<Rightarrow>
   sid \<times> ('x, 'ip, 'u tcp_client, 'n, 'z) world_scheme"
where
  "client_address d addr lo w = session_create (tcp_build d new_tcp_builder) addr lo w"

definition client_host_port ::
  "('ip \<Rightarrow> bool) \<Rightarrow> 'ip resolver \<Rightarrow> ('x, 'b, 'u) decoder \<Rightarrow> string \<Rightarrow> 16 word \<Rightarrow> lid \<Rightarrow>
   ('x, 'ip, 'u tcp_client, 'n, 'z) world_scheme \<Rightarrow>
   (exn + sid) \<times> ('x, 'ip, 'u tcp_client, 'n, 'z) world_scheme"
where
  "client_host_port is_v4 resolver d host port lo w =
     (case address_host_port is_v4 resolver host port of
        Inl e \<Rightarrow> (Inl e, w)
      | Inr addr \<Rightarrow> let (s, w') = session_create (tcp_build d new_tcp_builder) addr lo w in (Inr s, w'))"

definition client_string ::
  "('ip \<Rightarrow> bool) \<Rightarrow> 'ip resolver \<Rightarrow> ('x, 'b, 'u) decoder \<Rightarrow> string \<Rightarrow> lid \<Rightarrow>
   ('x, 'ip, 'u tcp_client, 'n, 'z) world_scheme \<Rightarrow>
   (exn + sid) \<times> ('x, 'ip, 'u tcp_client, 'n, 'z) world_scheme"
where
  "client_string is_v4 resolver d addr lo w =
     (case address_of_string is_v4 resolver addr of
        Inl e \<Rightarrow> (Inl e, w)
      | Inr ad \<Rightarrow> let (s, w') = session_create (tcp_build d new_tcp_builder) ad lo w in (Inr s, w'))"

text \<open>\<^verbatim>\<open>client::base\<close> wraps a client.\<close>

record client_base =
  cb_instance :: sid

definition client_base_address ::
  "('x, 'b, 'u) decoder \<Rightarrow> 'ip address \<Rightarrow> lid \<Rightarrow> ('x, 'ip, 'u tcp_client, 'n, 'z) world_scheme \<Rightarrow>
   client_base \<times> ('x, 'ip, 'u tcp_client, 'n, 'z) world_scheme"
where
  "client_base_address d addr lo w = apfst client_base.make (client_address d addr lo w)"

definition client_base_host_port ::
  "('ip \<Rightarrow> bool) \<Rightarrow> 'ip resolver \<Rightarrow> ('x, 'b, 'u) decoder \<Rightarrow> string \<Rightarrow> 16 word \<Rightarrow> lid \<Rightarrow>
   ('x, 'ip, 'u tcp_client, 'n, 'z) world_scheme \<Rightarrow>
   (exn + client_base) \<times> ('x, 'ip, 'u tcp_client, 'n, 'z) world_scheme"
where
  "client_base_host_port is_v4 resolver d host port lo w =
     apfst (map_sum id client_base.make) (client_host_port is_v4 resolver d host port lo w)"

definition client_base_builder ::
  "('ip, 't, 'n) builder \<Rightarrow> 'ip address \<Rightarrow> lid \<Rightarrow> ('x, 'ip, 't, 'n, 'z) world_scheme \<Rightarrow>
   client_base \<times> ('x, 'ip, 't, 'n, 'z) world_scheme"
where
  "client_base_builder b addr lo w = apfst client_base.make (client_builder b addr lo w)"

section \<open>The families of overloads\<close>

lemmas caller_defs =
  call0_def call_auto_def call_shared_def call_plain_def call_apply_auto_def call_apply_shared_def
  call_apply_plain_def notify0_def notify_auto_def notify_shared_def notify_plain_def
  notify_apply_auto_def notify_apply_shared_def notify_apply_plain_def zone_release_def

section \<open>Properties\<close>

text \<open>
  Over TCP all forms of a call are equivalent: with an owned zone, with a shared zone, without a
  zone, and with the arguments as one array, a call with the same name and arguments has the same
  result and the same effect, if msgpack packs the same bytes into one block and into a vector. The
  same holds for notifications.
\<close>

lemma call_forms_equivalent:
  assumes "vpack_agrees pk"
  shows "call_auto (send_request pk (tcp_send_data a d) s) name z params w =
      call_plain (send_request pk (tcp_send_data a d) s) name params w \<and>
    call_shared (send_request pk (tcp_send_data a d) s) name z params w =
      call_plain (send_request pk (tcp_send_data a d) s) name params w \<and>
    call_apply_auto (send_request pk (tcp_send_data a d) s) name z params w =
      call_plain (send_request pk (tcp_send_data a d) s) name params w \<and>
    call_apply_shared (send_request pk (tcp_send_data a d) s) name z params w =
      call_apply_plain (send_request pk (tcp_send_data a d) s) name params w \<and>
    notify_auto (send_notify pk (tcp_send_data a d) s) name z params w =
      notify_plain (send_notify pk (tcp_send_data a d) s) name params w \<and>
    notify_shared (send_notify pk (tcp_send_data a d) s) name z params w =
      notify_plain (send_notify pk (tcp_send_data a d) s) name params w \<and>
    notify_apply_auto (send_notify pk (tcp_send_data a d) s) name z params w =
      notify_apply_plain (send_notify pk (tcp_send_data a d) s) name params w \<and>
    notify_apply_shared (send_notify pk (tcp_send_data a d) s) name z params w =
      notify_apply_plain (send_notify pk (tcp_send_data a d) s) name params w"
  using send_request_zone[OF assms, of a d s name params z w None]
    send_notify_zone[OF assms, of a d s name params z w None]
  by (simp add: caller_defs)

end
