(* ===== verification/RPC_Run.thy ===== *)
theory RPC_Run
  imports RPC_Caller
begin

text \<open>
  Runs of a client process over TCP: the runs of \<open>RPC_Process\<close> with the TCP transport. The events of
  the loop are reads, step timers, connect timers and posted callbacks.
\<close>

section \<open>Definitions\<close>

abbreviation client_run ::
  "('ip, 'b, 'n) asio \<Rightarrow> ('x, 'b, 'u) decoder \<Rightarrow> ('x, 'b) packer \<Rightarrow> nat \<Rightarrow> nat \<Rightarrow>
   ('x, 'ip, 'u tcp_client, 'n) world \<Rightarrow> bool"
where
  "client_run a d pk \<equiv> process_run (tcp_send_data a d) (handle_client_event d) event_valid pk"

interpretation tcp_process: client_process "tcp_send_data a d" "handle_client_event d" event_valid for a d
  by unfold_locales (rule handle_client_event_retires)

interpretation tcp_runs: client_runs "tcp_send_data a d" "handle_client_event d" event_valid for a d
  by unfold_locales

lemmas client_run_inv = tcp_runs.process_run_inv

section \<open>Properties\<close>

text \<open>A first call over a new session, to a peer that accepts and to one that refuses.\<close>

definition sample_session :: "(nat, nat, unit tcp_client, nat) world" where
  "sample_session = snd (session_create (tcp_build sample_decoder new_tcp_builder) (Address 2 80) 0
     (initial_world [add_worker 1 new_loop] 0))"

definition sample_call :: "errno \<Rightarrow> (nat, nat, unit tcp_client, nat) world" where
  "sample_call ec = snd (send_request sample_packer (tcp_send_data (sample_asio ec) sample_decoder) 0 ''f'' [] None sample_session)"

lemma sample_session_simps:
  "is_running (h_loops sample_session ! 0)" "length (w_sessions sample_session) = 1" "s_msgid_rr (ses sample_session 0) = 1"
  "h_futures sample_session = []" "s_timeout (ses sample_session 0) = 30" "s_loop (ses sample_session 0) = 0"
  "w_net sample_session = 0" "\<not> sh_open (tc_conn (tcp sample_session 0))" "table sample_session 0 = []"
  by (simp_all add: sample_session_def session_create_def session_build_def Let_def tcp_build_def initial_world_def
      arm_step_timer_def put_session_def new_session_impl_def is_running_def add_worker_eq new_loop_def
      new_tcp_builder_def tcp_def new_tcp_client_def new_stream_handler_def new_reqtable_def)

lemma sample_call_reached: "client_run (sample_asio ec) sample_decoder sample_packer (Suc 0) 0 (sample_call ec)"
  unfolding sample_call_def
  by (rule run_call) (simp_all add: sample_session_simps, simp add: sample_session_def run_create[OF run_init])

lemma sample_call_accepted:
  "h_futures (sample_call 0) = [new_future_impl 1 0 0 30]" "length (w_sessions (sample_call 0)) = 1"
proof -
  let ?r = "registered 0 sample_session"
  have "\<exists>w'. tcp_send_data (sample_asio 0) sample_decoder 0 (request_buf sample_packer ''f'' [] None 1) ?r = (None, w') \<and>
      sh_open (tc_conn (tcp w' 0)) \<and> sh_reading (tc_conn (tcp w' 0)) \<and> w_net w' = 3 \<and>
      h_futures w' = h_futures ?r \<and> table w' 0 = table ?r 0 \<and>
      s_msgid_rr (ses w' 0) = s_msgid_rr (ses ?r 0) \<and> length (w_sessions w') = length (w_sessions ?r)"
    by (rule tcp_send_data_accepted[where n = 1])
       (use sample_session_simps in \<open>simp_all add: registered_simps sample_asio_def request_buf_def sample_packer_def\<close>)
  then show "h_futures (sample_call 0) = [new_future_impl 1 0 0 30]" "length (w_sessions (sample_call 0)) = 1"
    by (auto simp: sample_call_def send_request_state registered_simps sample_session_simps)
qed

lemma sample_call_refused:
  "length (h_futures (sample_call 111)) = 1" "ready (sample_call 111) 0" "f_error (fut (sample_call 111) 0) = CONNECT_ERROR"
proof -
  let ?r = "registered 0 sample_session"
  have r: "refuses (sample_asio 111) 0" by (simp add: refuses_def sample_asio_def ETIMEDOUT_def)
  have wf: "table_wf ?r"
    by (rule registered_wf) (simp_all add: table_wf_def sample_session_simps)
  have pre: "loop_running ?r 0" "0 < length (w_sessions ?r)" "\<not> sh_open (tc_conn (tcp ?r 0))"
    by (simp_all add: registered_simps sample_session_simps)
  from tcp_send_data_refused[OF r pre, of sample_decoder "request_buf sample_packer ''f'' [] None 1"]
  have "fut (sample_call 111) 0 = failed_with CONNECT_ERROR (fut ?r 0)"
    by (auto simp: sample_call_def send_request_state sample_session_simps registered_simps)
  moreover have "retires ?r (sample_call 111)"
    unfolding sample_call_def send_request_state by (rule tcp_send_data_retires[OF wf pre(2)])
  ultimately show "length (h_futures (sample_call 111)) = 1" "ready (sample_call 111) 0"
    "f_error (fut (sample_call 111) 0) = CONNECT_ERROR"
    using retiresD(1)[of ?r "sample_call 111"] by (simp_all add: registered_simps sample_session_simps)
qed

text \<open>
  C5: In every run of a client with up to 2 ^ 32 calls, whatever is sent, received, refused, timed out
  or waited for: a future that has not been completed is in the request table of its session under
  its message identifier, so that a response, an error or the timeout will find it; the tables hold
  existing futures under their own identifiers, each in one table only.
\<close>

theorem client_run_no_orphan:
  assumes "client_run a d pk c t w" "c \<le> 2 ^ 32"
  shows "no_orphan w \<and> table_wf w"
  using client_run_inv[OF assms(1)] assms(2) by (simp add: run_inv_def)

lemma client_run_no_orphan_witness:
  "client_run (sample_asio 0) sample_decoder sample_packer 1 0 (sample_call 0) \<and> no_orphan (sample_call 0) \<and>
   f_session (fut (sample_call 0) 0) = Some 0"
  using client_run_no_orphan[OF sample_call_reached, of 0] sample_call_reached[of 0] by (simp add: sample_call_accepted)

text \<open>
  C6: No request waits forever: in every run with up to 2 ^ 32 calls, a future that waits with \<open>n\<close>
  seconds left is completed with the local timeout error by \<open>n + 1\<close> ticks of its session's timer, if
  nothing else completes it before, and is then in no table.
\<close>

theorem no_request_waits_forever:
  assumes "client_run a d pk c t w" "c \<le> 2 ^ 32" "f < length (h_futures w)" "f_session (fut w f) = Some s"
    and "w' = timer_ticks s (Suc (unat (f_timeout (fut w f)))) w"
  shows "ready w' f \<and> f_error (fut w' f) = TIMEOUT_ERROR \<and> f \<notin> snd ` set (table w' s)"
  by (rule run_inv_ticks[OF client_run_inv[OF assms(1)] assms(2-5)])

lemma no_request_waits_forever_witness:
  "f_error (fut (timer_ticks 0 31 (sample_call 0)) 0) = TIMEOUT_ERROR"
  using no_request_waits_forever[OF sample_call_reached _ _ _ refl, of 0 0 0] by (simp add: sample_call_accepted)

text \<open>
  C7: Results are stable: in every run in which no wait has timed out, a completed future keeps its
  result, its error and its zone through every further call, notification and event.
\<close>

theorem client_run_result_stable:
  assumes "client_run a d pk c 0 w" "f < length (h_futures w)" "ready w f"
  shows "(event_valid w ev \<longrightarrow> fut (snd (handle_client_event d ev w)) f = fut w f) \<and>
    (s < length (w_sessions w) \<longrightarrow> fut (snd (send_request pk (tcp_send_data a d) s m p z w)) f = fut w f \<and>
       fut (snd (send_notify pk (tcp_send_data a d) s m p z w)) f = fut w f)"
  by (rule tcp_process.completed_stable[OF client_run_inv[OF assms(1)] assms(2,3)])

lemma client_run_result_stable_witness:
  "fut (snd (handle_client_event sample_decoder (Ev_callback 1 0) (sample_call 111))) 0 = fut (sample_call 111) 0"
  using client_run_result_stable[OF sample_call_reached, of 0 111 "Ev_callback 1 0"] sample_call_refused
  by (simp add: event_valid_def)

end
