(* ===== verification/RPC_Pool_Run.thy ===== *)
theory RPC_Pool_Run
  imports RPC_Run
begin

text \<open>
  Runs of a process that uses a session pool: the user takes sessions from the pool, copies and drops
  their handles, calls and notifies; the loop runs the handlers of sockets and timers and the step
  timer of the pool, in any order. The references to a session (the handles of the user, the entry of
  the pool, the futures that wait) are accounted for, so that what the pool evicts is what nobody uses.
\<close>

section \<open>Definitions\<close>

text \<open>
  \<open>pool_process a d pk u c t w\<close>: a run reaches the state \<open>w\<close> after \<open>c\<close> calls, with \<open>t\<close> waits that timed
  out; the user holds \<open>u s\<close> handles of the session \<open>s\<close>, and uses and drops only sessions of which he
  holds one.
\<close>

inductive pool_process ::
  "('ip::linorder, 'b, 'n) asio \<Rightarrow> ('x, 'b, 'u) decoder \<Rightarrow> ('x, 'b) packer \<Rightarrow> (sid \<Rightarrow> nat) \<Rightarrow> nat \<Rightarrow> nat \<Rightarrow>
   ('x, 'ip, 'u tcp_client, 'n) pool \<Rightarrow> bool"
  for a d pk
where
  pp_init: "pool_process a d pk (\<lambda>s. 0) 0 0 (new_session_pool b lo (initial_world ls n))"
| pp_get: "pool_process a d pk u c t w \<Longrightarrow> get_session addr w = (s, w') \<Longrightarrow>
    pool_process a d pk (u(s := Suc (u s))) c t w'"
| pp_copy: "pool_process a d pk u c t w \<Longrightarrow> 0 < u s \<Longrightarrow> pool_process a d pk (u(s := Suc (u s))) c t (session_copy s w)"
| pp_release: "pool_process a d pk u c t w \<Longrightarrow> 0 < u s \<Longrightarrow> pool_process a d pk (u(s := u s - 1)) c t (session_release s w)"
| pp_call: "pool_process a d pk u c t w \<Longrightarrow> 0 < u s \<Longrightarrow>
    pool_process a d pk u (Suc c) t (snd (send_request pk (tcp_send_data a d) s m p z w))"
| pp_notify: "pool_process a d pk u c t w \<Longrightarrow> 0 < u s \<Longrightarrow>
    pool_process a d pk u c t (snd (send_notify pk (tcp_send_data a d) s m p z w))"
| pp_event: "pool_process a d pk u c t w \<Longrightarrow> event_valid w ev \<Longrightarrow>
    pool_process a d pk u c t (snd (handle_client_event d ev w))"
| pp_attach: "pool_process a d pk u c t w \<Longrightarrow> pool_process a d pk u c t (attach_callback f cb w)"
| pp_wait_expired: "pool_process a d pk u c t w \<Longrightarrow> f < length (h_futures w) \<Longrightarrow>
    pool_process a d pk u c (Suc t) (set_result f NIL TIMEOUT_ERROR None w)"
| pp_set_timeout: "pool_process a d pk u c t w \<Longrightarrow> pool_process a d pk u c t (session_set_timeout s sec w)"
| pp_pool_timeout: "pool_process a d pk u c t w \<Longrightarrow> pool_process a d pk u c t (pool_set_timeout sec w)"
| pp_tick: "pool_process a d pk u c t w \<Longrightarrow> pool_process a d pk u c t (pool_step_timer_handler aborted w)"
| pp_loop: "pool_process a d pk u c t w \<Longrightarrow> pool_process a d pk u c t (on_loop l g w)"
| pp_net: "pool_process a d pk u c t w \<Longrightarrow> pool_process a d pk u c t (w\<lparr>w_net := n\<rparr>)"

text \<open>The sessions of the pool, and the sessions in use.\<close>

definition pooled :: "('x, 'ip, 't, 'n, 'z) pool_scheme \<Rightarrow> sid set" where
  "pooled w = (\<lambda>p. fst (snd p)) ` set (p_table w)"

definition in_use :: "(sid \<Rightarrow> nat) \<Rightarrow> ('x, 'ip, 't, 'n, 'z) world_scheme \<Rightarrow> sid \<Rightarrow> bool" where
  "in_use u w s \<longleftrightarrow> 0 < u s \<or> (\<exists>f < length (h_futures w). f_session (fut w f) = Some s)"

section \<open>Steps that keep the references\<close>

definition keeps_refs :: "('x, 'ip, 't, 'n, 'z) pool_scheme \<Rightarrow> ('x, 'ip, 't, 'n, 'z) pool_scheme \<Rightarrow> bool" where
  "keeps_refs w w' \<longleftrightarrow> p_table w' = p_table w \<and> length (w_sessions w') = length (w_sessions w) \<and>
     (\<forall>s. s_handles (ses w' s) = s_handles (ses w s) \<and> s_addr (ses w' s) = s_addr (ses w s))"

lemma keeps_put_session:
  "s_handles si = s_handles (ses w s) \<Longrightarrow> s_addr si = s_addr (ses w s) \<Longrightarrow> keeps_refs w (put_session s si w)"
  by (simp add: keeps_refs_def ses_put_session) (simp add: put_session_def)

lemma keeps_refs_trans: "keeps_refs w w' \<Longrightarrow> keeps_refs w' w'' \<Longrightarrow> keeps_refs w w''"
  by (simp add: keeps_refs_def)

lemma keeps_basic:
  "keeps_refs w w" "keeps_refs w (w\<lparr>w_net := n\<rparr>)" "keeps_refs w (log_effects es w)" "keeps_refs w (on_loop l g w)"
  "keeps_refs w (w\<lparr>h_futures := fs\<rparr>)" "keeps_refs w (set_result f r e z w)" "keeps_refs w (attach_callback f cb w)"
  "keeps_refs w (pool_set_timeout sec w)"
  by (simp_all add: keeps_refs_def log_effects_def on_loop_def attach_callback_def put_future_def pool_set_timeout_def)

lemma keeps_put_table: "keeps_refs w (put_table s m w)"
  unfolding put_table_def by (rule keeps_put_session) simp_all

lemma keeps_complete_all: "keeps_refs w (complete_all err fs w)"
  by (induction fs arbitrary: w) (auto intro: keeps_basic keeps_refs_trans)

lemma keeps_fail_all: "keeps_refs w (on_connect_failed s w)" "keeps_refs w (on_system_error s err w)"
  by (simp_all add: on_connect_failed_def on_system_error_def keeps_refs_trans[OF keeps_put_table keeps_complete_all]
      split: prod.split)

lemma keeps_timer: "keeps_refs w (step_timer_handler aborted s w)"
proof (cases aborted)
  case False
  obtain td m fs where st: "reqtable_step_timeout [] (table w s) (h_futures w) = (td, m, fs)"
    by (cases "reqtable_step_timeout [] (table w s) (h_futures w)")
  have "keeps_refs w (put_table s m (w\<lparr>h_futures := fs\<rparr>))" by (rule keeps_refs_trans[OF keeps_basic(5) keeps_put_table])
  from keeps_refs_trans[OF this keeps_complete_all] this
  have "keeps_refs w (if td \<noteq> [] then complete_all TIMEOUT_ERROR td (put_table s m (w\<lparr>h_futures := fs\<rparr>))
      else put_table s m (w\<lparr>h_futures := fs\<rparr>))" by simp
  with False st show ?thesis
    by (simp add: step_timer_handler_def arm_step_timer_def keeps_refs_trans[OF _ keeps_put_session] Let_def)
qed (simp add: step_timer_handler_def keeps_basic)

interpretation keeping: tcp_events "\<lambda>w. True" "keeps_refs :: ('x, 'ip, 'u tcp_client, 'n, 'z) pool_scheme \<Rightarrow> _"
proof (unfold_locales, goal_cases)
  case (2 w w' w'')
  then show ?case by (rule keeps_refs_trans)
next
  case (4 w w')
  then show ?case by (simp add: keeps_refs_def)
next
  case (5 w s t)
  then show ?case unfolding put_tcp_def by (rule keeps_put_session) simp_all
next
  case (10 w s i r e z)
  then show ?case
    by (auto simp: on_response_def Let_def keeps_put_table intro: keeps_refs_trans[OF keeps_put_table keeps_basic(6)]
        split: prod.split option.split)
qed (simp_all add: keeps_basic keeps_timer keeps_fail_all)

section \<open>The invariant\<close>

text \<open>
  Handles are those of the user and the one of the pool's entry; a session in use is in the pool.
\<close>

definition pool_refs :: "(sid \<Rightarrow> nat) \<Rightarrow> ('x, 'ip::linorder, 't, 'n, 'z) pool_scheme \<Rightarrow> bool" where
  "pool_refs u w \<longleftrightarrow> pool_invar w \<and>
     (\<forall>s < length (w_sessions w). s_handles (ses w s) = u s + (if s \<in> pooled w then 1 else 0)) \<and>
     (\<forall>s. in_use u w s \<longrightarrow> s \<in> pooled w)"

lemma pool_refsD:
  assumes "pool_refs u w"
  shows "pool_invar w" "s < length (w_sessions w) \<Longrightarrow> s_handles (ses w s) = u s + (if s \<in> pooled w then 1 else 0)"
    and "in_use u w s \<Longrightarrow> s \<in> pooled w" "0 < u s \<Longrightarrow> s \<in> pooled w"
  using assms by (auto simp: pool_refs_def in_use_def)

lemma pooled_entry:
  assumes "pool_invar w" "s \<in> pooled w"
  obtains ttl where "(s_addr (ses w s), s, ttl) \<in> set (p_table w)" "s < length (w_sessions w)" "0 < s_handles (ses w s)"
  using assms by (force simp: pooled_def pool_invar_def pool_entry_ok_def)

lemma pool_refs_session: "pool_refs u w \<Longrightarrow> in_use u w s \<Longrightarrow> s < length (w_sessions w)"
  using pool_refsD(1,3) pooled_entry by metis

lemma keeps_pool_refs:
  assumes "pool_refs u w" "keeps_refs w w'" "\<And>s. in_use u w' s \<Longrightarrow> in_use u w s"
  shows "pool_refs u w'"
proof -
  have "p_table w' = p_table w" "length (w_sessions w') = length (w_sessions w)"
    "\<And>s. s_handles (ses w' s) = s_handles (ses w s)" "\<And>s. s_addr (ses w' s) = s_addr (ses w s)"
    using assms(2) by (simp_all add: keeps_refs_def)
  then show ?thesis using assms(1,3) by (simp add: pool_refs_def pool_invar_def pool_entry_ok_def pooled_def)
qed

lemma retires_in_use:
  assumes "retires w w'" "in_use u w' s"
  shows "in_use u w s"
proof (cases "0 < u s")
  case False
  with assms obtain f where f: "f < length (h_futures w)" "f_session (fut w' f) = Some s"
    by (auto simp: in_use_def retires_def)
  with assms(1) have "f_session (fut w f) = Some s" by (auto simp: retires_def is_ready_def)
  with f(1) show ?thesis by (auto simp: in_use_def)
qed (simp add: in_use_def)

lemma same_in_use: "same_requests w w' \<Longrightarrow> in_use u w' s = in_use u w s"
  by (auto simp: in_use_def same_requests_def)

text \<open>Changes of the handles.\<close>

lemma copy_pool_refs:
  assumes "pool_refs u w" "s \<in> pooled w"
  shows "pool_refs (u(s := Suc (u s))) (session_copy s w)"
proof -
  have "pooled (session_copy s w) = pooled w" by (simp add: pooled_def)
  then show ?thesis
    using assms by (auto simp: pool_refs_def pool_invar_def pool_entry_ok_def handles_session_copy in_use_def split: if_splits)
qed

lemma release_pool_refs:
  assumes "pool_refs u w" "0 < u s"
  shows "pool_refs (u(s := u s - 1)) (session_release s w)"
proof -
  have p: "s \<in> pooled w" by (rule pool_refsD(4)[OF assms])
  have p': "pooled (session_release s w) = pooled w" by (simp add: pooled_def)
  have "s < length (w_sessions w)" using pooled_entry[OF pool_refsD(1)[OF assms(1)] p] by blast
  then have "2 \<le> s_handles (ses w s)" using pool_refsD(2)[OF assms(1)] p assms(2) by simp
  then have "pool_entry_ok (session_release s w) q" if "pool_entry_ok w q" for q
    using that by (auto simp: pool_entry_ok_def handles_session_release)
  then show ?thesis
    using assms p p' by (auto simp: pool_refs_def pool_invar_def handles_session_release in_use_def split: if_splits)
qed

lemma get_pool_refs:
  assumes "pool_refs u w" "get_session addr w = (s, w')"
  shows "pool_refs (u(s := Suc (u s))) w'"
proof -
  note inv = pool_refsD(1)[OF assms(1)]
  have inv': "pool_invar w'" by (rule get_session_invar[OF inv assms(2)])
  show ?thesis
  proof (cases "omap_find addr (p_table w)")
    case None
    note new = get_session_new[OF None assms(2)]
    from new(4) obtain tr where ws: "w_sessions w' = w_sessions w @ [(new_session_impl addr (p_loop w))
       \<lparr>s_tran := Some tr, s_timeout := b_timeout (p_builder w), s_timer := True, s_handles := 2\<rparr>]" by blast
    have "pooled w' = insert s (pooled w)"
      using None inv by (simp add: pooled_def new(3) set_omap_insert pool_invar_def omap_find_map_of)
    moreover have "\<not> in_use u w s" using pool_refs_session[OF assms(1)] new(1) by blast
    ultimately show ?thesis
      using assms(1) inv' new(1,2) ws by (auto simp: pool_refs_def in_use_def nth_append less_Suc_eq)
  next
    case (Some e)
    obtain ttl where e: "e = (s, ttl)"
      "w' = session_copy s (w\<lparr>p_table := AList.update addr (s, SESSION_POOL_TIME_LIMIT) (p_table w)\<rparr>)"
      using Some assms(2) by (cases e) (auto simp: get_session_def)
    have d: "distinct (map fst (p_table w))" using inv omap_invar_distinct by (auto simp: pool_invar_def)
    have entry: "(addr, s, ttl) \<in> set (p_table w)" using Some e(1) inv by (simp add: omap_find_iff)
    have p: "pooled w' = pooled w"
    proof -
      have "set (p_table w') = insert (addr, s, SESSION_POOL_TIME_LIMIT) {p \<in> set (p_table w). fst p \<noteq> addr}"
        using e(2) d by (auto simp: in_set_update_iff)
      then have "pooled w' = insert s ((\<lambda>p. fst (snd p)) ` {p \<in> set (p_table w). fst p \<noteq> addr})"
        by (simp add: pooled_def)
      moreover have "p = (addr, s, ttl)" if "p \<in> set (p_table w)" "fst p = addr" for p
        using that entry d by (metis eq_key_imp_eq_value prod.collapse)
      then have "set (p_table w) = insert (addr, s, ttl) {p \<in> set (p_table w). fst p \<noteq> addr}" using entry by blast
      from arg_cong[OF this, of "(`) (\<lambda>p. fst (snd p))"]
      have "pooled w = insert s ((\<lambda>p. fst (snd p)) ` {p \<in> set (p_table w). fst p \<noteq> addr})" by (simp add: pooled_def)
      ultimately show ?thesis by simp
    qed
    have "s \<in> pooled w" using entry by (force simp: pooled_def)
    then show ?thesis
      using assms(1) inv' p e(2) by (auto simp: pool_refs_def handles_session_copy in_use_def split: if_splits)
  qed
qed

text \<open>A tick of the pool drops the references of the entries it erases.\<close>

lemma handles_fold_release:
  "distinct ss \<Longrightarrow> set ss \<subseteq> {..<length (w_sessions w)} \<Longrightarrow>
    s_handles (ses (fold session_release ss w) s) = (if s \<in> set ss then s_handles (ses w s) - 1 else s_handles (ses w s))"
  by (induction ss arbitrary: w) (auto simp: handles_session_release)

lemma ses_release_other: "s \<noteq> s' \<Longrightarrow> ses (session_release s w) s' = ses w s'"
  by (simp add: session_release_def disarm_step_timer_def ses_put_session Let_def)

lemma ses_fold_release_other: "s \<notin> set ss \<Longrightarrow> ses (fold session_release ss w) s = ses w s"
  by (induction ss arbitrary: w) (auto simp: ses_release_other)

lemma fold_release_timer:
  "distinct ss \<Longrightarrow> s \<in> set ss \<Longrightarrow> s < length (w_sessions w) \<Longrightarrow> use_count w s = 1 \<Longrightarrow> 0 < s_handles (ses w s) \<Longrightarrow>
    \<not> s_timer (ses (fold session_release ss w) s)"
proof (induction ss arbitrary: w)
  case (Cons s' ss)
  show ?case
  proof (cases "s' = s")
    case True
    with Cons.prems session_release_last[of w s] show ?thesis by (simp add: ses_fold_release_other)
  next
    case False
    with Cons show ?thesis by (simp add: ses_release_other use_count_session_release)
  qed
qed simp

lemma dead_sids_distinct: "pool_invar w \<Longrightarrow> distinct (dead_sids w)"
  using pool_invar_sids_distinct[of w] by (simp add: dead_sids_def distinct_map distinct_filter inj_on_def)

lemma dead_sidsD:
  assumes "pool_refs u w" "s \<in> set (dead_sids w)"
  shows "s \<in> pooled w" "s < length (w_sessions w)" "s_handles (ses w s) = 1" "\<not> in_use u w s" "use_count w s = 1"
proof -
  from assms(2) obtain a ttl where p: "(a, s, ttl) \<in> set (p_table w)" "use_count w s = 1"
    by (auto simp: dead_sids_def dead_def)
  then show "s \<in> pooled w" "use_count w s = 1" by (force simp: pooled_def)+
  from p(1) pool_refsD(1)[OF assms(1)] have s: "s < length (w_sessions w)" "0 < s_handles (ses w s)"
    by (auto simp: pool_invar_def pool_entry_ok_def)
  with p(2) show "s < length (w_sessions w)" "s_handles (ses w s) = 1" by (simp_all add: use_count_def)
  with pool_refsD(2)[OF assms(1), of s] \<open>s \<in> pooled w\<close> unreferenced_no_future[OF p(2) s(2)]
  show "\<not> in_use u w s" by (auto simp: in_use_def)
qed

lemma tick_pooled:
  assumes "pool_invar w"
  shows "pooled (pool_step_timer_handler False w) = pooled w - set (dead_sids w)"
proof -
  have "fst (snd (aged w p)) = fst (snd p)" for p by (cases p) (simp add: aged_def)
  then have "pooled (pool_step_timer_handler False w) = (\<lambda>p. fst (snd p)) ` {p \<in> set (p_table w). \<not> dead w p}"
    by (simp add: pooled_def pool_tick_set[OF assms] image_image)
  moreover have "inj_on (\<lambda>p. fst (snd p)) (set (p_table w))"
    using pool_invar_sids_distinct[OF assms] by (simp add: distinct_map)
  ultimately show ?thesis by (auto simp: pooled_def dead_sids_def dest: inj_onD)
qed

lemma tick_pool_refs:
  assumes "pool_refs u w"
  shows "pool_refs u (pool_step_timer_handler aborted w)"
proof (cases aborted)
  case False
  note inv = pool_refsD(1)[OF assms]
  have "s_handles (ses (pool_step_timer_handler False w) s) =
      (if s \<in> set (dead_sids w) then s_handles (ses w s) - 1 else s_handles (ses w s))" for s
  proof -
    have "set (dead_sids w) \<subseteq> {..<length (w_sessions w)}" using dead_sidsD(2)[OF assms] by auto
    from handles_fold_release[OF dead_sids_distinct[OF inv] this, of s] show ?thesis by (simp add: pool_tick_eq[OF inv])
  qed
  moreover have "in_use u (pool_step_timer_handler False w) s = in_use u w s" for s
    by (simp add: in_use_def pool_tick_frame[OF inv])
  ultimately show ?thesis
    using assms False pool_tick_invar[OF inv, of False] dead_sidsD[OF assms]
    by (auto simp: pool_refs_def tick_pooled[OF inv] pool_tick_frame[OF inv])
qed (use assms in \<open>simp add: pool_step_timer_handler_def\<close>)

lemma keeps_registered: "keeps_refs w (registered s w)"
  unfolding registered_def register_future_def next_msgid_def atomic_increment_def Let_def
  by (auto intro!: keeps_put_table keeps_refs_trans[OF keeps_put_session keeps_refs_trans[OF keeps_basic(5) keeps_put_table]])

lemma registered_in_use: "0 < u s \<Longrightarrow> s < length (w_sessions w) \<Longrightarrow> in_use u (registered s w) s' \<Longrightarrow> in_use u w s'"
  by (auto simp: in_use_def registered_simps nth_append less_Suc_eq split: if_splits)

lemma call_pool_refs:
  assumes "pool_refs u w" "run_inv c t w" "0 < u s"
  shows "pool_refs u (snd (send_request pk (tcp_send_data a d) s m p z w))"
proof -
  have s: "s < length (w_sessions w)" using pool_refs_session[OF assms(1)] assms(3) by (auto simp: in_use_def)
  have 1: "pool_refs u (registered s w)"
    by (rule keeps_pool_refs[OF assms(1) keeps_registered]) (rule registered_in_use[of u s w, OF assms(3) s])
  have wf: "table_wf (registered s w)" using registered_run_inv[OF assms(2) s] by (simp add: run_inv_def)
  have s1: "s < length (w_sessions (registered s w))" using s by (simp add: registered_simps)
  show ?thesis unfolding send_request_state
    by (rule keeps_pool_refs[OF 1 keeping.send_rel[OF TrueI s1]]) (rule retires_in_use[OF tcp_send_data_retires[OF wf s1]])
qed

lemma msgid_fold_release: "s_msgid_rr (ses (fold session_release ss w) s) = s_msgid_rr (ses w s)"
  by (induction ss arbitrary: w) (simp_all add: session_release_def disarm_step_timer_def ses_put_session Let_def)

lemma tick_same_requests:
  assumes "pool_invar w"
  shows "same_requests w (pool_step_timer_handler aborted w)"
proof (cases aborted)
  case False
  then show ?thesis by (simp add: same_requests_def pool_tick_eq[OF assms] msgid_fold_release)
qed (simp add: pool_step_timer_handler_def same_requests_def)

lemma get_run_inv:
  assumes "run_inv c t w" "get_session addr w = (s, w')"
  shows "run_inv c t w'"
proof (cases "omap_find addr (p_table w)")
  case None
  obtain s1 w1 where cr: "session_create (p_builder w) addr (p_loop w) w = (s1, w1)"
    by (cases "session_create (p_builder w) addr (p_loop w) w")
  let ?w2 = "w1\<lparr>p_table := omap_insert addr (s1, SESSION_POOL_TIME_LIMIT) (p_table w1)\<rparr>"
  have "run_inv c t w1" by (rule create_run_inv[OF assms(1) cr])
  then have "run_inv c t ?w2" by (rule same_run_inv[rotated]) (simp add: same_requests_def)
  from same_run_inv[OF same_session_ops(1) this] None cr assms(2) show ?thesis by (auto simp: get_session_def)
next
  case (Some e)
  obtain s1 ttl where e: "e = (s1, ttl)" by (cases e)
  let ?w2 = "w\<lparr>p_table := AList.update addr (s1, SESSION_POOL_TIME_LIMIT) (p_table w)\<rparr>"
  have "run_inv c t ?w2" by (rule same_run_inv[OF _ assms(1)]) (simp add: same_requests_def)
  from same_run_inv[OF same_session_ops(1) this] Some e assms(2) show ?thesis by (auto simp: get_session_def)
qed

lemma keeps_same_step:
  assumes "run_inv c t w \<and> pool_refs u w" "keeps_refs w w'" "same_requests w w'"
  shows "run_inv c t w' \<and> pool_refs u w'"
  using assms by (auto intro: same_run_inv[OF assms(3)] keeps_pool_refs[OF _ assms(2)] simp: same_in_use[OF assms(3)])

lemma keeps_retires_step:
  assumes "run_inv c t w \<and> pool_refs u w" "keeps_refs w w'" "retires w w'"
  shows "run_inv c t w' \<and> pool_refs u w'"
proof
  show "run_inv c t w'" by (rule retires_run_inv[OF assms(3)]) (use assms(1) in simp)
  show "pool_refs u w'" by (rule keeps_pool_refs[OF _ assms(2) retires_in_use[OF assms(3)]]) (use assms(1) in simp)
qed

lemma pool_process_inv: "pool_process a d pk u c t w \<Longrightarrow> run_inv c t w \<and> pool_refs u w"
proof (induction rule: pool_process.induct)
  case (pp_init b lo ls n)
  then show ?case
    by (simp add: new_session_pool_def pool_arm_step_timer_def world.extend_def initial_world_def run_inv_def table_wf_def
        ids_issued_def tables_pending_def no_orphan_def pool_refs_def pool_invar_def in_use_def)
next
  case (pp_get u c t w addr s w')
  then show ?case using get_run_inv get_pool_refs by blast
next
  case (pp_copy u c t w s)
  then show ?case using same_run_inv[OF same_session_ops(1)] copy_pool_refs pool_refsD(4) by blast
next
  case (pp_release u c t w s)
  then show ?case using same_run_inv[OF same_session_ops(2)] release_pool_refs by blast
next
  case (pp_call u c t w s m p z)
  then have "s < length (w_sessions w)" using pool_refs_session[of u w s] by (simp add: in_use_def)
  with pp_call show ?case by (intro conjI tcp_process.call_run_inv call_pool_refs[where c = c and t = t]) simp_all
next
  case (pp_notify u c t w s m p z)
  then have s: "s < length (w_sessions w)" "table_wf w" using pool_refs_session[of u w s] by (auto simp: in_use_def run_inv_def)
  have "keeps_refs w (snd (send_notify pk (tcp_send_data a d) s m p z w))"
    using s(1) by (simp add: send_notify_def send_notify_impl_def Let_def keeping.send_rel)
  from keeps_retires_step[OF pp_notify.IH this tcp_process.notify_retires[OF s(2,1)]] show ?case .
next
  case (pp_event u c t w ev)
  then have "retires w (snd (handle_client_event d ev w))" by (simp add: handle_client_event_retires run_inv_def)
  moreover have "keeps_refs w (snd (handle_client_event d ev w))" using pp_event(2) by (simp add: keeping.event_rel)
  ultimately show ?case using keeps_retires_step pp_event.IH by blast
next
  case (pp_attach u c t w f cb)
  show ?case by (rule keeps_same_step[OF pp_attach.IH keeps_basic(7) same_attach])
next
  case (pp_wait_expired u c t w f)
  have "in_use u w s" if "in_use u (set_result f NIL TIMEOUT_ERROR None w) s" for s
    using that by (auto simp: in_use_def fut_set_result split: if_splits)
  with pp_wait_expired show ?case using wait_expired_run_inv keeps_pool_refs[OF _ keeps_basic(6)] by blast
next
  case (pp_set_timeout u c t w s sec)
  have "keeps_refs w (session_set_timeout s sec w)" unfolding session_set_timeout_def by (rule keeps_put_session) simp_all
  from keeps_same_step[OF pp_set_timeout.IH this same_session_ops(3)] show ?case .
next
  case (pp_pool_timeout u c t w sec)
  have "same_requests w (pool_set_timeout sec w)" by (simp add: same_requests_def pool_set_timeout_def)
  from keeps_same_step[OF pp_pool_timeout.IH keeps_basic(8) this] show ?case .
next
  case (pp_tick u c t w aborted)
  then show ?case using tick_pool_refs same_run_inv[OF tick_same_requests[OF pool_refsD(1)]] by blast
next
  case (pp_loop u c t w l g)
  show ?case by (rule keeps_same_step[OF pp_loop.IH keeps_basic(4) same_loop])
next
  case (pp_net u c t w n)
  show ?case by (rule keeps_same_step[OF pp_net.IH keeps_basic(2) same_session_ops(4)])
qed

lemma in_use_found:
  assumes "pool_refs u w" "in_use u w s"
  shows "\<exists>ttl. omap_find (s_addr (ses w s)) (p_table w) = Some (s, ttl)"
proof -
  from pooled_entry[OF pool_refsD(1)[OF assms(1)] pool_refsD(3)[OF assms]] obtain ttl where
    "(s_addr (ses w s), s, ttl) \<in> set (p_table w)" by blast
  then show ?thesis using omap_find_iff[OF pool_refsD(1)[OF assms(1)]] by blast
qed

section \<open>A sample run\<close>

text \<open>A session is taken from a new pool; it is dropped, and the timer ticks.\<close>

definition sample_new_pool :: "(nat, nat, unit tcp_client, nat) pool" where
  "sample_new_pool = new_session_pool (tcp_build sample_decoder new_tcp_builder) 0 (initial_world [new_loop] 0)"

definition sample_used_pool :: "(nat, nat, unit tcp_client, nat) pool" where
  "sample_used_pool = snd (get_session (Address 2 80) sample_new_pool)"

lemma sample_used_pool_simps:
  "get_session (Address 2 80) sample_new_pool = (0, sample_used_pool)" "p_table sample_used_pool = [(Address 2 80, 0, 60)]"
  "h_futures sample_used_pool = []" "length (w_sessions sample_used_pool) = 1" "s_handles (ses sample_used_pool 0) = 2"
  "s_addr (ses sample_used_pool 0) = Address 2 80"
  by (simp_all add: sample_used_pool_def sample_new_pool_def new_session_pool_def pool_arm_step_timer_def world.extend_def
      initial_world_def get_session_def session_create_def session_build_def Let_def arm_step_timer_def put_session_def
      session_copy_def new_session_impl_def SESSION_POOL_TIME_LIMIT_def tcp_build_def)

lemma sample_used_run:
  "pool_process (sample_asio 0) sample_decoder sample_packer ((\<lambda>s. 0)(0 := 1)) 0 0 sample_used_pool"
  using pp_get[OF pp_init sample_used_pool_simps(1)[unfolded sample_new_pool_def]] by simp

lemma sample_dropped_run:
  "pool_process (sample_asio 0) sample_decoder sample_packer (\<lambda>s. 0) 0 0 (ticks n (session_release 0 sample_used_pool))"
proof (induction n)
  case 0
  have "((\<lambda>s. 0)(0 := 1))(0 := ((\<lambda>s. 0)(0 := (1 :: nat))) 0 - 1) = (\<lambda>s :: sid. 0)" by auto
  with pp_release[OF sample_used_run, of 0] show ?case by simp
qed (simp add: pp_tick)

section \<open>Properties\<close>

text \<open>
  C24: Users of an address share one session, for as long as they use it: in every run of a process
  with a pool, of the sessions that the user holds or whose answers he waits for no two have the same
  address, and asking the pool for the address of such a session returns this session, whatever timers
  and events have happened; the references to every session are exactly those of the user and the one
  of the pool.
\<close>

theorem pool_shares_sessions:
  assumes "pool_process a d pk u c t w"
  shows "(\<forall>s < length (w_sessions w). s_handles (ses w s) = u s + (if s \<in> pooled w then 1 else 0)) \<and>
    (\<forall>s s'. in_use u w s \<and> in_use u w s' \<and> s_addr (ses w s) = s_addr (ses w s') \<longrightarrow> s = s') \<and>
    (\<forall>s. in_use u w s \<longrightarrow> fst (get_session (s_addr (ses w s)) w) = s)"
proof -
  have refs: "pool_refs u w" using pool_process_inv[OF assms] by simp
  have "fst (get_session (s_addr (ses w s)) w) = s" if "in_use u w s" for s
    using in_use_found[OF refs that] by (auto simp: get_session_found)
  moreover have "s = s'" if "in_use u w s" "in_use u w s'" "s_addr (ses w s) = s_addr (ses w s')" for s s'
  proof -
    from in_use_found[OF refs that(1)] obtain ttl where 1: "omap_find (s_addr (ses w s)) (p_table w) = Some (s, ttl)" ..
    from in_use_found[OF refs that(2)] obtain ttl' where "omap_find (s_addr (ses w s')) (p_table w) = Some (s', ttl')" ..
    with 1 that(3) show ?thesis by simp
  qed
  ultimately show ?thesis by (intro conjI allI impI) (auto simp: pool_refsD(2)[OF refs])
qed

lemma pool_shares_sessions_witness: "fst (get_session (Address 2 80) sample_used_pool) = 0"
proof -
  have "in_use ((\<lambda>s. 0)(0 := 1)) sample_used_pool 0" by (simp add: in_use_def)
  with pool_shares_sessions[OF sample_used_run] show ?thesis by (metis sample_used_pool_simps(6))
qed

text \<open>
  C25: The pool evicts only what nobody uses, and loses no request by it: in every run a tick of the
  pool's timer leaves the entry of a session in use as it is; when it evicts a session, nobody held it,
  no future waited for it, its last reference is gone and its timer is off, and, if no wait has timed
  out in the run, its request table was empty.
\<close>

theorem pool_evicts_unused:
  assumes "pool_process a d pk u c t w" "(ad, s, ttl) \<in> set (p_table w)"
  shows "(in_use u w s \<longrightarrow> (ad, s, ttl) \<in> set (p_table (pool_step_timer_handler False w))) \<and>
    (ad \<notin> fst ` set (p_table (pool_step_timer_handler False w)) \<longrightarrow>
       \<not> in_use u w s \<and> use_count (pool_step_timer_handler False w) s = 0 \<and>
       \<not> s_timer (ses (pool_step_timer_handler False w) s) \<and> (t = 0 \<longrightarrow> table w s = []))"
proof -
  have refs: "pool_refs u w" and run: "run_inv c t w" using pool_process_inv[OF assms(1)] by simp_all
  note inv = pool_refsD(1)[OF refs]
  have s: "s \<in> pooled w" using assms(2) by (force simp: pooled_def)
  show ?thesis
  proof (cases "dead w (ad, s, ttl)")
    case True
    then have dd: "s \<in> set (dead_sids w)" using assms(2) by (force simp: dead_sids_def)
    note D = dead_sidsD[OF refs dd]
    have "use_count (pool_step_timer_handler False w) s = 0"
      using tick_pool_refs[OF refs, of False] D(4) tick_pooled[OF inv] dd pool_tick_frame(1,2)[OF inv] D(2)
        pool_refsD(2)[of u "pool_step_timer_handler False w" s]
      by (auto simp: use_count_def filter_empty_conv in_set_conv_nth in_use_def)
    moreover have "\<not> s_timer (ses (pool_step_timer_handler False w) s)"
      using fold_release_timer[OF dead_sids_distinct[OF inv] dd D(2,5)] D(3) by (simp add: pool_tick_eq[OF inv])
    moreover have "table w s = []" if "t = 0"
      using run that inv assms(2) D(5) idle_table by (auto simp: run_inv_def)
    ultimately show ?thesis using D(4) by blast
  next
    case False
    have "use_count w s \<noteq> 1" if "in_use u w s"
      using that unreferenced_no_future[of w s] pool_refsD(2)[OF refs, of s] s pooled_entry[OF inv s] 
      by (force simp: in_use_def use_count_def)
    with pool_tick_entry(1)[OF inv assms(2) False] show ?thesis by (force simp: aged_def split: if_splits)
  qed
qed

lemma pool_evicts_unused_witness:
  "\<not> in_use (\<lambda>s. 0) (ticks 60 (session_release 0 sample_used_pool)) 0 \<and>
   table (ticks 60 (session_release 0 sample_used_pool)) 0 = []"
proof -
  let ?w = "session_release 0 sample_used_pool"
  have inv: "pool_invar ?w" using pool_process_inv[OF sample_dropped_run[of 0]] by (simp add: pool_refs_def)
  have entry: "(Address 2 80, 0, 60) \<in> set (p_table ?w)" "use_count ?w 0 = 1"
    by (simp_all add: sample_used_pool_simps use_count_def handles_session_release)
  have "(Address 2 80, 0, 0) \<in> set (p_table (ticks 60 ?w))" using pool_ticks_unreferenced[OF inv entry, of 60] by simp
  moreover have "Address 2 80 \<notin> fst ` set (p_table (pool_step_timer_handler False (ticks 60 ?w)))"
    using pool_ticks_evicted[OF inv entry, of "Suc 60"] unfolding funpow.simps(2) comp_def by simp
  ultimately show ?thesis using pool_evicts_unused[OF sample_dropped_run, of "Address 2 80" 0 0 60] by simp
qed

end
