(* ===== verification/RPC_Server.thy ===== *)
theory RPC_Server
  imports RPC_Codec
begin

text \<open>
  The server (\<^verbatim>\<open>server.h\<close>, \<^verbatim>\<open>server_impl.h\<close>, \<^verbatim>\<open>server.cc\<close>) and its TCP transport (second half of
  \<^verbatim>\<open>transport/tcp.cc\<close>). The dispatcher is the user's: an argument that gets a request and may
  reply to it or throw. The acceptor and the sockets are Boost.Asio's; closing a socket and setting
  an option on it are taken not to fail.
\<close>

section \<open>Definitions\<close>

record 'ip tcp_server =
  ts_acceptor :: bool              \<comment> \<open>\<open>m_acceptor\<close> is open\<close>
  ts_accepting :: bool             \<comment> \<open>an \<open>async_accept\<close> into \<open>m_conn\<close> is pending\<close>
  ts_conn :: "nat option"          \<comment> \<open>\<open>m_conn\<close>\<close>
  ts_local :: "'ip address"
  ts_connections :: "nat list"     \<comment> \<open>the set \<open>m_connections\<close>\<close>

text \<open>
  The state of a server process: its requests (whose sender is a socket), the \<open>server_impl\<close>, and
  the \<open>server_socket\<close> objects.
\<close>

record ('x, 'ip, 'u, 'n) server = "('x, nat) req_heap" +
  v_dp :: bool                       \<comment> \<open>\<open>m_dp\<close> is set\<close>
  v_alive :: bool                    \<comment> \<open>\<open>weak_server::lock\<close> succeeds\<close>
  v_stran :: "'ip tcp_server option"
  v_socks :: "'u stream_handler list"
  v_loop :: loop_impl                \<comment> \<open>\<open>m_loop\<close> of the pool the server extends\<close>
  v_net :: 'n

type_synonym 'w dispatch = "nat \<Rightarrow> 'w \<Rightarrow> exn option \<times> 'w"

record ('ip, 'b, 'n) server_asio =
  sock_listen :: "'ip address \<Rightarrow> 'n \<Rightarrow> (errno + 'ip address) \<times> 'n"   \<comment> \<open>open, bind, listen\<close>
  server_write :: "nat \<Rightarrow> 'b list \<Rightarrow> 'n \<Rightarrow> errno option \<times> 'n"
  remote_endpoint :: "nat \<Rightarrow> 'n \<Rightarrow> errno option"    \<comment> \<open>the error thrown, if any\<close>

subsection \<open>server\_impl\<close>

text \<open>The constructor: no dispatcher and no transport.\<close>

definition new_server :: "loop_impl \<Rightarrow> 'n \<Rightarrow> ('x, 'ip, 'u, 'n) server" where
  "new_server lo n =
     \<lparr>q_requests = [], v_dp = False, v_alive = True, v_stran = None, v_socks = [], v_loop = lo, v_net = n\<rparr>"

definition serve :: "('x, 'ip, 'u, 'n, 'z) server_scheme \<Rightarrow> ('x, 'ip, 'u, 'n, 'z) server_scheme" where
  "serve w = w\<lparr>v_dp := True\<rparr>"

text \<open>A new \<open>request_impl\<close> is handed to the dispatcher; a null \<open>m_dp\<close> is dereferenced.\<close>

definition dispatch_new ::
  "('x, 'ip, 'u, 'n, 'z) server_scheme dispatch \<Rightarrow> ('x, nat) request_impl \<Rightarrow>
   ('x, 'ip, 'u, 'n, 'z) server_scheme \<Rightarrow> exn option \<times> ('x, 'ip, 'u, 'n, 'z) server_scheme"
where
  "dispatch_new dispatch r w =
     (let q = length (q_requests w); w1 = w\<lparr>q_requests := q_requests w @ [r]\<rparr>
      in if v_dp w1 then dispatch q w1 else (Some Null_dereference, w1))"

definition server_on_request ::
  "('x, 'ip, 'u, 'n, 'z) server_scheme dispatch \<Rightarrow> nat \<Rightarrow> msgid \<Rightarrow> 'x object \<Rightarrow> 'x object \<Rightarrow>
   zone option \<Rightarrow> ('x, 'ip, 'u, 'n, 'z) server_scheme \<Rightarrow>
   exn option \<times> ('x, 'ip, 'u, 'n, 'z) server_scheme"
where
  "server_on_request dispatch ms msgid method params z w =
     dispatch_new dispatch (new_request_impl (Some ms) msgid method params z) w"

definition server_on_notify ::
  "('x, 'ip, 'u, 'n, 'z) server_scheme dispatch \<Rightarrow> 'x object \<Rightarrow> 'x object \<Rightarrow>
   zone option \<Rightarrow> ('x, 'ip, 'u, 'n, 'z) server_scheme \<Rightarrow>
   exn option \<times> ('x, 'ip, 'u, 'n, 'z) server_scheme"
where
  "server_on_notify dispatch method params z w =
     dispatch_new dispatch (new_request_impl None 0 method params z) w"

definition get_connection_num :: "('x, 'ip, 'u, 'n, 'z) server_scheme \<Rightarrow> nat" where
  "get_connection_num w = (case v_stran w of Some t \<Rightarrow> length (ts_connections t) | None \<Rightarrow> 0)"

definition get_request_num :: "('x, 'ip, 'u, 'n, 'z) server_scheme \<Rightarrow> nat" where
  "get_request_num w = 0"

text \<open>Without a transport the address \<^verbatim>\<open>0.0.0.0:0\<close> is resolved.\<close>

definition get_local_endpoint ::
  "('ip \<Rightarrow> bool) \<Rightarrow> 'ip resolver \<Rightarrow> ('x, 'ip, 'u, 'n, 'z) server_scheme \<Rightarrow> exn + 'ip address" where
  "get_local_endpoint is_v4 resolver w =
     (case v_stran w of
        Some t \<Rightarrow> Inr (ts_local t)
      | None \<Rightarrow> address_host_port is_v4 resolver ''0.0.0.0'' 0)"

subsection \<open>server\_socket\<close>

definition put_sock ::
  "nat \<Rightarrow> 'u stream_handler \<Rightarrow> ('x, 'ip, 'u, 'n, 'z) server_scheme \<Rightarrow>
   ('x, 'ip, 'u, 'n, 'z) server_scheme"
where
  "put_sock k h w = w\<lparr>v_socks := (v_socks w)[k := h]\<rparr>"

definition sock_on_request ::
  "('x, 'ip, 'u, 'n, 'z) server_scheme dispatch \<Rightarrow> nat \<Rightarrow> msgid \<Rightarrow> 'x object \<Rightarrow> 'x object \<Rightarrow>
   zone option \<Rightarrow> ('x, 'ip, 'u, 'n, 'z) server_scheme \<Rightarrow>
   exn option \<times> ('x, 'ip, 'u, 'n, 'z) server_scheme"
where
  "sock_on_request dispatch k msgid method params z w =
     (if \<not> v_alive w then (Some closed_exception, w)
      else server_on_request dispatch k msgid method params z w)"

definition sock_on_response ::
  "msgid \<Rightarrow> 'x object \<Rightarrow> 'x object \<Rightarrow> zone option \<Rightarrow> 'w \<Rightarrow> exn option \<times> 'w" where
  "sock_on_response msgid result error z w = (Some type_error, w)"

definition sock_on_notify ::
  "('x, 'ip, 'u, 'n, 'z) server_scheme dispatch \<Rightarrow> 'x object \<Rightarrow> 'x object \<Rightarrow>
   zone option \<Rightarrow> ('x, 'ip, 'u, 'n, 'z) server_scheme \<Rightarrow>
   exn option \<times> ('x, 'ip, 'u, 'n, 'z) server_scheme"
where
  "sock_on_notify dispatch method params z w =
     (if \<not> v_alive w then (Some closed_exception, w)
      else server_on_notify dispatch method params z w)"

text \<open>
  \<open>server_transport::on_system_error\<close> of the transport that is alive: the connection leaves the set and is
  stopped. A socket calls it through the plain pointer \<open>m_tran\<close>; here it belongs to the transport of the
  server, and without one there is nothing to do. \<open>RPC_Lifetime\<close> models the pointer itself and the
  calls that reach a destroyed transport.
\<close>

definition tran_on_system_error ::
  "('ip, 'b, 'n) server_asio \<Rightarrow> nat \<Rightarrow> ('x, 'ip, 'u, 'n, 'z) server_scheme \<Rightarrow>
   ('x, 'ip, 'u, 'n, 'z) server_scheme"
where
  "tran_on_system_error a k w =
     (case v_stran w of
        None \<Rightarrow> w
      | Some t \<Rightarrow>
          put_sock k (stream_stop (remote_endpoint a k (v_net w) = None) (v_socks w ! k))
            (w\<lparr>v_stran := Some (t\<lparr>ts_connections := removeAll k (ts_connections t)\<rparr>)\<rparr>))"

definition server_vt ::
  "('ip, 'b, 'n) server_asio \<Rightarrow> ('x, 'ip, 'u, 'n, 'z) server_scheme dispatch \<Rightarrow> nat \<Rightarrow>
   ('x, 'u, ('x, 'ip, 'u, 'n, 'z) server_scheme) stream_vt"
where
  "server_vt a dispatch k =
     \<lparr>vt_get = (\<lambda>w. v_socks w ! k),
      vt_put = put_sock k,
      vt_on_request = sock_on_request dispatch k,
      vt_on_response = sock_on_response,
      vt_on_notify = sock_on_notify dispatch,
      vt_on_system_error = (\<lambda>err. tran_on_system_error a k)\<rparr>"

text \<open>
  The response sender of a socket: \<open>stream_handler::send_data\<close>, which throws nothing. It reads the
  socket and reports errors, but never dispatches, so the dispatcher of its virtual table is void.
\<close>

definition server_sock_write ::
  "('ip, 'b, 'n) server_asio \<Rightarrow> nat \<Rightarrow> 'b list \<Rightarrow> ('x, 'ip, 'u, 'n, 'z) server_scheme \<Rightarrow>
   errno option \<times> ('x, 'ip, 'u, 'n, 'z) server_scheme"
where
  "server_sock_write a k bs w = (let (e, n) = server_write a k bs (v_net w) in (e, w\<lparr>v_net := n\<rparr>))"

definition server_ms_send ::
  "('ip, 'b, 'n) server_asio \<Rightarrow> ('b, nat, ('x, 'ip, 'u, 'n, 'z) server_scheme) ms_send"
where
  "server_ms_send a k buf w =
     (None, stream_send_data (server_sock_write a k) (server_vt a (\<lambda>q w. (None, w)) k) buf w)"

subsection \<open>server\_transport\<close>

text \<open>
  \<open>start_accept\<close> creates a socket for the next connection; \<open>m_wsvr.lock()\<close> is dereferenced without
  a test.
\<close>

definition start_accept ::
  "('x, 'b, 'u) decoder \<Rightarrow> ('x, 'ip, 'u, 'n, 'z) server_scheme \<Rightarrow>
   exn option \<times> ('x, 'ip, 'u, 'n, 'z) server_scheme"
where
  "start_accept d w =
     (case v_stran w of
        None \<Rightarrow> (Some Null_dereference, w)
      | Some t \<Rightarrow>
          if \<not> v_alive w then (Some Null_dereference, w)
          else (None, w\<lparr>v_socks := v_socks w @ [new_stream_handler d],
                       v_stran := Some (t\<lparr>ts_conn := Some (length (v_socks w)), ts_accepting := True\<rparr>)\<rparr>))"

text \<open>The constructor: errors of opening, binding and listening are thrown.\<close>

definition tcp_listen ::
  "('ip, 'b, 'n) server_asio \<Rightarrow> ('x, 'b, 'u) decoder \<Rightarrow> 'ip address \<Rightarrow>
   ('x, 'ip, 'u, 'n, 'z) server_scheme \<Rightarrow> exn option \<times> ('x, 'ip, 'u, 'n, 'z) server_scheme"
where
  "tcp_listen a d addr w =
     (case sock_listen a addr (v_net w) of
        (Inl ec, n) \<Rightarrow> (Some (system_error ec), w\<lparr>v_net := n\<rparr>)
      | (Inr lep, n) \<Rightarrow>
          start_accept d
            (w\<lparr>v_net := n,
               v_stran := Some \<lparr>ts_acceptor = True, ts_accepting = False, ts_conn = None,
                                ts_local = lep, ts_connections = []\<rparr>\<rparr>))"

text \<open>
  \<open>on_accept\<close>: without an error the accepted socket (now open) enters the set and starts reading;
  a new accept follows in any case.
\<close>

definition on_accept ::
  "('ip, 'b, 'n) server_asio \<Rightarrow> ('x, 'b, 'u) decoder \<Rightarrow> errno \<Rightarrow>
   ('x, 'ip, 'u, 'n, 'z) server_scheme \<Rightarrow> exn option \<times> ('x, 'ip, 'u, 'n, 'z) server_scheme"
where
  "on_accept a d err w =
     (case v_stran w of
        None \<Rightarrow> (Some Null_dereference, w)
      | Some t0 \<Rightarrow>
          let t = t0\<lparr>ts_accepting := False\<rparr>; w0 = w\<lparr>v_stran := Some t\<rparr>
          in if err \<noteq> 0 then start_accept d w0
             else case ts_conn t of
                    None \<Rightarrow> (Some Null_dereference, w0)
                  | Some k \<Rightarrow>
                      let h = (v_socks w0 ! k)\<lparr>sh_open := True\<rparr>;
                          w1 = put_sock k h
                            (w0\<lparr>v_stran := Some (t\<lparr>ts_connections := List.insert k (ts_connections t)\<rparr>)\<rparr>)
                      in case remote_endpoint a k (v_net w1) of
                           Some ec \<Rightarrow> (Some (system_error ec), w1)
                         | None \<Rightarrow> start_accept d (put_sock k (stream_start d h) w1))"

text \<open>\<open>server_transport::close\<close>, then the destruction by \<^verbatim>\<open>m_stran.reset()\<close>.\<close>

definition stop_all ::
  "('ip, 'b, 'n) server_asio \<Rightarrow> 'n \<Rightarrow> nat list \<Rightarrow> 'u stream_handler list \<Rightarrow> 'u stream_handler list" where
  "stop_all a n ks socks =
     fold (\<lambda>k hs. hs[k := stream_stop (remote_endpoint a k n = None) (hs ! k)]) ks socks"

definition server_impl_close ::
  "('ip, 'b, 'n) server_asio \<Rightarrow> ('x, 'ip, 'u, 'n, 'z) server_scheme \<Rightarrow>
   ('x, 'ip, 'u, 'n, 'z) server_scheme"
where
  "server_impl_close a w =
     (case v_stran w of
        None \<Rightarrow> w
      | Some t \<Rightarrow> w\<lparr>v_socks := stop_all a (v_net w) (ts_connections t) (v_socks w), v_stran := None\<rparr>)"

text \<open>\<open>tcp_listener\<close> holds the address to listen on.\<close>

record 'ip tcp_listener =
  tl_addr :: "'ip address"

definition new_tcp_listener :: "'ip address \<Rightarrow> 'ip tcp_listener" where
  "new_tcp_listener addr = \<lparr>tl_addr = addr\<rparr>"

definition new_tcp_listener_host ::
  "('ip \<Rightarrow> bool) \<Rightarrow> 'ip resolver \<Rightarrow> string \<Rightarrow> 16 word \<Rightarrow> exn + 'ip tcp_listener" where
  "new_tcp_listener_host is_v4 resolver host port =
     (case address_host_port is_v4 resolver host port of Inl e \<Rightarrow> Inl e | Inr addr \<Rightarrow> Inr \<lparr>tl_addr = addr\<rparr>)"

definition tcp_listener_listen ::
  "('ip, 'b, 'n) server_asio \<Rightarrow> ('x, 'b, 'u) decoder \<Rightarrow> 'ip tcp_listener \<Rightarrow>
   ('x, 'ip, 'u, 'n, 'z) server_scheme \<Rightarrow> exn option \<times> ('x, 'ip, 'u, 'n, 'z) server_scheme"
where
  "tcp_listener_listen a d l w = tcp_listen a d (tl_addr l) w"

text \<open>\<open>server_impl::listen\<close>: the new transport is built before the old one is dropped.\<close>

definition server_impl_listen ::
  "('ip, 'b, 'n) server_asio \<Rightarrow> ('x, 'b, 'u) decoder \<Rightarrow> 'ip tcp_listener \<Rightarrow>
   ('x, 'ip, 'u, 'n, 'z) server_scheme \<Rightarrow> exn option \<times> ('x, 'ip, 'u, 'n, 'z) server_scheme"
where
  "server_impl_listen a d l w =
     (case tcp_listener_listen a d l w of
        (Some e, w1) \<Rightarrow> (Some e, w1\<lparr>v_stran := v_stran w\<rparr>)
      | (None, w1) \<Rightarrow>
          (None, case v_stran w of
                   None \<Rightarrow> w1
                 | Some old \<Rightarrow>
                     w1\<lparr>v_socks := stop_all a (v_net w1) (ts_connections old) (v_socks w1)\<rparr>))"

definition server_listen ::
  "('ip, 'b, 'n) server_asio \<Rightarrow> ('x, 'b, 'u) decoder \<Rightarrow> 'ip address \<Rightarrow>
   ('x, 'ip, 'u, 'n, 'z) server_scheme \<Rightarrow> exn option \<times> ('x, 'ip, 'u, 'n, 'z) server_scheme"
where
  "server_listen a d addr w = server_impl_listen a d (new_tcp_listener addr) w"

definition server_listen_host ::
  "('ip \<Rightarrow> bool) \<Rightarrow> 'ip resolver \<Rightarrow> ('ip, 'b, 'n) server_asio \<Rightarrow> ('x, 'b, 'u) decoder \<Rightarrow>
   string \<Rightarrow> 16 word \<Rightarrow> ('x, 'ip, 'u, 'n, 'z) server_scheme \<Rightarrow>
   exn option \<times> ('x, 'ip, 'u, 'n, 'z) server_scheme"
where
  "server_listen_host is_v4 resolver a d host port w =
     (case address_host_port is_v4 resolver host port of
        Inl e \<Rightarrow> (Some e, w)
      | Inr addr \<Rightarrow> server_listen a d addr w)"

text \<open>
  \<open>server::close\<close>: the loop is stopped first, but not joined; for handlers that are still running then see
  \<open>RPC_Lifetime\<close>.
\<close>

definition server_close ::
  "('ip, 'b, 'n) server_asio \<Rightarrow> ('x, 'ip, 'u, 'n, 'z) server_scheme \<Rightarrow>
   ('x, 'ip, 'u, 'n, 'z) server_scheme"
where
  "server_close a w = server_impl_close a (w\<lparr>v_loop := loop_end (v_loop w)\<rparr>)"

text \<open>\<open>server::base::listen\<close>: the object registers itself as the dispatcher, then listens.\<close>

definition base_listen ::
  "('ip, 'b, 'n) server_asio \<Rightarrow> ('x, 'b, 'u) decoder \<Rightarrow> 'ip address \<Rightarrow>
   ('x, 'ip, 'u, 'n, 'z) server_scheme \<Rightarrow> exn option \<times> ('x, 'ip, 'u, 'n, 'z) server_scheme"
where
  "base_listen a d addr w = server_listen a d addr (serve w)"

definition base_listen_listener ::
  "('ip, 'b, 'n) server_asio \<Rightarrow> ('x, 'b, 'u) decoder \<Rightarrow> 'ip tcp_listener \<Rightarrow>
   ('x, 'ip, 'u, 'n, 'z) server_scheme \<Rightarrow> exn option \<times> ('x, 'ip, 'u, 'n, 'z) server_scheme"
where
  "base_listen_listener a d l w = server_impl_listen a d l (serve w)"

definition base_listen_host ::
  "('ip \<Rightarrow> bool) \<Rightarrow> 'ip resolver \<Rightarrow> ('ip, 'b, 'n) server_asio \<Rightarrow> ('x, 'b, 'u) decoder \<Rightarrow>
   string \<Rightarrow> 16 word \<Rightarrow> ('x, 'ip, 'u, 'n, 'z) server_scheme \<Rightarrow>
   exn option \<times> ('x, 'ip, 'u, 'n, 'z) server_scheme"
where
  "base_listen_host is_v4 resolver a d host port w = server_listen_host is_v4 resolver a d host port (serve w)"

text \<open>
  \<open>~server\<close>: \<open>close\<close>, then \<open>~session_pool\<close> flushes, ends and joins the loop and drops the last
  reference to the \<open>server_impl\<close>, whose destructor closes again.
\<close>

definition server_destroy ::
  "(nat \<Rightarrow> bool) \<Rightarrow> ('ip, 'b, 'n) server_asio \<Rightarrow> ('x, 'ip, 'u, 'n, 'z) server_scheme \<Rightarrow>
   ('x, 'ip, 'u, 'n, 'z) server_scheme"
where
  "server_destroy fails a w =
     (let w1 = server_close a w;
          w2 = w1\<lparr>v_loop := loop_join fails (loop_end (loop_flush (v_loop w1)))\<rparr>
      in (server_impl_close a w2)\<lparr>v_alive := False\<rparr>)"

lemmas server_listen_defs =
  server_listen_def server_impl_listen_def new_tcp_listener_def tcp_listener_listen_def tcp_listen_def

section \<open>Progress of a server\<close>

text \<open>
  What happens to the requests and connections of a server while it reads and answers: requests are
  never forgotten, a request that has been answered stays answered, and connections only leave the
  set (they enter it by \<open>on_accept\<close>).
\<close>

definition server_ok :: "('x, 'ip, 'u, 'n, 'z) server_scheme \<Rightarrow> bool" where
  "server_ok w \<longleftrightarrow> (\<forall>t. v_stran w = Some t \<longrightarrow>
     distinct (ts_connections t) \<and> (\<forall>k \<in> set (ts_connections t). k < length (v_socks w)))"

definition progress ::
  "('x, 'ip, 'u, 'n, 'z) server_scheme \<Rightarrow> ('x, 'ip, 'u, 'n, 'z) server_scheme \<Rightarrow> bool" where
  "progress w w' \<longleftrightarrow>
     length (q_requests w) \<le> length (q_requests w') \<and>
     (\<forall>q < length (q_requests w). r_msgid (rq w' q) = r_msgid (rq w q) \<and>
        (r_ms (rq w' q) = r_ms (rq w q) \<or> r_ms (rq w' q) = None)) \<and>
     length (v_socks w') = length (v_socks w) \<and>
     (\<forall>t'. v_stran w' = Some t' \<longrightarrow> (\<exists>t. v_stran w = Some t \<and>
        set (ts_connections t') \<subseteq> set (ts_connections t) \<and>
        (distinct (ts_connections t) \<longrightarrow> distinct (ts_connections t'))))"

lemma progress_refl: "progress w w"
  by (simp add: progress_def)

lemma progress_trans:
  assumes "progress w w'" "progress w' w''"
  shows "progress w w''"
  unfolding progress_def
proof (intro conjI allI impI)
  show "length (q_requests w) \<le> length (q_requests w'')" "length (v_socks w'') = length (v_socks w)"
    using assms by (simp_all add: progress_def)
  fix q assume q: "q < length (q_requests w)"
  then have q': "q < length (q_requests w')" using assms(1) by (simp add: progress_def)
  show "r_msgid (rq w'' q) = r_msgid (rq w q)" "r_ms (rq w'' q) = r_ms (rq w q) \<or> r_ms (rq w'' q) = None"
    using q q' assms unfolding progress_def by (metis, metis)
next
  fix t'' assume "v_stran w'' = Some t''"
  with assms(2) obtain t' where t': "v_stran w' = Some t'" "set (ts_connections t'') \<subseteq> set (ts_connections t')"
    "distinct (ts_connections t') \<longrightarrow> distinct (ts_connections t'')" by (auto simp: progress_def)
  from assms(1) t'(1) obtain t where t: "v_stran w = Some t" "set (ts_connections t') \<subseteq> set (ts_connections t)"
    "distinct (ts_connections t) \<longrightarrow> distinct (ts_connections t')" by (auto simp: progress_def)
  show "\<exists>t. v_stran w = Some t \<and> set (ts_connections t'') \<subseteq> set (ts_connections t) \<and>
      (distinct (ts_connections t) \<longrightarrow> distinct (ts_connections t''))"
    using t t' by (intro exI[of _ t]) auto
qed

lemma progress_ok: "server_ok w \<Longrightarrow> progress w w' \<Longrightarrow> server_ok w'"
  unfolding server_ok_def progress_def by (metis subsetD)

lemma progress_put_sock: "progress w (put_sock k h w)"
  by (simp add: progress_def put_sock_def)

lemma progress_net: "progress w (w\<lparr>v_net := n\<rparr>)"
  by (simp add: progress_def)

lemma progress_system_error: "progress w (tran_on_system_error a k w)"
  by (auto simp: progress_def tran_on_system_error_def put_sock_def distinct_removeAll split: option.split)

lemma progress_new_request:
  "progress w (w\<lparr>q_requests := q_requests w @ [r]\<rparr>)"
  by (simp add: progress_def nth_append)

text \<open>A program on top of the library: its dispatcher makes progress only.\<close>

locale server_program =
  fixes dispatch :: "('x, 'ip, 'u, 'n, 'z) server_scheme dispatch"
  assumes dispatch_progress: "server_ok w \<Longrightarrow> q < length (q_requests w) \<Longrightarrow> progress w (snd (dispatch q w))"
begin

lemma dispatch_new_progress:
  assumes "server_ok w"
  shows "progress w (snd (dispatch_new dispatch r w))"
proof -
  let ?w1 = "w\<lparr>q_requests := q_requests w @ [r]\<rparr>"
  have 1: "progress w ?w1" by (rule progress_new_request)
  have "progress w (snd (dispatch (length (q_requests w)) ?w1))"
    by (rule progress_trans[OF 1 dispatch_progress[OF progress_ok[OF assms 1]]]) simp
  with 1 show ?thesis by (simp add: dispatch_new_def Let_def)
qed

end

sublocale server_program < sock: message_handler "server_vt a dispatch k" server_ok progress for a k
proof (unfold_locales, goal_cases)
  case (1 w)
  show ?case by (rule progress_refl)
next
  case (2 w w' w'')
  then show ?case by (rule progress_trans)
next
  case (3 w w')
  then show ?case by (rule progress_ok)
next
  case (4 w h)
  then show ?case by (simp add: server_vt_def progress_put_sock)
next
  case (5 w i m p z)
  then show ?case
    by (simp add: server_vt_def sock_on_request_def server_on_request_def dispatch_new_progress progress_refl)
next
  case (6 w i m p z)
  then show ?case by (simp add: server_vt_def sock_on_response_def progress_refl)
next
  case (7 w m p z)
  then show ?case
    by (simp add: server_vt_def sock_on_notify_def server_on_notify_def dispatch_new_progress progress_refl)
next
  case (8 w err)
  then show ?case by (simp add: server_vt_def progress_system_error)
qed

section \<open>Programs that answer at once\<close>

text \<open>
  The response sender of a connection, and the programs whose dispatcher computes a list of
  replies from the method and the parameters and makes them before it returns (as the sample
  servers of the repository do).
\<close>

lemma server_ms_send_requests [simp]: "q_requests (snd (server_ms_send a k buf w)) = q_requests w"
  by (auto simp: server_ms_send_def stream_send_data_def server_vt_def server_sock_write_def
      tran_on_system_error_def put_sock_def split: prod.split option.split)

lemma server_ms_send_no_exn [simp]: "fst (server_ms_send a k buf w) = None"
  by (simp add: server_ms_send_def)

lemma progress_sock_write: "progress w (snd (server_sock_write a k bs w))"
  by (simp add: server_sock_write_def progress_net split: prod.split)

lemma server_ms_send_progress: "progress w (snd (server_ms_send a k buf w))"
proof -
  obtain e w1 where wr: "server_sock_write a k (outbuf_bytes buf) w = (e, w1)"
    by (cases "server_sock_write a k (outbuf_bytes buf) w")
  have "progress w w1" using progress_sock_write[of w a k "outbuf_bytes buf"] wr by simp
  with progress_trans[OF this progress_system_error[of w1 a k]] wr show ?thesis
    by (cases e) (simp_all add: server_ms_send_def stream_send_data_def server_vt_def progress_refl)
qed

text \<open>What \<open>request_impl::send_data\<close> does over a connection.\<close>

lemma request_send_data_tcp:
  assumes "r_ms (rq w q) = Some k"
  shows "request_send_data (server_ms_send a) q buf w =
    (None, (snd (server_ms_send a k buf w))\<lparr>q_requests := (q_requests w)[q := (rq w q)\<lparr>r_ms := None\<rparr>]\<rparr>)"
proof -
  obtain w1 where sd: "server_ms_send a k buf w = (None, w1)"
    by (cases "server_ms_send a k buf w") (use server_ms_send_no_exn[of a k buf w] in simp)
  with server_ms_send_requests[of a k buf w] assms show ?thesis by (simp add: request_send_data_def)
qed

definition reply_dispatch ::
  "('x, 'b) packer \<Rightarrow> ('ip, 'b, 'n) server_asio \<Rightarrow> ('x object \<Rightarrow> 'x object \<Rightarrow> 'x reply list) \<Rightarrow>
   ('x, 'ip, 'u, 'n, 'z) server_scheme dispatch"
where
  "reply_dispatch pk a compute q w =
     request_replies pk (server_ms_send a) q (compute (r_method (rq w q)) (r_params (rq w q))) w"

lemma request_send_data_progress:
  assumes "q < length (q_requests w)"
  shows "progress w (snd (request_send_data (server_ms_send a) q buf w))"
proof (cases "r_ms (rq w q)")
  case None
  then show ?thesis by (simp add: request_send_data_def progress_refl)
next
  case (Some k)
  with server_ms_send_progress[of w a k buf] show ?thesis
    by (auto simp: request_send_data_tcp progress_def nth_list_update_if)
qed

lemma request_reply_progress:
  assumes "q < length (q_requests w)"
  shows "progress w (snd (request_reply pk (server_ms_send a) q r w))"
  using request_reply_sent[of q w pk "server_ms_send a" r]
    request_reply_pending[of w q _ pk "server_ms_send a" r]
    request_send_data_progress[OF assms, of a] progress_refl[of w]
  by (cases "r_ms (rq w q)") (auto simp: is_sent_def)

lemma request_replies_progress:
  "q < length (q_requests w) \<Longrightarrow> progress w (snd (request_replies pk (server_ms_send a) q rs w))"
proof (induction rs arbitrary: w)
  case Nil
  then show ?case by (simp add: progress_refl)
next
  case (Cons r rs)
  obtain e w1 where r: "request_reply pk (server_ms_send a) q r w = (e, w1)"
    by (cases "request_reply pk (server_ms_send a) q r w")
  have 1: "progress w w1" using request_reply_progress[OF Cons.prems, of pk a r] r by simp
  then have "q < length (q_requests w1)" using Cons.prems by (simp add: progress_def)
  from progress_trans[OF 1 Cons.IH[OF this]] 1 r show ?case by (cases e) simp_all
qed

interpretation replying: server_program "reply_dispatch pk a compute" for pk a compute
  by unfold_locales (simp add: reply_dispatch_def request_replies_progress)

section \<open>Answers over a connection\<close>

lemma request_replies_tcp:
  assumes "r_ms (rq w q) = Some k" "q < length (q_requests w)"
  shows "request_replies pk (server_ms_send a) q (r # rs) w =
    (None, (snd (server_ms_send a k (reply_buf pk (r_msgid (rq w q)) r) w))
       \<lparr>q_requests := (q_requests w)[q := (rq w q)\<lparr>r_ms := None\<rparr>]\<rparr>)"
    (is "_ = (None, ?w')")
proof -
  have 1: "request_reply pk (server_ms_send a) q r w = (None, ?w')"
    unfolding request_reply_pending[OF assms(1)] by (rule request_send_data_tcp[OF assms(1)])
  have "is_sent q ?w'" using assms(2) by (simp add: is_sent_def)
  with 1 show ?thesis by (simp add: request_replies_sent)
qed

lemma server_ms_send_open:
  assumes "sh_open (v_socks w ! k)" "server_write a k (outbuf_bytes buf) (v_net w) = (None, n)"
  shows "server_ms_send a k buf w = (None, w\<lparr>v_net := n\<rparr>)"
  using assms by (simp add: server_ms_send_def stream_send_data_def server_vt_def server_sock_write_def)

lemma put_sock_simps [simp]:
  "q_requests (put_sock k h w) = q_requests w" "v_net (put_sock k h w) = v_net w"
  "v_dp (put_sock k h w) = v_dp w" "v_alive (put_sock k h w) = v_alive w"
  "v_stran (put_sock k h w) = v_stran w" "length (v_socks (put_sock k h w)) = length (v_socks w)"
  by (simp_all add: put_sock_def)

lemma sock_put_sock: "k < length (v_socks w) \<Longrightarrow> v_socks (put_sock k h w) ! k = h"
  by (simp add: put_sock_def)

text \<open>The dispatcher's turn on one request.\<close>

lemma sock_on_request_replies:
  assumes "v_alive w" "v_dp w" "compute m p = r # rs" "sh_open (v_socks w ! k)"
    and "server_write a k (outbuf_bytes (reply_buf pk i r)) (v_net w) = (None, n)"
  shows "sock_on_request (reply_dispatch pk a compute) k i m p z w =
    (None, w\<lparr>q_requests := q_requests w @ [new_request_impl None i m p z], v_net := n\<rparr>)"
proof -
  let ?w = "w\<lparr>q_requests := q_requests w @ [new_request_impl (Some k) i m p z]\<rparr>"
  let ?q = "length (q_requests w)"
  have rq: "r_ms (rq ?w ?q) = Some k" "?q < length (q_requests ?w)" "r_msgid (rq ?w ?q) = i"
    "r_method (rq ?w ?q) = m" "r_params (rq ?w ?q) = p"
    by (simp_all add: new_request_impl_def)
  have "server_ms_send a k (reply_buf pk i r) ?w = (None, ?w\<lparr>v_net := n\<rparr>)"
    using assms(4,5) by (intro server_ms_send_open) simp_all
  with request_replies_tcp[OF rq(1,2), of pk a r rs] rq assms(1-3) show ?thesis
    by (simp add: sock_on_request_def server_on_request_def dispatch_new_def reply_dispatch_def
        new_request_impl_def Let_def)
qed

text \<open>A single request on a connection.\<close>

lemma server_reads_request:
  assumes "v_alive w" "v_dp w" "k < length (v_socks w)" "sh_open (v_socks w ! k)"
    and "pac_next_all d (pac_consumed d bytes (sh_pac (v_socks w ! k))) = ([(msg, zn, u)], None, u')"
    and "pac_message_size d u' \<le> max_message_size"
    and "conv_rpc d msg = Some rpc" "is_request rpc" "conv_request d msg = Some req"
    and "compute (req_method req) (req_param req) = r # rs"
    and "server_write a k (outbuf_bytes (reply_buf pk (req_msgid req) r)) (v_net w) = (None, n)"
  shows "\<exists>w'. stream_on_read d (server_vt a (reply_dispatch pk a compute) k) 0 bytes w = (None, w') \<and>
    v_net w' = n \<and> sh_open (v_socks w' ! k) \<and> sh_reading (v_socks w' ! k) \<and>
    q_requests w' = q_requests w @ [new_request_impl None (req_msgid req) (req_method req) (req_param req) (Some zn)] \<and>
    v_stran w' = v_stran w"
proof -
  let ?vt = "server_vt a (reply_dispatch pk a compute) k"
  define w1 where "w1 = vt_put ?vt ((vt_get ?vt w)\<lparr>sh_reading := False\<rparr>) w"
  define u0 where "u0 = pac_consumed d bytes (sh_pac (v_socks w ! k))"
  define w2 where "w2 = set_pac ?vt u (set_pac ?vt u0 w1)"
  define w3 where "w3 = w2\<lparr>q_requests := q_requests w2 @
      [new_request_impl None (req_msgid req) (req_method req) (req_param req) (Some zn)], v_net := n\<rparr>"
  have pac: "sh_pac (vt_get ?vt w1) = sh_pac (v_socks w ! k)"
    using assms(3) by (simp add: w1_def server_vt_def sock_put_sock)
  have w2: "v_alive w2" "v_dp w2" "sh_open (v_socks w2 ! k)" "v_net w2 = v_net w" "k < length (v_socks w2)"
    "q_requests w2 = q_requests w" "v_stran w2 = v_stran w"
    using assms(1-4) by (simp_all add: w2_def w1_def set_pac_def server_vt_def sock_put_sock)
  have "sock_on_request (reply_dispatch pk a compute) k (req_msgid req) (req_method req) (req_param req) (Some zn) w2 = (None, w3)"
    unfolding w3_def by (rule sock_on_request_replies) (use w2 assms(10,11) in simp_all)
  then have "stream_on_message d ?vt msg (Some zn) w2 = (None, w3)"
    using assms(7-9) by (simp add: stream_on_message_def is_request_def server_vt_def)
  then have "read_loop d ?vt [(msg, zn, u)] (None, u') (set_pac ?vt u0 w1) = (None, set_pac ?vt u' w3)"
    by (simp flip: w2_def)
  moreover have w3: "k < length (v_socks w3)" using w2(5) by (simp add: w3_def)
  ultimately have "stream_on_read d ?vt 0 bytes w =
      (None, vt_put ?vt (stream_start d (vt_get ?vt (set_pac ?vt u' w3))) (set_pac ?vt u' w3))"
    using assms(5,6) pac
    by (simp add: stream_on_read_def Let_def set_pac_def[of ?vt u'] flip: w1_def u0_def)
       (simp add: server_vt_def sock_put_sock)
  moreover have "sh_open (v_socks w3 ! k)" using w2(3) by (simp add: w3_def)
  ultimately show ?thesis
    using w2 w3 by (simp add: set_pac_def server_vt_def sock_put_sock stream_start_def) (simp add: w3_def)
qed

section \<open>Streams of requests\<close>

text \<open>
  Messages as a server receives them. In whatever pieces they arrive on a connection, a program that
  answers at once takes them one after the other (\<open>server_frames\<close>).
\<close>

datatype 'x incoming = In_request msgid "'x object" "'x object" | In_notify "'x object" "'x object"

fun incoming_dec :: "('x, 'b, 'u) decoder \<Rightarrow> 'x incoming \<Rightarrow> 'x object \<Rightarrow> bool" where
  "incoming_dec d (In_request i m p) ob \<longleftrightarrow>
     conv_rpc d ob = Some \<lparr>rpc_type = REQUEST\<rparr> \<and> conv_request d ob = Some (new_msg_request m p i)"
| "incoming_dec d (In_notify m p) ob \<longleftrightarrow>
     conv_rpc d ob = Some \<lparr>rpc_type = NOTIFY\<rparr> \<and> conv_notify d ob = Some (new_msg_notify m p)"

text \<open>What a program that answers at once does with a message: the request, and what it writes.\<close>

fun taken_request :: "('x object \<Rightarrow> 'x object \<Rightarrow> 'x reply list) \<Rightarrow> nat \<Rightarrow> 'x incoming \<Rightarrow> zone \<Rightarrow> ('x, nat) request_impl" where
  "taken_request compute k (In_request i m p) z =
     new_request_impl (if compute m p = [] then Some k else None) i m p (Some z)"
| "taken_request compute k (In_notify m p) z = new_request_impl None 0 m p (Some z)"

fun first_reply :: "('x object \<Rightarrow> 'x object \<Rightarrow> 'x reply list) \<Rightarrow> 'x incoming \<Rightarrow> (msgid \<times> 'x reply) list" where
  "first_reply compute (In_request i m p) = map (Pair i) (take 1 (compute m p))"
| "first_reply compute (In_notify m p) = []"

definition write_replies ::
  "('ip, 'b, 'n) server_asio \<Rightarrow> ('x, 'b) packer \<Rightarrow> nat \<Rightarrow> (msgid \<times> 'x reply) list \<Rightarrow> 'n \<Rightarrow> 'n" where
  "write_replies a pk k rs n = fold (\<lambda>(i, r) n. snd (server_write a k (outbuf_bytes (reply_buf pk i r)) n)) rs n"

definition server_take ::
  "('x, 'b) packer \<Rightarrow> ('ip, 'b, 'n) server_asio \<Rightarrow> ('x object \<Rightarrow> 'x object \<Rightarrow> 'x reply list) \<Rightarrow> nat \<Rightarrow>
   'x incoming \<Rightarrow> zone \<Rightarrow> ('x, 'ip, 'u, 'n, 'z) server_scheme \<Rightarrow> ('x, 'ip, 'u, 'n, 'z) server_scheme"
where
  "server_take pk a compute k m z w =
     w\<lparr>q_requests := q_requests w @ [taken_request compute k m z],
       v_net := write_replies a pk k (first_reply compute m) (v_net w)\<rparr>"

definition connection_ready :: "('ip, 'b, 'n) server_asio \<Rightarrow> nat \<Rightarrow> ('x, 'ip, 'u, 'n, 'z) server_scheme \<Rightarrow> bool" where
  "connection_ready a k w \<longleftrightarrow> v_alive w \<and> v_dp w \<and> k < length (v_socks w) \<and> sh_open (v_socks w ! k) \<and>
     (\<forall>bs n. fst (server_write a k bs n) = None)"

lemma dispatch_take:
  assumes "connection_ready a k w"
  shows "sock_on_request (reply_dispatch pk a compute) k i m p (Some z) w =
    (None, server_take pk a compute k (In_request i m p) z w)"
proof (cases "compute m p")
  case Nil
  with assms show ?thesis
    by (simp add: connection_ready_def sock_on_request_def server_on_request_def dispatch_new_def Let_def
        reply_dispatch_def server_take_def write_replies_def new_request_impl_def)
next
  case (Cons r rs)
  obtain n where n: "server_write a k (outbuf_bytes (reply_buf pk i r)) (v_net w) = (None, n)"
    using assms unfolding connection_ready_def by (metis prod.collapse)
  have "sock_on_request (reply_dispatch pk a compute) k i m p (Some z) w =
      (None, w\<lparr>q_requests := q_requests w @ [new_request_impl None i m p (Some z)], v_net := n\<rparr>)"
    by (rule sock_on_request_replies) (use assms Cons n in \<open>simp_all add: connection_ready_def\<close>)
  with Cons n show ?thesis by (simp add: server_take_def write_replies_def)
qed

lemma notify_take:
  assumes "connection_ready a k w"
  shows "sock_on_notify (reply_dispatch pk a compute) m p (Some z) w =
    (None, server_take pk a compute k (In_notify m p) z w)"
proof -
  let ?w = "w\<lparr>q_requests := q_requests w @ [new_request_impl None 0 m p (Some z)]\<rparr>"
  have "is_sent (length (q_requests w)) ?w" by (simp add: is_sent_def new_request_impl_def)
  from request_replies_sent[OF this] assms show ?thesis
    by (simp add: connection_ready_def sock_on_notify_def server_on_notify_def dispatch_new_def Let_def
        reply_dispatch_def server_take_def write_replies_def)
qed

interpretation server_frames: framed_reader d "server_vt a (reply_dispatch pk a compute) k" "incoming_dec d"
  "server_take pk a compute k" "connection_ready a k" for d a pk compute k
proof (unfold_locales, goal_cases)
  case (1 w h)
  then show ?case by (simp add: server_vt_def sock_put_sock connection_ready_def)
next
  case (2 w h h')
  then show ?case by (simp add: server_vt_def put_sock_def)
next
  case (3 w h)
  then show ?case by (simp add: server_vt_def connection_ready_def sock_put_sock)
next
  case (4 w m z)
  then show ?case by (simp add: server_take_def connection_ready_def)
next
  case (5 w m z)
  then show ?case by (simp add: server_take_def server_vt_def)
next
  case (6 w h m z)
  then show ?case by (simp add: server_take_def server_vt_def put_sock_def)
next
  case (7 w m ob z)
  then show ?case
    by (cases m) (simp_all add: stream_on_message_def protocol_consts server_vt_def dispatch_take notify_take
        new_msg_request_def new_msg_notify_def)
qed

lemma server_take_all:
  "length zs = length ms \<Longrightarrow>
    handle_all (server_take pk a compute k) ms zs v =
      v\<lparr>q_requests := q_requests v @ map2 (taken_request compute k) ms zs,
        v_net := write_replies a pk k (concat (map (first_reply compute) ms)) (v_net v)\<rparr>"
proof (induction ms arbitrary: zs v)
  case Nil
  then show ?case by (simp add: write_replies_def)
next
  case (Cons m ms)
  then show ?case by (cases zs) (simp_all add: server_take_def write_replies_def)
qed

section \<open>Accepting\<close>

text \<open>
  While a server listens: an accept into a fresh socket is pending, and the set of connections is
  consistent.
\<close>

definition server_listening :: "('x, 'ip, 'u, 'n, 'z) server_scheme \<Rightarrow> bool" where
  "server_listening w \<longleftrightarrow> server_ok w \<and> v_alive w \<and> (\<exists>t k. v_stran w = Some t \<and> ts_accepting t \<and> ts_acceptor t \<and>
     ts_conn t = Some k \<and> k < length (v_socks w) \<and> k \<notin> set (ts_connections t))"

lemma server_listeningE:
  assumes "server_listening w"
  obtains t k where "server_ok w" "v_alive w" "v_stran w = Some t" "ts_accepting t" "ts_acceptor t"
    "ts_conn t = Some k" "k < length (v_socks w)" "k \<notin> set (ts_connections t)"
  using assms by (auto simp: server_listening_def)

lemma start_accept_listening:
  assumes "v_alive w" "v_stran w = Some t" "ts_acceptor t" "distinct (ts_connections t)"
    and "\<forall>k \<in> set (ts_connections t). k < length (v_socks w)"
  shows "\<exists>w'. start_accept d w = (None, w') \<and> server_listening w' \<and>
    get_connection_num w' = length (ts_connections t) \<and> q_requests w' = q_requests w"
  using assms
  by (fastforce simp: start_accept_def server_listening_def server_ok_def get_connection_num_def less_Suc_eq)

section \<open>Closing\<close>

lemma stream_stop_twice: "stream_stop b (stream_stop b h) = stream_stop b h"
  by (simp add: stream_stop_def)

lemma stop_all_nth:
  "k < length socks \<Longrightarrow> stop_all a n ks socks ! k =
     (if k \<in> set ks then stream_stop (remote_endpoint a k n = None) (socks ! k) else socks ! k)"
proof (induction ks arbitrary: socks)
  case (Cons j ks)
  then show ?case by (cases "j = k") (simp_all add: stop_all_def stream_stop_twice)
qed (simp add: stop_all_def)

lemma stop_all_length [simp]: "length (stop_all a n ks socks) = length socks"
  by (induction ks arbitrary: socks) (simp_all add: stop_all_def)

lemma server_destroy_eq:
  "server_destroy fails a w = (server_impl_close a w)
     \<lparr>v_loop := loop_join fails (loop_end (loop_flush (loop_end (v_loop w)))), v_alive := False\<rparr>"
  by (simp add: server_destroy_def server_close_def server_impl_close_def Let_def split: option.split)

section \<open>Properties\<close>

definition sample_server_asio :: "bool \<Rightarrow> (nat, nat, nat) server_asio" where
  "sample_server_asio conn =
     \<lparr>sock_listen = (\<lambda>ad n. (Inr ad, n)), server_write = (\<lambda>k bs n. (None, n + length bs)),
      remote_endpoint = (\<lambda>k n. if conn then None else Some 107)\<rparr>"

definition sample_server_decoder :: "(nat, nat, unit) decoder" where
  "sample_server_decoder =
     \<lparr>pac_new = (), pac_reserve = id, pac_consumed = (\<lambda>bs u. u),
      pac_next_all = (\<lambda>u. ([(Opaque 1, 0, ())], None, ())),
      pac_message_size = (\<lambda>u. 0), pac_remove_nonparsed = id, conv_rpc = (\<lambda>ob. Some \<lparr>rpc_type = REQUEST\<rparr>),
      conv_request = (\<lambda>ob. Some \<lparr>req_type = REQUEST, req_msgid = 5, req_method = Opaque 2, req_param = Opaque 3\<rparr>),
      conv_response = (\<lambda>ob. None), conv_notify = (\<lambda>ob. None)\<rparr>"

definition sample_server_packer :: "(nat, nat) packer" where
  "sample_server_packer =
     \<lparr>pack_request = (\<lambda>m. []), vpack_request = (\<lambda>m. []), pack_notify = (\<lambda>m. []),
      vpack_notify = (\<lambda>m. []), pack_response = (\<lambda>m. [1, 2, 3]), vpack_response = (\<lambda>m. [[1, 2], [3]])\<rparr>"

definition sample_server :: "(nat, nat, unit, nat) server" where
  "sample_server = snd (on_accept (sample_server_asio True) sample_server_decoder 0
     (snd (base_listen (sample_server_asio True) sample_server_decoder (Address 1 80) (new_server new_loop 0))))"

lemma sample_server_eq:
  "sample_server =
     \<lparr>q_requests = [], v_dp = True, v_alive = True,
      v_stran = Some \<lparr>ts_acceptor = True, ts_accepting = True, ts_conn = Some 1, ts_local = Address 1 80,
                      ts_connections = [0]\<rparr>,
      v_socks = [\<lparr>sh_pac = (), sh_open = True, sh_reading = True\<rparr>, \<lparr>sh_pac = (), sh_open = False, sh_reading = False\<rparr>],
      v_loop = new_loop, v_net = 0\<rparr>"
  by (simp add: sample_server_def on_accept_def base_listen_def serve_def server_listen_defs
      start_accept_def sample_server_asio_def sample_server_decoder_def new_server_def put_sock_def
      stream_start_def new_stream_handler_def Let_def)

text \<open>
  A server answers a request at most once: over a TCP connection the first of any sequence of
  replies (results, errors, with or without zone) is sent, in one write, and drops the sender; all
  further replies to that request do nothing.
\<close>

lemma tcp_reply_once:
  assumes "r_ms (rq w q) = Some k" "q < length (q_requests w)"
  shows "\<exists>w'. request_replies pk (server_ms_send a) q (r # rs) w = (None, w') \<and>
    request_replies pk (server_ms_send a) q [r] w = (None, w') \<and> is_sent q w' \<and>
    v_net w' = v_net (snd (server_ms_send a k (reply_buf pk (r_msgid (rq w q)) r) w)) \<and>
    (\<forall>rs'. request_replies pk (server_ms_send a) q rs' w' = (None, w'))"
proof -
  let ?w' = "(snd (server_ms_send a k (reply_buf pk (r_msgid (rq w q)) r) w))
       \<lparr>q_requests := (q_requests w)[q := (rq w q)\<lparr>r_ms := None\<rparr>]\<rparr>"
  have "is_sent q ?w'" using assms(2) by (simp add: is_sent_def)
  with request_replies_tcp[OF assms, of pk a r] show ?thesis
    by (intro exI[of _ ?w']) (simp add: request_replies_sent del: request_replies.simps(2))
qed

text \<open>
  C20: The answers of a server do not depend on how TCP cuts the stream: whatever the pieces in which the
  packed requests and notifications \<open>ms\<close> arrive on a connection, once all their bytes have been
  read the program has been given exactly these messages, in order and each once, and what has been
  written is its first reply to each request, in order; the decoder holds nothing and the connection
  is open and reading.
\<close>

theorem server_stream_fragmentation:
  assumes "frames d pend enc (incoming_dec d) ok" "connection_ready a k v" "pend (sh_pac (v_socks v ! k)) []"
    and "list_all ok ms" "concat chunks = concat (map enc ms)" "chunks \<noteq> []"
  shows "\<exists>v' zs. read_chunks d (server_vt a (reply_dispatch pk a compute) k) chunks v = (None, v') \<and>
    length zs = length ms \<and> q_requests v' = q_requests v @ map2 (taken_request compute k) ms zs \<and>
    v_net v' = write_replies a pk k (concat (map (first_reply compute) ms)) (v_net v) \<and>
    pend (sh_pac (v_socks v' ! k)) [] \<and> sh_open (v_socks v' ! k) \<and> sh_reading (v_socks v' ! k)"
proof -
  let ?vt = "server_vt a (reply_dispatch pk a compute) k"
  have k: "k < length (v_socks v)" "sh_open (v_socks v ! k)" using assms(2) by (simp_all add: connection_ready_def)
  have "\<exists>ms1 ms2 q u zs. ms = ms1 @ ms2 \<and> partial_frame enc q ms2 \<and> q @ [] = concat (map enc ms2) \<and>
      length zs = length ms1 \<and> pend u q \<and> read_chunks d ?vt chunks v =
      (None, vt_put ?vt \<lparr>sh_pac = u, sh_open = sh_open (vt_get ?vt v), sh_reading = True\<rparr>
         (handle_all (server_take pk a compute k) ms1 zs v))"
    by (rule server_frames.read_chunks_frames[OF assms(1,2) _ assms(4) _ assms(6)])
       (use assms(3,5) in \<open>simp_all add: server_vt_def\<close>)
  then obtain ms1 ms2 q u zs where r: "ms = ms1 @ ms2" "partial_frame enc q ms2" "q = concat (map enc ms2)"
    "length zs = length ms1" "pend u q" "read_chunks d ?vt chunks v =
      (None, vt_put ?vt \<lparr>sh_pac = u, sh_open = sh_open (vt_get ?vt v), sh_reading = True\<rparr>
         (handle_all (server_take pk a compute k) ms1 zs v))" by auto
  from partial_frame_whole[OF r(2,3)] r(1,3) have "ms1 = ms" "q = []" by simp_all
  with r(4-6) k show ?thesis
    by (intro exI[of _ "vt_put ?vt \<lparr>sh_pac = u, sh_open = sh_open (vt_get ?vt v), sh_reading = True\<rparr>
           (handle_all (server_take pk a compute k) ms zs v)"] exI[of _ zs])
       (simp add: server_take_all server_vt_def sock_put_sock)
qed

text \<open>Two requests and a notification, cut inside each of them.\<close>

definition stream_asio :: "(nat, wire, wire list) server_asio" where
  "stream_asio = \<lparr>sock_listen = (\<lambda>ad n. (Inr ad, n)), server_write = (\<lambda>k bs n. (None, n @ bs)), remote_endpoint = (\<lambda>k n. None)\<rparr>"

definition stream_server :: "(msg_value, nat, wire list, wire list) server" where
  "stream_server = snd (on_accept stream_asio codec_decoder 0
     (snd (base_listen stream_asio codec_decoder (Address 1 80) (new_server new_loop []))))"

fun incoming_value :: "msg_value incoming \<Rightarrow> msg_value" where
  "incoming_value (In_request i (Opaque (Str m)) (Opaque (Arr p))) = Req m p i"
| "incoming_value (In_notify (Opaque (Str m)) (Opaque (Arr p))) = Ntf m p"
| "incoming_value _ = Str ''''"

fun incoming_ok :: "msg_value incoming \<Rightarrow> bool" where
  "incoming_ok (In_request i (Opaque (Str m)) (Opaque (Arr p))) = True"
| "incoming_ok (In_notify (Opaque (Str m)) (Opaque (Arr p))) = True"
| "incoming_ok _ = False"

lemma incoming_frames:
  "frames codec_decoder codec_held (\<lambda>m. [Head, Body (incoming_value m)]) (incoming_dec codec_decoder) incoming_ok"
proof (rule codec_frames[where val = incoming_value])
  show "incoming_dec codec_decoder m (Opaque (incoming_value m))" if "incoming_ok m" for m
    using that by (cases m rule: incoming_ok.cases) (simp_all add: codec_decoder_def)
qed simp

lemma stream_server_ready: "connection_ready stream_asio 0 stream_server" "sh_pac (v_socks stream_server ! 0) = []"
  "q_requests stream_server = []" "v_net stream_server = []"
  by (simp_all add: connection_ready_def stream_server_def on_accept_def base_listen_def serve_def server_listen_defs
      start_accept_def stream_asio_def codec_decoder_def new_server_def put_sock_def
      stream_start_def new_stream_handler_def Let_def)

lemma server_stream_fragmentation_witness:
  "\<exists>v'. read_chunks codec_decoder (server_vt stream_asio (reply_dispatch codec_packer stream_asio (\<lambda>m p. [Result p])) 0)
      [[Head], [Body (Req ''a'' [NIL] 1), Head, Body (Ntf ''b'' []), Head], [], [Body (Req ''a'' [] 2)]] stream_server = (None, v') \<and>
    map r_msgid (q_requests v') = [1, 0, 2] \<and>
    v_net v' = [Head, Body (Res (Opaque (Arr [NIL])) NIL 1), Head, Body (Res (Opaque (Arr [])) NIL 2)]"
  using server_stream_fragmentation[OF incoming_frames stream_server_ready(1), of
      "[In_request 1 (Opaque (Str ''a'')) (Opaque (Arr [NIL])), In_notify (Opaque (Str ''b'')) (Opaque (Arr [])),
        In_request 2 (Opaque (Str ''a'')) (Opaque (Arr []))]"
      "[[Head], [Body (Req ''a'' [NIL] 1), Head, Body (Ntf ''b'' []), Head], [], [Body (Req ''a'' [] 2)]]"
      codec_packer "\<lambda>m p. [Result p]"]
  by (auto simp: stream_server_ready codec_held_def write_replies_def codec_pack_reply stream_asio_def new_request_impl_def
      length_Suc_conv simp del: read_chunks.simps)



text \<open>
  Whatever bytes or errors a connection of a server delivers: no request is forgotten, an answered
  request stays answered, the set of connections only shrinks and stays consistent.
\<close>

lemma server_read_progress:
  assumes "server_ok w"
    and "w' = snd (stream_on_read d (server_vt a (reply_dispatch pk a compute) k) err bytes w)"
  shows "server_ok w' \<and> length (q_requests w) \<le> length (q_requests w') \<and>
    (\<forall>q < length (q_requests w). get_msgid q w' = get_msgid q w \<and> (is_sent q w \<longrightarrow> is_sent q w')) \<and>
    get_connection_num w' \<le> get_connection_num w"
proof -
  have p: "progress w w'" unfolding assms(2) by (rule replying.sock.on_read_rel[OF assms(1)])
  have ok: "server_ok w'" by (rule progress_ok[OF assms(1) p])
  have "get_connection_num w' \<le> get_connection_num w"
  proof (cases "v_stran w'")
    case None
    then show ?thesis by (simp add: get_connection_num_def)
  next
    case (Some t')
    then obtain t where t: "v_stran w = Some t" "set (ts_connections t') \<subseteq> set (ts_connections t)"
      using p by (auto simp: progress_def)
    have "distinct (ts_connections t')" "distinct (ts_connections t)"
      using assms(1) ok Some t(1) by (simp_all add: server_ok_def)
    with Some t show ?thesis
      by (simp add: get_connection_num_def distinct_card[symmetric] card_mono)
  qed
  with ok p show ?thesis by (auto simp: progress_def get_msgid_def is_sent_def)
qed

text \<open>
  A listening server that accepts a connection keeps listening: an accept into a fresh socket is
  pending again; an accepted connection is counted and reads, a failed accept changes neither.
\<close>

lemma on_accept_keeps_listening:
  assumes "server_listening w" "\<And>k. remote_endpoint a k (v_net w) = None"
  shows "\<exists>w'. on_accept a d err w = (None, w') \<and> server_listening w' \<and>
    get_connection_num w' = get_connection_num w + (if err = 0 then 1 else 0) \<and> q_requests w' = q_requests w"
proof -
  from assms(1) obtain t k where t: "server_ok w" "v_alive w" "v_stran w = Some t" "ts_acceptor t"
    "ts_conn t = Some k" "k < length (v_socks w)" "k \<notin> set (ts_connections t)" by (rule server_listeningE)
  have conns: "distinct (ts_connections t)" "\<forall>k \<in> set (ts_connections t). k < length (v_socks w)"
    using t(1,3) by (auto simp: server_ok_def)
  show ?thesis
  proof (cases "err = 0")
    case False
    with t conns start_accept_listening[of "w\<lparr>v_stran := Some (t\<lparr>ts_accepting := False\<rparr>)\<rparr>" "t\<lparr>ts_accepting := False\<rparr>" d]
    show ?thesis by (simp add: on_accept_def Let_def get_connection_num_def)
  next
    case True
    let ?t = "t\<lparr>ts_accepting := False, ts_connections := List.insert k (ts_connections t)\<rparr>"
    let ?h = "(v_socks w ! k)\<lparr>sh_open := True\<rparr>"
    let ?w = "put_sock k (stream_start d ?h) (put_sock k ?h (w\<lparr>v_stran := Some ?t\<rparr>))"
    have "on_accept a d err w = start_accept d ?w"
      using True t assms(2) by (simp add: on_accept_def Let_def)
    with start_accept_listening[of ?w ?t d] t conns True show ?thesis
      by (auto simp: get_connection_num_def)
  qed
qed

text \<open>
  If the peer of an accepted connection is gone again, the log statement of \<open>on_accept\<close> asks a
  socket without a peer for its remote endpoint; the exception leaves the handler before the
  connection reads and before the next accept is started: the server accepts no connection any more.
\<close>

lemma on_accept_stops_accepting:
  assumes "server_listening w" "\<And>k. remote_endpoint a k (v_net w) = Some ec"
  shows "\<exists>w' t. on_accept a d 0 w = (Some (system_error ec), w') \<and> v_stran w' = Some t \<and>
    \<not> ts_accepting t \<and> get_connection_num w' = get_connection_num w + 1"
proof -
  from assms(1) obtain t k where t: "v_stran w = Some t" "ts_conn t = Some k" "k \<notin> set (ts_connections t)"
    by (rule server_listeningE)
  then show ?thesis using assms(2) by (simp add: on_accept_def Let_def get_connection_num_def)
qed

end
