(* ===== verification/RPC_Server_Run.thy ===== *)
theory RPC_Server_Run
  imports RPC_Server
begin

text \<open>
  Runs of a TCP server with any number of connections. Connections are accepted, deliver bytes,
  fail and are closed in any order; the program answers in its dispatcher or later, and its
  dispatcher may throw. The peer of a connection may be gone at any time, in which case
  \<open>remote_endpoint\<close> throws in \<open>on_accept\<close> and in \<open>stop\<close>. In every state that is reached every counted
  connection is open and has a read pending, what was written to a connection are the replies to its
  own requests, and unless that exception has left \<open>on_accept\<close> the server accepts.
\<close>

section \<open>Definitions\<close>

text \<open>A dispatcher that makes some replies to its request and then returns or throws.\<close>

definition program_dispatch ::
  "('x, 'b) packer \<Rightarrow> ('ip, 'b, 'n) server_asio \<Rightarrow> ('x object \<Rightarrow> 'x object \<Rightarrow> 'x reply list \<times> exn option) \<Rightarrow>
   ('x, 'ip, 'u, 'n, 'z) server_scheme dispatch"
where
  "program_dispatch pk a prog q w =
     (case prog (r_method (rq w q)) (r_params (rq w q)) of (rs, e) \<Rightarrow>
        (case request_replies pk (server_ms_send a) q rs w of
           (Some ex, w') \<Rightarrow> (Some ex, w')
         | (None, w') \<Rightarrow> (e, w')))"

text \<open>
  \<open>server_run pk a d prog os v\<close>: a server that listened once has reached the state \<open>v\<close>; the network holds
  what was written to each socket, and the request \<open>q\<close> arrived on the socket \<open>os ! q\<close>. An exception that
  leaves a handler is taken to be caught by the caller of \<open>run\<close>, who runs the loop again; in a worker
  thread it ends the process.
\<close>

inductive server_run ::
  "('x, 'b) packer \<Rightarrow> ('ip, 'b, nat \<Rightarrow> 'b list) server_asio \<Rightarrow> ('x, 'b, 'u) decoder \<Rightarrow>
   ('x object \<Rightarrow> 'x object \<Rightarrow> 'x reply list \<times> exn option) \<Rightarrow> nat list \<Rightarrow>
   ('x, 'ip, 'u, nat \<Rightarrow> 'b list) server \<Rightarrow> bool"
  for pk a d prog
where
  srv_start: "base_listen a d addr (new_server lo (\<lambda>k. [])) = (None, v) \<Longrightarrow> v_net v = (\<lambda>k. []) \<Longrightarrow>
    server_run pk a d prog [] v"
| srv_accept: "server_run pk a d prog os v \<Longrightarrow> v_stran v = Some t \<Longrightarrow> ts_accepting t \<Longrightarrow>
    server_run pk a d prog os (snd (on_accept a d err v))"
| srv_read: "server_run pk a d prog os v \<Longrightarrow> k < length (v_socks v) \<Longrightarrow> sh_reading (v_socks v ! k) \<Longrightarrow>
    v' = snd (stream_on_read d (server_vt a (program_dispatch pk a prog) k) err bytes v) \<Longrightarrow>
    server_run pk a d prog (os @ replicate (length (q_requests v') - length (q_requests v)) k) v'"
| srv_reply: "server_run pk a d prog os v \<Longrightarrow> q < length (q_requests v) \<Longrightarrow>
    server_run pk a d prog os (snd (request_reply pk (server_ms_send a) q r v))"
| srv_loop: "server_run pk a d prog os v \<Longrightarrow> server_run pk a d prog os (v\<lparr>v_loop := lo\<rparr>)"

text \<open>
  What is assumed of the environment: a write delivers its bytes and a failing write some of them, the
  decoder and the program throw standard exceptions only.
\<close>

definition server_env ::
  "('ip, 'b, nat \<Rightarrow> 'b list) server_asio \<Rightarrow> ('x, 'b, 'u) decoder \<Rightarrow>
   ('x object \<Rightarrow> 'x object \<Rightarrow> 'x reply list \<times> exn option) \<Rightarrow> bool"
where
  "server_env a d prog \<longleftrightarrow>
     (\<forall>k bs n. \<exists>p. prefix p bs \<and> snd (server_write a k bs n) = n(k := n k @ p) \<and>
        (fst (server_write a k bs n) = None \<longrightarrow> p = bs)) \<and>
     (\<forall>u e. fst (snd (pac_next_all d u)) = Some e \<longrightarrow> is_std_exception e) \<and>
     (\<forall>m p e. snd (prog m p) = Some e \<longrightarrow> is_std_exception e)"

text \<open>The members of \<open>m_connections\<close>; sockets of which \<open>remote_endpoint\<close> may fail, since the peer is gone.\<close>

definition counted :: "nat \<Rightarrow> ('x, 'ip, 'u, 'n, 'z) server_scheme \<Rightarrow> bool" where
  "counted k v \<longleftrightarrow> (\<exists>t. v_stran v = Some t \<and> k \<in> set (ts_connections t))"

definition peer_lost :: "('ip, 'b, 'n) server_asio \<Rightarrow> nat \<Rightarrow> bool" where
  "peer_lost a k \<longleftrightarrow> (\<exists>n. remote_endpoint a k n \<noteq> None)"

section \<open>Invariants of read events\<close>

text \<open>
  An invariant that the virtual functions of a socket keep, and that does not depend on its decoder
  and its pending read, is kept by a read event up to its last action: the socket fails or starts the next read.
\<close>

locale socket_invariant =
  fixes vt :: "('x, 'u, 'w) stream_vt" and I :: "'w \<Rightarrow> bool"
  assumes put_I: "I w \<Longrightarrow> sh_open h = sh_open (vt_get vt w) \<Longrightarrow> I (vt_put vt h w)"
    and request_I: "I w \<Longrightarrow> vt_on_request vt i m p z w = (e, w') \<Longrightarrow> I w' \<and> (\<forall>ex. e = Some ex \<longrightarrow> is_std_exception ex)"
    and response_I: "I w \<Longrightarrow> vt_on_response vt i m p z w = (e, w') \<Longrightarrow> I w' \<and> (\<forall>ex. e = Some ex \<longrightarrow> is_std_exception ex)"
    and notify_I: "I w \<Longrightarrow> vt_on_notify vt m p z w = (e, w') \<Longrightarrow> I w' \<and> (\<forall>ex. e = Some ex \<longrightarrow> is_std_exception ex)"
begin

lemma set_pac_I: "I w \<Longrightarrow> I (set_pac vt u w)"
  unfolding set_pac_def by (rule put_I) simp_all

lemma on_message_I:
  "I w \<Longrightarrow> stream_on_message d vt msg z w = (e, w') \<Longrightarrow> I w' \<and> (\<forall>ex. e = Some ex \<longrightarrow> is_std_exception ex)"
  by (auto simp: stream_on_message_def dest: request_I response_I notify_I split: option.splits if_splits)

lemma read_loop_I:
  "I w \<Longrightarrow> (\<forall>ex. fst fin = Some ex \<longrightarrow> is_std_exception ex) \<Longrightarrow> read_loop d vt ms fin w = (e, w') \<Longrightarrow>
    I w' \<and> (\<forall>ex. e = Some ex \<longrightarrow> is_std_exception ex)"
proof (induction ms arbitrary: w)
  case Nil
  then show ?case by (cases fin) (auto simp: set_pac_I)
next
  case (Cons m ms)
  obtain msg z u where m: "m = (msg, z, u)" by (cases m)
  obtain e1 w1 where st: "stream_on_message d vt msg (Some z) (set_pac vt u w) = (e1, w1)"
    by (cases "stream_on_message d vt msg (Some z) (set_pac vt u w)")
  note r = on_message_I[OF set_pac_I[OF Cons.prems(1)] st]
  show ?case
  proof (cases e1)
    case None
    with Cons.prems(3) m st have "read_loop d vt ms fin w1 = (e, w')" by simp
    with Cons.IH r Cons.prems(2) show ?thesis by blast
  next
    case (Some ex)
    with Cons.prems(3) m st r show ?thesis by auto
  qed
qed

lemma on_read_I:
  assumes "I w" "\<forall>u ex. fst (snd (pac_next_all d u)) = Some ex \<longrightarrow> is_std_exception ex"
  shows "\<exists>w3. I w3 \<and> (stream_on_read d vt err bytes w = (None, stream_fail d vt err w3) \<or>
    stream_on_read d vt err bytes w = (None, vt_put vt (stream_start d (vt_get vt w3)) w3))"
proof -
  define w1 where "w1 = vt_put vt ((vt_get vt w)\<lparr>sh_reading := False\<rparr>) w"
  define u where "u = pac_consumed d bytes (sh_pac (vt_get vt w1))"
  obtain ms fin where nx: "pac_next_all d u = (ms, fin)" by (cases "pac_next_all d u")
  obtain e w3 where l: "read_loop d vt ms fin (set_pac vt u w1) = (e, w3)"
    by (cases "read_loop d vt ms fin (set_pac vt u w1)")
  have I1: "I w1" unfolding w1_def by (rule put_I[OF assms(1)]) simp
  have "\<forall>ex. fst fin = Some ex \<longrightarrow> is_std_exception ex" using assms(2)[rule_format, of u] nx by simp
  note r = read_loop_I[OF set_pac_I[OF I1] this l]
  show ?thesis
  proof (cases "err = 0")
    case True
    with nx l r show ?thesis
      by (intro exI[of _ w3]) (auto simp: stream_on_read_def Let_def simp flip: w1_def u_def split: option.split)
  next
    case False
    with I1 show ?thesis by (intro exI[of _ w1]) (simp add: stream_on_read_def Let_def flip: w1_def)
  qed
qed

end

section \<open>Connections\<close>

text \<open>
  The connections of the server are open sockets, and each has a read pending, those in \<open>x\<close> excepted. The
  last socket is the one into which the server accepts; if the log statement of \<open>on_accept\<close> has thrown,
  it is counted but nobody reads it, and no accept is pending. An open socket that is not counted was
  not closed by \<open>stop\<close> because its peer was gone.
\<close>

definition conns_at :: "('ip, 'b, 'n) server_asio \<Rightarrow> nat set \<Rightarrow> 'ip tcp_server \<Rightarrow> nat \<Rightarrow> 'u stream_handler list \<Rightarrow> bool" where
  "conns_at a x t c hs \<longleftrightarrow> ts_acceptor t \<and> ts_conn t = Some c \<and> length hs = Suc c \<and> \<not> sh_reading (hs ! c) \<and>
     (ts_accepting t \<longrightarrow> \<not> sh_open (hs ! c)) \<and> (\<not> ts_accepting t \<longrightarrow> c \<in> set (ts_connections t) \<and> peer_lost a c) \<and>
     distinct (ts_connections t) \<and> (\<forall>k \<in> set (ts_connections t). k \<le> c \<and> sh_open (hs ! k)) \<and>
     (\<forall>k \<le> c. sh_open (hs ! k) \<longrightarrow> k \<in> set (ts_connections t) \<or> peer_lost a k) \<and>
     (\<forall>k \<in> set (ts_connections t) - x. k < c \<longrightarrow> sh_reading (hs ! k))"

definition conns_inv :: "('ip, 'b, 'n) server_asio \<Rightarrow> nat set \<Rightarrow> ('x, 'ip, 'u, 'n, 'z) server_scheme \<Rightarrow> bool" where
  "conns_inv a x v \<longleftrightarrow> v_alive v \<and> v_dp v \<and> (\<exists>t c. v_stran v = Some t \<and> conns_at a x t c (v_socks v))"

lemma conns_invI:
  "v_alive v \<Longrightarrow> v_dp v \<Longrightarrow> v_stran v = Some t \<Longrightarrow> conns_at a x t c (v_socks v) \<Longrightarrow> conns_inv a x v"
  by (auto simp: conns_inv_def)

lemma conns_invE:
  assumes "conns_inv a x v"
  obtains t c where "v_alive v" "v_dp v" "v_stran v = Some t" "conns_at a x t c (v_socks v)" "length (v_socks v) = Suc c"
  using assms by (auto simp: conns_inv_def conns_at_def)

lemma conns_inv_cong:
  "v_alive v' = v_alive v \<Longrightarrow> v_dp v' = v_dp v \<Longrightarrow> v_stran v' = v_stran v \<Longrightarrow> v_socks v' = v_socks v \<Longrightarrow>
    conns_inv a x v' = conns_inv a x v"
  by (simp add: conns_inv_def)

lemma conns_inv_mono: "conns_inv a x v \<Longrightarrow> x \<subseteq> y \<Longrightarrow> conns_inv a y v"
  by (elim conns_invE, rule conns_invI) (auto simp: conns_at_def)

lemma conns_inv_last: "conns_inv a x v \<Longrightarrow> k < length (v_socks v) \<Longrightarrow> sh_reading (v_socks v ! k) \<Longrightarrow> Suc k < length (v_socks v)"
  by (elim conns_invE) (auto simp: conns_at_def less_Suc_eq)

lemma conns_inv_put:
  assumes "conns_inv a x v" "Suc k < length (v_socks v)" "sh_open h = sh_open (v_socks v ! k)"
    and "sh_reading h = sh_reading (v_socks v ! k) \<or> k \<in> x"
  shows "conns_inv a x (put_sock k h v)"
  using assms(1)
proof (rule conns_invE)
  fix t c
  assume v: "v_alive v" "v_dp v" "v_stran v = Some t" "conns_at a x t c (v_socks v)" "length (v_socks v) = Suc c"
  from v(4,5) assms(2-4) have "conns_at a x t c ((v_socks v)[k := h])"
    unfolding conns_at_def by (auto simp: nth_list_update_if)
  with v show ?thesis by (intro conns_invI) (simp_all add: put_sock_def)
qed

lemma conns_inv_fail:
  assumes "conns_inv a x v" "Suc k < length (v_socks v)"
  shows "conns_inv a (x - {k}) (tran_on_system_error a k v) \<and> \<not> counted k (tran_on_system_error a k v)"
  using assms(1)
proof (rule conns_invE)
  fix t c
  assume v: "v_alive v" "v_dp v" "v_stran v = Some t" "conns_at a x t c (v_socks v)" "length (v_socks v) = Suc c"
  let ?h = "stream_stop (remote_endpoint a k (v_net v) = None) (v_socks v ! k)"
  let ?t = "t\<lparr>ts_connections := removeAll k (ts_connections t)\<rparr>"
  have "remote_endpoint a k (v_net v) \<noteq> None \<Longrightarrow> peer_lost a k" by (auto simp: peer_lost_def)
  then have h: "sh_open ?h \<Longrightarrow> sh_open (v_socks v ! k) \<and> peer_lost a k" by (auto simp: stream_stop_def split: if_splits)
  have "conns_at a (x - {k}) ?t c ((v_socks v)[k := ?h])"
    using v(4,5) assms(2) h unfolding conns_at_def by (auto simp: nth_list_update_if distinct_removeAll)
  moreover have "tran_on_system_error a k v = v\<lparr>v_socks := (v_socks v)[k := ?h], v_stran := Some ?t\<rparr>"
    using v(3) by (simp add: tran_on_system_error_def put_sock_def)
  ultimately show ?thesis using v(1,2) by (simp add: conns_inv_def counted_def) blast
qed

section \<open>Replies\<close>

text \<open>
  What was written to the socket \<open>k\<close>: the replies to requests that arrived on \<open>k\<close>, each at most once, a
  reply whose write failed only in part. On a counted connection all are whole; if the peer is not
  lost, only the last one may be cut off.
\<close>

definition reply_bytes :: "('x, 'b) packer \<Rightarrow> ('x, 'ms, 'z) req_heap_scheme \<Rightarrow> nat \<Rightarrow> 'x reply \<Rightarrow> 'b list" where
  "reply_bytes pk v q r = outbuf_bytes (reply_buf pk (get_msgid q v) r)"

definition whole :: "('x, 'b) packer \<Rightarrow> ('x, 'ms, 'z) req_heap_scheme \<Rightarrow> (nat \<times> 'x reply \<times> 'b list) list \<Rightarrow> bool" where
  "whole pk v rs \<longleftrightarrow> (\<forall>(q, r, p) \<in> set rs. p = reply_bytes pk v q r)"

definition sent_to ::
  "('x, 'b) packer \<Rightarrow> ('ip, 'b, nat \<Rightarrow> 'b list) server_asio \<Rightarrow> nat list \<Rightarrow> ('x, 'ip, 'u, nat \<Rightarrow> 'b list, 'z) server_scheme \<Rightarrow>
   nat \<Rightarrow> (nat \<times> 'x reply \<times> 'b list) list \<Rightarrow> bool"
where
  "sent_to pk a os v k rs \<longleftrightarrow> distinct (map fst rs) \<and>
     (\<forall>(q, r, p) \<in> set rs. q < length (q_requests v) \<and> is_sent q v \<and> os ! q = k \<and> prefix p (reply_bytes pk v q r)) \<and>
     v_net v k = concat (map (\<lambda>(q, r, p). p) rs) \<and>
     (counted k v \<longrightarrow> whole pk v rs) \<and> (\<not> peer_lost a k \<longrightarrow> whole pk v (butlast rs))"

definition replies_inv ::
  "('x, 'b) packer \<Rightarrow> ('ip, 'b, nat \<Rightarrow> 'b list) server_asio \<Rightarrow> nat list \<Rightarrow> ('x, 'ip, 'u, nat \<Rightarrow> 'b list, 'z) server_scheme \<Rightarrow> bool"
where
  "replies_inv pk a os v \<longleftrightarrow> length os = length (q_requests v) \<and>
     (\<forall>q < length os. Suc (os ! q) < length (v_socks v) \<and> r_ms (rq v q) \<in> {None, Some (os ! q)}) \<and>
     (\<forall>k. length (v_socks v) \<le> Suc k \<longrightarrow> v_net v k = []) \<and> (\<forall>k. \<exists>rs. sent_to pk a os v k rs)"

text \<open>Steps that write nothing and count no further connection.\<close>

lemma sent_to_frame:
  assumes "sent_to pk a os v k rs" "v_net v' k = v_net v k" "counted k v' \<Longrightarrow> counted k v"
    and same: "\<And>q. q < length (q_requests v) \<Longrightarrow> q < length (q_requests v') \<and> (is_sent q v \<longrightarrow> is_sent q v') \<and>
      get_msgid q v' = get_msgid q v \<and> os' ! q = os ! q"
  shows "sent_to pk a os' v' k rs"
proof -
  have q: "q < length (q_requests v)" if "(q, r, p) \<in> set rs" for q r p using assms(1) that by (auto simp: sent_to_def)
  have eq: "reply_bytes pk v' q r = reply_bytes pk v q r" if "(q, r, p) \<in> set rs" for q r p
    using same[OF q[OF that]] by (simp add: reply_bytes_def)
  have "whole pk v' rs'" if w: "whole pk v rs'" "set rs' \<subseteq> set rs" for rs'
    unfolding whole_def
  proof clarify
    fix q r p
    assume m: "(q, r, p) \<in> set rs'"
    with w(2) have "(q, r, p) \<in> set rs" by blast
    from eq[OF this] w(1) m show "p = reply_bytes pk v' q r" unfolding whole_def by auto
  qed
  from this[of rs] this[of "butlast rs"] have "whole pk v rs \<Longrightarrow> whole pk v' rs" "whole pk v (butlast rs) \<Longrightarrow> whole pk v' (butlast rs)"
    using in_set_butlastD[of _ rs] by blast+
  moreover have "q < length (q_requests v') \<and> is_sent q v' \<and> os' ! q = k \<and> prefix p (reply_bytes pk v' q r)"
    if "(q, r, p) \<in> set rs" for q r p
    using assms(1) that same[OF q[OF that]] eq[OF that] by (auto simp: sent_to_def)
  ultimately show ?thesis using assms(1-3) unfolding sent_to_def by auto
qed

lemma replies_inv_frame:
  assumes inv: "replies_inv pk a os v" and "q_requests v' = q_requests v" "v_net v' = v_net v"
    and "length (v_socks v') = length (v_socks v)" "\<And>k. counted k v' \<Longrightarrow> counted k v"
  shows "replies_inv pk a os v'"
proof -
  have "\<exists>rs. sent_to pk a os v' k rs" for k
  proof -
    from inv obtain rs where "sent_to pk a os v k rs" unfolding replies_inv_def by blast
    then have "sent_to pk a os v' k rs"
      by (rule sent_to_frame) (use assms(2-5) in \<open>simp_all add: is_sent_def get_msgid_def\<close>)
    then show ?thesis by blast
  qed
  with assms show ?thesis by (simp add: replies_inv_def)
qed

lemma replies_inv_new:
  assumes inv: "replies_inv pk a os v" and "Suc k < length (v_socks v)" "r_ms r \<in> {None, Some k}"
  shows "replies_inv pk a (os @ [k]) (v\<lparr>q_requests := q_requests v @ [r]\<rparr>)"
proof -
  let ?v = "v\<lparr>q_requests := q_requests v @ [r]\<rparr>"
  have "\<exists>rs. sent_to pk a (os @ [k]) ?v j rs" for j
  proof -
    from inv obtain rs where rs: "sent_to pk a os v j rs" and len: "length os = length (q_requests v)"
      unfolding replies_inv_def by blast
    then have "sent_to pk a (os @ [k]) ?v j rs"
      by (intro sent_to_frame[OF rs]) (auto simp: is_sent_def get_msgid_def nth_append counted_def)
    then show ?thesis by blast
  qed
  with assms show ?thesis by (auto simp: replies_inv_def nth_append less_Suc_eq)
qed

text \<open>A reply that is written to the socket of its request, or dropped because that is closed.\<close>

lemma sent_to_append:
  assumes "sent_to pk a os v k rs" "q \<notin> fst ` set rs" "q < length (q_requests v)" "is_sent q v" "os ! q = k"
    and "prefix p (reply_bytes pk v q r)" "v_net v' = (v_net v)(k := v_net v k @ p)" "q_requests v' = q_requests v"
    and "counted k v' \<Longrightarrow> counted k v \<and> p = reply_bytes pk v q r" "\<not> peer_lost a k \<Longrightarrow> counted k v"
  shows "sent_to pk a os v' k (rs @ [(q, r, p)])"
  using assms unfolding sent_to_def whole_def by (auto simp: reply_bytes_def is_sent_def get_msgid_def)

lemma replies_inv_send:
  assumes inv: "replies_inv pk a os v" and q: "q < length (q_requests v)" "r_ms (rq v q) = Some k"
    and v': "q_requests v' = (q_requests v)[q := (rq v q)\<lparr>r_ms := None\<rparr>]" "length (v_socks v') = length (v_socks v)"
      "\<And>k. counted k v' \<Longrightarrow> counted k v"
    and net: "v_net v' = v_net v \<or> (\<exists>p. v_net v' = (v_net v)(k := v_net v k @ p) \<and> prefix p (reply_bytes pk v q r) \<and>
      (counted k v' \<longrightarrow> p = reply_bytes pk v q r)) \<and> (\<not> peer_lost a k \<longrightarrow> counted k v)"
  shows "replies_inv pk a os v'"
proof -
  define v1 where "v1 = v\<lparr>q_requests := q_requests v'\<rparr>"
  have k: "os ! q = k" "Suc k < length (v_socks v)" using inv q by (auto simp: replies_inv_def)
  have sent: "is_sent j v \<Longrightarrow> is_sent j v1" "get_msgid j v1 = get_msgid j v" for j
    using v'(1) by (auto simp: v1_def is_sent_def get_msgid_def nth_list_update_if)
  have v1: "reply_bytes pk v1 j r' = reply_bytes pk v j r'" "counted j v1 = counted j v" "v_net v1 = v_net v"
    "q_requests v1 = q_requests v'" "is_sent q v1" for j r'
    using sent(2) v'(1) q(1) by (simp_all add: reply_bytes_def counted_def v1_def is_sent_def)
  have "\<exists>rs. sent_to pk a os v' j rs" for j
  proof -
    from inv obtain rs where rs: "sent_to pk a os v j rs" unfolding replies_inv_def by blast
    have rs1: "sent_to pk a os v1 j rs"
      by (rule sent_to_frame[OF rs]) (use v' sent v1 in \<open>simp_all\<close>)
    show ?thesis
    proof (cases "v_net v' j = v_net v j")
      case True
      have "sent_to pk a os v' j rs"
        by (rule sent_to_frame[OF rs1]) (use True v' v1 in \<open>auto simp: is_sent_def get_msgid_def\<close>)
      then show ?thesis by blast
    next
      case False
      with net obtain p where p: "v_net v' = (v_net v)(k := v_net v k @ p)" "prefix p (reply_bytes pk v q r)"
        "counted k v' \<longrightarrow> p = reply_bytes pk v q r" "\<not> peer_lost a k \<longrightarrow> counted k v" by auto
      have j: "j = k" using False p(1) by (auto split: if_splits)
      have "q \<notin> fst ` set rs" using rs q(2) by (auto simp: sent_to_def is_sent_def)
      then have "sent_to pk a os v' k (rs @ [(q, r, p)])"
        using rs1 p j v1 v' k(1) q(1) by (intro sent_to_append[of pk a os v1]) auto
      with j show ?thesis by blast
    qed
  qed
  moreover have "v_net v' j = []" if "length (v_socks v') \<le> Suc j" for j
    using inv net k(2) v'(2) that by (auto simp: replies_inv_def)
  ultimately show ?thesis using inv v'(1,2) by (auto simp: replies_inv_def nth_list_update_if)
qed

section \<open>The steps of a server\<close>

definition serving_inv ::
  "('x, 'b) packer \<Rightarrow> ('ip, 'b, nat \<Rightarrow> 'b list) server_asio \<Rightarrow> nat list \<Rightarrow> nat set \<Rightarrow> ('x, 'ip, 'u, nat \<Rightarrow> 'b list, 'z) server_scheme \<Rightarrow> bool"
where
  "serving_inv pk a os x v \<longleftrightarrow> conns_inv a x v \<and> replies_inv pk a os v"

lemma fail_simps:
  "q_requests (tran_on_system_error a k v) = q_requests v" "v_net (tran_on_system_error a k v) = v_net v"
  "length (v_socks (tran_on_system_error a k v)) = length (v_socks v)"
  "counted j (tran_on_system_error a k v) \<Longrightarrow> counted j v"
  by (auto simp: tran_on_system_error_def put_sock_def counted_def split: option.splits if_splits)

lemma serving_inv_fail:
  assumes "serving_inv pk a os x v" "Suc k < length (v_socks v)"
  shows "serving_inv pk a os (x - {k}) (tran_on_system_error a k v)"
  using assms conns_inv_fail[of a x v k] replies_inv_frame[of pk a os v "tran_on_system_error a k v"]
  by (auto simp: serving_inv_def fail_simps(1-3) dest: fail_simps(4))

lemma serving_inv_put:
  assumes "serving_inv pk a os x v" "Suc k < length (v_socks v)" "sh_open h = sh_open (v_socks v ! k)"
    and "sh_reading h = sh_reading (v_socks v ! k) \<or> k \<in> x"
  shows "serving_inv pk a os x (put_sock k h v)"
proof -
  have "replies_inv pk a os (put_sock k h v)"
    by (rule replies_inv_frame[of pk a os v]) (use assms in \<open>auto simp: serving_inv_def put_sock_def counted_def\<close>)
  with conns_inv_put[of a x v, OF _ assms(2-4)] assms(1) show ?thesis by (simp add: serving_inv_def)
qed

lemma open_counted:
  assumes "conns_inv a x v" "Suc k < length (v_socks v)" "sh_open (v_socks v ! k)" "\<not> peer_lost a k"
  shows "counted k v"
  using assms(1)
proof (rule conns_invE)
  fix t c
  assume "v_stran v = Some t" "conns_at a x t c (v_socks v)" "length (v_socks v) = Suc c"
  moreover from this assms(2-4) have "k \<in> set (ts_connections t)" unfolding conns_at_def by (metis Suc_less_eq less_imp_le)
  ultimately show ?thesis by (simp add: counted_def)
qed

lemma server_send_inv:
  assumes inv: "serving_inv pk a os x v" and env: "server_env a d prog"
    and q: "q < length (q_requests v)" "r_ms (rq v q) = Some k"
    and v': "v' = (snd (server_ms_send a k (reply_buf pk (get_msgid q v) r) v))
      \<lparr>q_requests := (q_requests v)[q := (rq v q)\<lparr>r_ms := None\<rparr>]\<rparr>"
  shows "serving_inv pk a os x v'"
proof -
  let ?q = "(q_requests v)[q := (rq v q)\<lparr>r_ms := None\<rparr>]"
  have ri: "replies_inv pk a os v" and ci: "conns_inv a x v" using inv by (simp_all add: serving_inv_def)
  have k: "Suc k < length (v_socks v)" using ri q by (auto simp: replies_inv_def)
  note send = replies_inv_send[OF ri q, where r = r and v' = v']
  obtain e n where wr: "server_write a k (reply_bytes pk v q r) (v_net v) = (e, n)"
    by (cases "server_write a k (reply_bytes pk v q r) (v_net v)")
  with env obtain p where p: "prefix p (reply_bytes pk v q r)" "n = (v_net v)(k := v_net v k @ p)"
    "e = None \<longrightarrow> p = reply_bytes pk v q r" unfolding server_env_def by (metis fst_conv snd_conv)
  note op = open_counted[OF ci k]
  consider "\<not> sh_open (v_socks v ! k)" | "sh_open (v_socks v ! k)" "e = None" | "sh_open (v_socks v ! k)" "e \<noteq> None" by blast
  then show ?thesis
  proof cases
    case 1
    then have "v' = v\<lparr>q_requests := ?q\<rparr>" by (simp add: v' server_ms_send_def stream_send_data_def server_vt_def)
    with send conns_inv_cong[of v' v a x] ci show ?thesis by (simp add: serving_inv_def counted_def)
  next
    case 2
    then have "v' = v\<lparr>v_net := n, q_requests := ?q\<rparr>"
      using wr by (simp add: v' reply_bytes_def server_ms_send_def stream_send_data_def server_vt_def server_sock_write_def)
    with send conns_inv_cong[of v' v a x] ci p 2 op show ?thesis by (auto simp: serving_inv_def counted_def)
  next
    case 3
    let ?w = "tran_on_system_error a k (v\<lparr>v_net := n\<rparr>)"
    have v'_eq: "v' = ?w\<lparr>q_requests := ?q\<rparr>"
      using 3 wr by (auto simp: v' reply_bytes_def server_ms_send_def stream_send_data_def server_vt_def server_sock_write_def)
    have c: "conns_inv a (x - {k}) ?w" "\<not> counted k ?w"
      using conns_inv_fail[of a x "v\<lparr>v_net := n\<rparr>" k] ci k conns_inv_cong[of "v\<lparr>v_net := n\<rparr>" v a x] by simp_all
    have cnt: "counted j v' = counted j ?w" "counted j ?w \<Longrightarrow> counted j v" for j
      using fail_simps(4)[of j a k "v\<lparr>v_net := n\<rparr>"] by (simp_all add: v'_eq counted_def)
    have "conns_inv a x ?w" using conns_inv_mono[OF c(1)] by blast
    then have "conns_inv a x v'" using conns_inv_cong[of v' ?w a x] v'_eq by simp
    moreover have "replies_inv pk a os v'"
      by (rule send) (use v'_eq c(2) p 3(1) op cnt in \<open>auto simp: fail_simps(2,3)\<close>)
    ultimately show ?thesis by (simp add: serving_inv_def)
  qed
qed

lemma server_reply_inv:
  assumes inv: "serving_inv pk a os x v" and env: "server_env a d prog" and q: "q < length (q_requests v)"
    and v': "request_reply pk (server_ms_send a) q r v = (e, v')"
  shows "serving_inv pk a os x v' \<and> length (q_requests v') = length (q_requests v) \<and> length (v_socks v') = length (v_socks v) \<and> e = None"
proof (cases "r_ms (rq v q)")
  case None
  with request_reply_sent[of q v pk "server_ms_send a" r] v' inv show ?thesis by (simp add: is_sent_def)
next
  case (Some k)
  with v' have v'_eq: "e = None" "v' = (snd (server_ms_send a k (reply_buf pk (get_msgid q v) r) v))
      \<lparr>q_requests := (q_requests v)[q := (rq v q)\<lparr>r_ms := None\<rparr>]\<rparr>"
    by (simp_all add: request_reply_pending[OF Some] request_send_data_tcp[OF Some] get_msgid_def)
  with server_ms_send_progress[of v a k "reply_buf pk (get_msgid q v) r"] server_send_inv[OF inv env q Some v'_eq(2)]
  show ?thesis by (simp add: progress_def)
qed

lemma server_replies_inv:
  assumes env: "server_env a d prog"
  shows "serving_inv pk a os x v \<Longrightarrow> q < length (q_requests v) \<Longrightarrow> request_replies pk (server_ms_send a) q rs v = (e, v') \<Longrightarrow>
    serving_inv pk a os x v' \<and> length (q_requests v') = length (q_requests v) \<and> length (v_socks v') = length (v_socks v) \<and> e = None"
proof (induction rs arbitrary: v)
  case Nil
  then show ?case by simp
next
  case (Cons r rs)
  obtain e1 v1 where r: "request_reply pk (server_ms_send a) q r v = (e1, v1)" by (cases "request_reply pk (server_ms_send a) q r v")
  note s = server_reply_inv[OF Cons.prems(1) env Cons.prems(2) r]
  with Cons.prems(3) r have "request_replies pk (server_ms_send a) q rs v1 = (e, v')" by simp
  with Cons.IH[of v1] s Cons.prems(2) show ?case by simp
qed

text \<open>The state while the socket \<open>k\<close> handles the messages of a read event.\<close>

definition read_inv ::
  "('x, 'b) packer \<Rightarrow> ('ip, 'b, nat \<Rightarrow> 'b list) server_asio \<Rightarrow> ('x, 'b, 'u) decoder \<Rightarrow>
   ('x object \<Rightarrow> 'x object \<Rightarrow> 'x reply list \<times> exn option) \<Rightarrow> nat list \<Rightarrow> nat \<Rightarrow>
   ('x, 'ip, 'u, nat \<Rightarrow> 'b list, 'z) server_scheme \<Rightarrow> bool"
where
  "read_inv pk a d prog os k v \<longleftrightarrow> server_env a d prog \<and> length os \<le> length (q_requests v) \<and> Suc k < length (v_socks v) \<and>
     serving_inv pk a (os @ replicate (length (q_requests v) - length os) k) {k} v"

lemma dispatch_read_inv:
  assumes inv: "read_inv pk a d prog os k v" and r: "r_ms r \<in> {None, Some k}"
    and v': "dispatch_new (program_dispatch pk a prog) r v = (e, v')"
  shows "read_inv pk a d prog os k v' \<and> (\<forall>ex. e = Some ex \<longrightarrow> is_std_exception ex)"
proof -
  let ?w = "v\<lparr>q_requests := q_requests v @ [r]\<rparr>" and ?q = "length (q_requests v)"
  let ?os = "os @ replicate (Suc ?q - length os) k"
  have env: "server_env a d prog" and len: "length os \<le> ?q" "Suc k < length (v_socks v)"
    and si: "serving_inv pk a (os @ replicate (?q - length os) k) {k} v" using inv by (simp_all add: read_inv_def)
  have os: "?os = (os @ replicate (?q - length os) k) @ [k]"
    using len(1) by (simp add: Suc_diff_le replicate_append_same)
  have w: "serving_inv pk a ?os {k} ?w"
    unfolding os using si replies_inv_new[OF _ len(2) r] conns_inv_cong[of ?w v a "{k}"]
    by (simp add: serving_inv_def del: append_assoc)
  have dp: "v_dp v" using si by (simp add: serving_inv_def conns_inv_def)
  obtain rs e1 where prog: "prog (r_method r) (r_params r) = (rs, e1)" by (cases "prog (r_method r) (r_params r)")
  obtain e2 w2 where rep: "request_replies pk (server_ms_send a) ?q rs ?w = (e2, w2)"
    by (cases "request_replies pk (server_ms_send a) ?q rs ?w")
  have s: "serving_inv pk a ?os {k} w2" "length (q_requests w2) = Suc ?q" "length (v_socks w2) = length (v_socks v)" "e2 = None"
    using server_replies_inv[OF env w _ rep] by simp_all
  have "v' = w2" "e = e1" using v' dp prog rep s(4) by (simp_all add: dispatch_new_def program_dispatch_def Let_def)
  moreover have "is_std_exception ex" if "e1 = Some ex" for ex
    using env prog that unfolding server_env_def by (metis snd_conv)
  ultimately show ?thesis using s env len by (simp add: read_inv_def)
qed

interpretation server_reads: socket_invariant "server_vt a (program_dispatch pk a prog) k" "read_inv pk a d prog os k"
  for pk a d prog os k
proof (unfold_locales, goal_cases)
  case (1 w h)
  then have "serving_inv pk a (os @ replicate (length (q_requests w) - length os) k) {k} (put_sock k h w)"
    by (intro serving_inv_put) (simp_all add: read_inv_def server_vt_def)
  with 1 show ?case by (simp add: read_inv_def server_vt_def)
next
  case (2 w i m p z e w')
  then have "v_alive w" by (simp add: read_inv_def serving_inv_def conns_inv_def)
  with 2 show ?case
    by (intro dispatch_read_inv[where v = w and r = "new_request_impl (Some k) i m p z"])
       (simp_all add: server_vt_def sock_on_request_def server_on_request_def new_request_impl_def)
next
  case (3 w i m p z e w')
  then show ?case by (auto simp: server_vt_def sock_on_response_def)
next
  case (4 w m p z e w')
  then have "v_alive w" by (simp add: read_inv_def serving_inv_def conns_inv_def)
  with 4 show ?case
    by (intro dispatch_read_inv[where v = w and r = "new_request_impl None 0 m p z"])
       (simp_all add: server_vt_def sock_on_notify_def server_on_notify_def new_request_impl_def)
qed

lemma serving_read_inv:
  assumes inv: "serving_inv pk a os {} v" and env: "server_env a d prog" and k: "k < length (v_socks v)" "sh_reading (v_socks v ! k)"
    and v': "v' = snd (stream_on_read d (server_vt a (program_dispatch pk a prog) k) err bytes v)"
  shows "serving_inv pk a (os @ replicate (length (q_requests v') - length (q_requests v)) k) {} v'"
proof -
  let ?vt = "server_vt a (program_dispatch pk a prog) k"
  have len: "length os = length (q_requests v)" using inv by (simp add: serving_inv_def replies_inv_def)
  have "Suc k < length (v_socks v)" using inv k conns_inv_last[of a "{}" v k] by (simp add: serving_inv_def)
  moreover have "serving_inv pk a os {k} v" using inv conns_inv_mono by (auto simp: serving_inv_def)
  ultimately have "read_inv pk a d prog os k v" using env len by (simp add: read_inv_def)
  from server_reads.on_read_I[OF this, of d err bytes] env v' obtain w where w: "read_inv pk a d prog os k w"
    and cases: "v' = stream_fail d ?vt err w \<or> v' = vt_put ?vt (stream_start d (vt_get ?vt w)) w"
    unfolding server_env_def by (metis snd_conv)
  let ?os = "os @ replicate (length (q_requests w) - length os) k"
  have kw: "Suc k < length (v_socks w)" and si: "serving_inv pk a ?os {k} w" using w by (simp_all add: read_inv_def)
  from cases show ?thesis
  proof
    assume v'_eq: "v' = stream_fail d ?vt err w"
    let ?w = "tran_on_system_error a k w"
    have f: "serving_inv pk a ?os {} ?w" using serving_inv_fail[OF si kw] by simp
    have "v' = put_sock k ((v_socks ?w ! k)\<lparr>sh_pac := pac_remove_nonparsed d (sh_pac (v_socks ?w ! k))\<rparr>) ?w"
      by (simp add: v'_eq stream_fail_def set_pac_def server_vt_def Let_def)
    with serving_inv_put[OF f, of k] kw show ?thesis by (simp add: fail_simps len)
  next
    assume v'_eq: "v' = vt_put ?vt (stream_start d (vt_get ?vt w)) w"
    then have "v' = put_sock k (stream_start d (v_socks w ! k)) w" by (simp add: server_vt_def)
    with serving_inv_put[OF si kw, of "stream_start d (v_socks w ! k)"]
    have "serving_inv pk a ?os {k} v'" "sh_reading (v_socks v' ! k)"
      using kw by (simp_all add: stream_start_def put_sock_def)
    then have "serving_inv pk a ?os {} v'"
      unfolding serving_inv_def by (elim conjE conns_invE) (auto intro!: conns_invI simp: conns_at_def)
    with v'_eq show ?thesis by (simp add: len server_vt_def)
  qed
qed

text \<open>Accepting opens a socket to which nothing was written.\<close>

lemma replies_inv_accept:
  assumes inv: "replies_inv pk a os v" and "q_requests v' = q_requests v" "v_net v' = v_net v"
    and "length (v_socks v) \<le> length (v_socks v')" "length (v_socks v') \<le> Suc (length (v_socks v))"
    and "\<And>k. counted k v' \<Longrightarrow> counted k v \<or> length (v_socks v) = Suc k" "\<exists>c. length (v_socks v) = Suc c"
  shows "replies_inv pk a os v'"
proof -
  have "\<exists>rs. sent_to pk a os v' k rs" for k
  proof (cases "Suc k < length (v_socks v)")
    case True
    from inv obtain rs where rs: "sent_to pk a os v k rs" unfolding replies_inv_def by blast
    have "sent_to pk a os v' k rs"
      by (rule sent_to_frame[OF rs]) (use assms(2-5) assms(6)[of k] True in \<open>auto simp: is_sent_def get_msgid_def\<close>)
    then show ?thesis by blast
  next
    case False
    with inv have "v_net v k = []" by (simp add: replies_inv_def)
    then have "sent_to pk a os v' k []" using assms(3) by (simp add: sent_to_def whole_def)
    then show ?thesis by blast
  qed
  with assms show ?thesis by (simp add: replies_inv_def) (metis order.strict_trans2)
qed

lemma server_accept_inv:
  assumes inv: "serving_inv pk a os {} v" and t: "v_stran v = Some t" "ts_accepting t"
  shows "serving_inv pk a os {} (snd (on_accept a d err v))"
proof -
  from inv t obtain c where al: "v_alive v" "v_dp v" and at: "conns_at a {} t c (v_socks v)" 
    by (auto simp: serving_inv_def conns_inv_def)
  have c: "length (v_socks v) = Suc c" "ts_conn t = Some c" using at by (simp_all add: conns_at_def)
  have new: "c \<notin> set (ts_connections t)" using at t(2) by (auto simp: conns_at_def)
  note accept = replies_inv_accept[of pk a os v]
  let ?o = "(v_socks v ! c)\<lparr>sh_open := True\<rparr>"
  let ?t = "t\<lparr>ts_connections := c # ts_connections t\<rparr>"
  let ?a = "\<lambda>t. t\<lparr>ts_conn := Some (Suc c), ts_accepting := True\<rparr>"
  consider (failed) "err \<noteq> 0" | (lost) "err = 0" "remote_endpoint a c (v_net v) \<noteq> None"
    | (accepted) "err = 0" "remote_endpoint a c (v_net v) = None" by blast
  then show ?thesis
  proof cases
    case failed
    then have "snd (on_accept a d err v) = v\<lparr>v_socks := v_socks v @ [new_stream_handler d], v_stran := Some (?a t)\<rparr>" (is "_ = ?v")
      using t al(1) c by (simp add: on_accept_def start_accept_def)
    moreover have "conns_at a {} (?a t) (Suc c) (v_socks ?v)"
      using at t(2) by (auto simp: conns_at_def nth_append new_stream_handler_def less_Suc_eq le_Suc_eq)
    then have "conns_inv a {} ?v" using al by (intro conns_invI) simp_all
    moreover have "replies_inv pk a os ?v" by (rule accept) (use inv c t(1) in \<open>auto simp: serving_inv_def counted_def\<close>)
    ultimately show ?thesis by (simp add: serving_inv_def)
  next
    case lost
    then have "snd (on_accept a d err v) = v\<lparr>v_socks := (v_socks v)[c := ?o], v_stran := Some (?t\<lparr>ts_accepting := False\<rparr>)\<rparr>" (is "_ = ?v")
      using t c new by (auto simp: on_accept_def put_sock_def Let_def)
    moreover have "peer_lost a c" using lost(2) by (auto simp: peer_lost_def)
    then have "conns_at a {} (?t\<lparr>ts_accepting := False\<rparr>) c (v_socks ?v)"
      using at t(2) new by (auto simp: conns_at_def nth_list_update_if)
    then have "conns_inv a {} ?v" using al by (intro conns_invI) simp_all
    moreover have "replies_inv pk a os ?v" by (rule accept) (use inv c t(1) in \<open>auto simp: serving_inv_def counted_def\<close>)
    ultimately show ?thesis by (simp add: serving_inv_def)
  next
    case accepted
    then have "snd (on_accept a d err v) =
        v\<lparr>v_socks := (v_socks v)[c := stream_start d ?o] @ [new_stream_handler d], v_stran := Some (?a ?t)\<rparr>" (is "_ = ?v")
      using t al(1) c new by (simp add: on_accept_def start_accept_def put_sock_def Let_def)
    moreover have "conns_at a {} (?a ?t) (Suc c) (v_socks ?v)"
      using at t(2) new
      by (auto simp: conns_at_def nth_append nth_list_update_if new_stream_handler_def stream_start_def less_Suc_eq le_Suc_eq)
    then have "conns_inv a {} ?v" using al by (intro conns_invI) simp_all
    moreover have "replies_inv pk a os ?v" by (rule accept) (use inv c t(1) in \<open>auto simp: serving_inv_def counted_def\<close>)
    ultimately show ?thesis by (simp add: serving_inv_def)
  qed
qed

lemma server_start_inv:
  assumes "base_listen a d addr (new_server lo (\<lambda>k. [])) = (None, v)" "v_net v = (\<lambda>k. [])"
  shows "serving_inv pk a [] {} v"
proof -
  have "q_requests v = []" "v_alive v" "v_dp v" "v_socks v = [new_stream_handler d]"
    "\<exists>t. v_stran v = Some t \<and> ts_acceptor t \<and> ts_accepting t \<and> ts_conn t = Some 0 \<and> ts_connections t = []"
    using assms(1) by (auto simp: base_listen_def serve_def server_listen_defs new_server_def start_accept_def
        split: prod.splits sum.splits)
  moreover from this have "sent_to pk a [] v k []" for k using assms(2) by (simp add: sent_to_def whole_def)
  ultimately show ?thesis
    using assms(2) by (auto simp: serving_inv_def conns_inv_def conns_at_def replies_inv_def new_stream_handler_def)
qed

lemma server_run_inv:
  assumes "server_run pk a d prog os v" "server_env a d prog"
  shows "serving_inv pk a os {} v"
  using assms(1)
proof induction
  case (srv_start addr lo v)
  then show ?case by (rule server_start_inv)
next
  case (srv_accept os v t err)
  then show ?case by (intro server_accept_inv)
next
  case (srv_read os v k v' err bytes)
  then show ?case by (intro serving_read_inv[OF _ assms(2)])
next
  case (srv_reply os v q r)
  then show ?case using server_reply_inv[OF srv_reply.IH assms(2) srv_reply.hyps(2)] by (metis prod.collapse)
next
  case (srv_loop os v lo)
  then show ?case
    using conns_inv_cong[of "v\<lparr>v_loop := lo\<rparr>" v a] replies_inv_frame[of pk a os v "v\<lparr>v_loop := lo\<rparr>"] by (simp add: serving_inv_def counted_def)
qed

section \<open>A sample run\<close>

text \<open>
  Two connections, each with a request under the same identifier; the second is answered first. Then the
  peer of a third connection is gone (\<^verbatim>\<open>ENOTCONN\<close>) when it is accepted.
\<close>

definition two_asio :: "(nat, wire, nat \<Rightarrow> wire list) server_asio" where
  "two_asio = \<lparr>sock_listen = (\<lambda>ad n. (Inr ad, n)), server_write = (\<lambda>k bs n. (None, n(k := n k @ bs))),
     remote_endpoint = (\<lambda>k n. if k = 2 then Some 107 else None)\<rparr>"

definition two_prog :: "msg_value object \<Rightarrow> msg_value object \<Rightarrow> msg_value reply list \<times> exn option" where
  "two_prog m p = (if m = Opaque (Str ''later'') then ([], None) else ([Result p], None))"

definition two_server :: "(msg_value, nat, wire list, nat \<Rightarrow> wire list) server" where
  "two_server = snd (on_accept two_asio codec_decoder 0 (snd (on_accept two_asio codec_decoder 0
     (snd (base_listen two_asio codec_decoder (Address 1 80) (new_server new_loop (\<lambda>k. [])))))))"

definition two_read :: "nat \<Rightarrow> wire list \<Rightarrow> (msg_value, nat, wire list, nat \<Rightarrow> wire list) server \<Rightarrow>
    (msg_value, nat, wire list, nat \<Rightarrow> wire list) server" where
  "two_read k bytes v = snd (stream_on_read codec_decoder (server_vt two_asio (program_dispatch codec_packer two_asio two_prog) k) 0 bytes v)"

definition two_waiting :: "(msg_value, nat, wire list, nat \<Rightarrow> wire list) server" where
  "two_waiting = two_read 0 [Head, Body (Req ''later'' [NIL] 5)] two_server"

definition two_done :: "(msg_value, nat, wire list, nat \<Rightarrow> wire list) server" where
  "two_done = snd (request_reply codec_packer (server_ms_send two_asio) 0 Result_nil
     (two_read (Suc 0) [Head, Body (Req ''now'' [] 5)] two_waiting))"

lemma two_server_eq:
  "two_server = \<lparr>q_requests = [], v_dp = True, v_alive = True,
     v_stran = Some \<lparr>ts_acceptor = True, ts_accepting = True, ts_conn = Some 2, ts_local = Address 1 80, ts_connections = [1, 0]\<rparr>,
     v_socks = [\<lparr>sh_pac = [], sh_open = True, sh_reading = True\<rparr>, \<lparr>sh_pac = [], sh_open = True, sh_reading = True\<rparr>,
       \<lparr>sh_pac = [], sh_open = False, sh_reading = False\<rparr>], v_loop = new_loop, v_net = (\<lambda>k. [])\<rparr>"
  by (simp add: two_server_def on_accept_def base_listen_def serve_def server_listen_defs start_accept_def two_asio_def
      codec_decoder_def new_server_def put_sock_def stream_start_def new_stream_handler_def Let_def numeral_eq_Suc)

lemmas two_read_defs = two_read_def stream_on_read_def stream_on_message_def set_pac_def server_vt_def put_sock_def
  sock_on_request_def server_on_request_def dispatch_new_def program_dispatch_def two_prog_def codec_decoder_def
  new_request_impl_def new_msg_request_def stream_start_def Let_def

lemma two_waiting_eq:
  "two_waiting = two_server\<lparr>q_requests := [new_request_impl (Some 0) 5 (Opaque (Str ''later'')) (Opaque (Arr [NIL])) (Some 0)]\<rparr>"
  by (simp add: two_waiting_def two_server_eq two_read_defs)

lemma two_env: "server_env two_asio codec_decoder two_prog"
  by (auto simp: server_env_def two_asio_def codec_decoder_def two_prog_def Let_def split: prod.split)

lemma two_done_facts:
  "v_net two_done 0 = [Head, Body (Res NIL NIL 5)]" "v_net two_done (Suc 0) = [Head, Body (Res (Opaque (Arr [])) NIL 5)]"
  "length (v_socks two_done) = 3" "sh_open (v_socks two_done ! 0)" "sh_open (v_socks two_done ! Suc 0)" "length (q_requests two_done) = 2"
  by (simp_all add: two_done_def two_waiting_eq two_server_eq two_read_defs request_call_def is_sent_def get_msgid_def
      request_send_data_def server_ms_send_def stream_send_data_def server_sock_write_def two_asio_def codec_packer_def new_msg_response_def)

lemma two_done_accepting: "v_stran two_done = Some t \<Longrightarrow> ts_accepting t"
  by (auto simp add: two_done_def two_waiting_eq two_server_eq two_read_defs request_call_def is_sent_def get_msgid_def
      request_send_data_def server_ms_send_def stream_send_data_def server_sock_write_def two_asio_def codec_packer_def new_msg_response_def)

lemma two_done_run: "server_run codec_packer two_asio codec_decoder two_prog [0, Suc 0] two_done"
proof -
  let ?run = "server_run codec_packer two_asio codec_decoder two_prog"
  define v0 where "v0 = snd (base_listen two_asio codec_decoder (Address 1 80) (new_server new_loop (\<lambda>k. [])))"
  define v1 where "v1 = snd (on_accept two_asio codec_decoder 0 v0)"
  have v0: "base_listen two_asio codec_decoder (Address 1 80) (new_server new_loop (\<lambda>k. [])) = (None, v0)"
      "v_net v0 = (\<lambda>k. [])" "\<exists>t. v_stran v0 = Some t \<and> ts_accepting t" "\<exists>t. v_stran v1 = Some t \<and> ts_accepting t"
    by (simp_all add: v0_def v1_def on_accept_def base_listen_def serve_def server_listen_defs start_accept_def two_asio_def
        codec_decoder_def new_server_def put_sock_def stream_start_def new_stream_handler_def Let_def)
  have "?run [] v0" by (rule srv_start[OF v0(1,2)])
  with v0(3) have "?run [] v1" unfolding v1_def by (blast intro: srv_accept)
  with v0(4) have s: "?run [] two_server" unfolding two_server_def v0_def[symmetric] v1_def[symmetric] by (blast intro: srv_accept)
  have "?run ([] @ replicate (length (q_requests two_waiting) - length (q_requests two_server)) 0) two_waiting"
    by (rule srv_read[OF s]) (simp_all add: two_server_eq two_waiting_def two_read_def)
  then have w: "?run [0] two_waiting" by (simp add: two_waiting_eq two_server_eq)
  let ?v = "two_read (Suc 0) [Head, Body (Req ''now'' [] 5)] two_waiting"
  have "?run ([0] @ replicate (length (q_requests ?v) - length (q_requests two_waiting)) (Suc 0)) ?v"
    by (rule srv_read[OF w]) (simp_all add: two_waiting_eq two_server_eq two_read_def)
  moreover have len: "length (q_requests ?v) = 2" "length (q_requests two_waiting) = 1"
    by (simp_all add: two_waiting_eq two_server_eq two_read_defs request_call_def is_sent_def get_msgid_def
      request_send_data_def server_ms_send_def stream_send_data_def server_sock_write_def two_asio_def codec_packer_def new_msg_response_def)
  ultimately have "?run [0, Suc 0] ?v" by (simp add: numeral_2_eq_2)
  then show ?thesis unfolding two_done_def by (rule srv_reply) (use len in linarith)
qed

definition two_lost :: "(msg_value, nat, wire list, nat \<Rightarrow> wire list) server" where
  "two_lost = snd (on_accept two_asio codec_decoder 0 two_done)"

lemma two_lost_run:
  "server_run codec_packer two_asio codec_decoder two_prog [0, Suc 0] two_lost"
  "counted 0 two_lost" "counted (Suc 0) two_lost" "v_stran two_lost = Some t \<Longrightarrow> ts_conn t = Some 2"
proof -
  have ci: "conns_inv two_asio {} two_done" using server_run_inv[OF two_done_run two_env] by (simp add: serving_inv_def)
  then obtain t c where t: "v_stran two_done = Some t" "conns_at two_asio {} t c (v_socks two_done)"
    by (auto simp: conns_inv_def)
  have c: "c = 2" "length (v_socks two_done) = 3" using t(2) two_done_facts(3) by (simp_all add: conns_at_def)
  have not_lost: "\<not> peer_lost two_asio 0" "\<not> peer_lost two_asio (Suc 0)" by (simp_all add: peer_lost_def two_asio_def)
  have in_conns: "0 \<in> set (ts_connections t)" "Suc 0 \<in> set (ts_connections t)"
    using open_counted[OF ci _ two_done_facts(4) not_lost(1)] open_counted[OF ci _ two_done_facts(5) not_lost(2)] t(1) c(2)
    by (simp_all add: counted_def)
  have acc: "ts_accepting t" "ts_conn t = Some 2" using two_done_accepting t(1) t(2) by (auto simp: conns_at_def c(1))
  show "server_run codec_packer two_asio codec_decoder two_prog [0, Suc 0] two_lost"
    unfolding two_lost_def by (rule srv_accept[OF two_done_run t(1) acc(1)])
  show "counted 0 two_lost" "counted (Suc 0) two_lost" "v_stran two_lost = Some t' \<Longrightarrow> ts_conn t' = Some 2" for t'
    using t(1) acc(2) in_conns by (auto simp: two_lost_def on_accept_def Let_def two_asio_def put_sock_def counted_def)
qed

section \<open>Properties\<close>



text \<open>
  C18: Answers go where the requests came from: in every run, what was written to a connection are replies
  to requests that arrived on this connection, under their identifiers, each request answered at most
  once, also if other connections use the same identifiers, and whenever the program answers. A reply
  whose write failed may be cut off: not on a connection that is still counted, where all are whole, and
  only the last one if the peer is not lost. (If the peer is lost, \<open>stop\<close> leaves the failed socket open,
  and a later reply may follow the one that was cut off.)
\<close>

theorem replies_isolated:
  assumes "server_run pk a d prog os v" "server_env a d prog"
  shows "\<exists>rs. distinct (map fst rs) \<and>
    (\<forall>(q, r, p) \<in> set rs. q < length (q_requests v) \<and> is_sent q v \<and> os ! q = k \<and>
       prefix p (outbuf_bytes (reply_buf pk (get_msgid q v) r))) \<and>
    v_net v k = concat (map (\<lambda>(q, r, p). p) rs) \<and>
    (counted k v \<longrightarrow> (\<forall>(q, r, p) \<in> set rs. p = outbuf_bytes (reply_buf pk (get_msgid q v) r))) \<and>
    (\<not> peer_lost a k \<longrightarrow> (\<forall>(q, r, p) \<in> set (butlast rs). p = outbuf_bytes (reply_buf pk (get_msgid q v) r)))"
proof -
  have "\<exists>rs. sent_to pk a os v k rs" using server_run_inv[OF assms] unfolding serving_inv_def replies_inv_def by blast
  then show ?thesis unfolding sent_to_def whole_def reply_bytes_def .
qed

lemma replies_isolated_witness:
  "\<exists>rs. distinct (map fst rs) \<and> [Head, Body (Res (Opaque (Arr [])) NIL 5)] = concat (map (\<lambda>(q, r, p). p) rs) \<and>
    (\<forall>(q, r, p) \<in> set rs. [0, Suc 0] ! q = Suc 0 \<and> p = outbuf_bytes (reply_buf codec_packer (get_msgid q two_lost) r))"
proof -
  have net: "v_net two_lost = v_net two_done"
    by (simp add: two_lost_def on_accept_def Let_def put_sock_def start_accept_def split: option.split)
  from replies_isolated[OF two_lost_run(1) two_env, of "Suc 0"] obtain rs where rs: "distinct (map fst rs)"
    "\<forall>(q, r, p) \<in> set rs. q < length (q_requests two_lost) \<and> is_sent q two_lost \<and> [0, Suc 0] ! q = Suc 0 \<and>
       prefix p (outbuf_bytes (reply_buf codec_packer (get_msgid q two_lost) r))"
    "v_net two_lost (Suc 0) = concat (map (\<lambda>(q, r, p). p) rs)"
    "counted (Suc 0) two_lost \<longrightarrow> (\<forall>(q, r, p) \<in> set rs. p = outbuf_bytes (reply_buf codec_packer (get_msgid q two_lost) r))"
    by (elim exE conjE) (rule that)
  show ?thesis
    by (intro exI[of _ rs] conjI) (use rs(1,2) rs(3) rs(4)[rule_format, OF two_lost_run(3)] net in \<open>auto simp: two_done_facts(2)\<close>)
qed

end
