(* ===== verification/RPC_Reconnect.thy ===== *)
theory RPC_Reconnect
  imports RPC_Tcp
begin

text \<open>
  A client that loses its connection and connects again (\<^verbatim>\<open>transport/tcp.cc\<close>,
  \<^verbatim>\<open>transport/stream_handler.cc\<close>). The socket object of a session is used for all its connections: a
  failed write closes it, the next call connects it again and starts a read. The read that was
  pending on the lost connection is aborted by the close; Boost delivers this completion to the
  event loop, where it may run before or after the next call.
\<close>

section \<open>Definitions\<close>

definition ECANCELED :: errno where "ECANCELED = 125"   \<comment> \<open>\<^verbatim>\<open>boost::asio::error::operation_aborted\<close>\<close>

text \<open>The completion of an aborted read.\<close>

definition aborted_read ::
  "('x, 'b, 'u) decoder \<Rightarrow> sid \<Rightarrow> ('x, 'ip, 'u tcp_client, 'n, 'z) world_scheme \<Rightarrow>
   exn option \<times> ('x, 'ip, 'u tcp_client, 'n, 'z) world_scheme"
where
  "aborted_read d s w = handle_client_event d (Ev_read s ECANCELED []) w"

text \<open>A session whose connection is up: it is read from, and the loop of the session runs.\<close>

definition connected :: "sid \<Rightarrow> ('x, 'ip, 'u tcp_client, 'n, 'z) world_scheme \<Rightarrow> bool" where
  "connected s w \<longleftrightarrow>
     table_wf w \<and> s < length (w_sessions w) \<and> 0 < s_handles (ses w s) \<and> loop_running w s \<and>
     sh_open (tc_conn (tcp w s)) \<and> sh_reading (tc_conn (tcp w s))"

section \<open>Lost connections\<close>

lemma on_system_error_frame:
  assumes "s < length (w_sessions w)"
  shows "w_net (on_system_error s err w) = w_net w" "h_loops (on_system_error s err w) = h_loops w"
    "s_addr (ses (on_system_error s err w) s) = s_addr (ses w s)" "s_loop (ses (on_system_error s err w) s) = s_loop (ses w s)"
    "s_handles (ses (on_system_error s err w) s) = s_handles (ses w s)"
    "length (h_futures (on_system_error s err w)) = length (h_futures w)"
    "(k, f) \<in> set (table w s) \<Longrightarrow> f < length (h_futures w) \<Longrightarrow>
       fut (on_system_error s err w) f = failed_with CONNECT_ERROR (fut w f)"
    "table w s = [] \<Longrightarrow> h_futures (on_system_error s err w) = h_futures w"
  using assms
  by (simp_all add: fail_all_eq put_table_def ses_put_session) (force simp: fut_complete_all)

lemma client_error_simps:
  assumes "s < length (w_sessions w)" "session_alive w s" "w' = client_on_system_error s err w"
  shows "tc_conn (tcp w' s) = (tc_conn (tcp w s))\<lparr>sh_open := False\<rparr>" "table w' s = []" "w_net w' = w_net w"
    "h_loops w' = h_loops w" "length (w_sessions w') = length (w_sessions w)" "s_addr (ses w' s) = s_addr (ses w s)"
    "s_loop (ses w' s) = s_loop (ses w s)" "s_handles (ses w' s) = s_handles (ses w s)"
    "length (h_futures w') = length (h_futures w)"
    "(k, f) \<in> set (table w s) \<Longrightarrow> f < length (h_futures w) \<Longrightarrow> fut w' f = failed_with CONNECT_ERROR (fut w f)"
    "table w s = [] \<Longrightarrow> h_futures w' = h_futures w"
  using assms
  by (simp_all add: client_on_system_error_def tcp_close_socket_def conn_put_conn Let_def on_system_error_frame)

text \<open>A call whose write fails: it returns a future that is already completed.\<close>

lemma call_write_fails:
  assumes "connected s w"
    and "sock_write a s (outbuf_bytes (request_buf pk m p z (s_msgid_rr (ses w s)))) (w_net w) = (Some ec, n)"
  shows "\<exists>w'. send_request pk (tcp_send_data a d) s m p z w =
      (Inr \<lparr>fu_method = m, fu_pimpl = Some (length (h_futures w))\<rparr>, w') \<and>
    table_wf w' \<and> s < length (w_sessions w') \<and> 0 < s_handles (ses w' s) \<and> loop_running w' s \<and> w_net w' = n \<and>
    tc_conn (tcp w' s) = (tc_conn (tcp w s))\<lparr>sh_open := False\<rparr> \<and> table w' s = [] \<and> s_addr (ses w' s) = s_addr (ses w s) \<and>
    length (h_futures w') = Suc (length (h_futures w)) \<and>
    ready w' (length (h_futures w)) \<and> f_error (fut w' (length (h_futures w))) = CONNECT_ERROR"
proof -
  have c: "table_wf w" "s < length (w_sessions w)" "0 < s_handles (ses w s)" "loop_running w s" "sh_open (tc_conn (tcp w s))"
    using assms(1) by (simp_all add: connected_def)
  let ?b = "request_buf pk m p z (s_msgid_rr (ses w s))"
  define r where "r = (registered s w)\<lparr>w_net := n\<rparr>"
  have r: "s < length (w_sessions r)" "session_alive r s" "table_wf r"
    using c registered_wf[OF c(1,2)] by (simp_all add: r_def registered_simps session_alive_def use_count_def table_wf_net)
  have rt: "tcp r s = tcp w s" "loop_running r s" "s_addr (ses r s) = s_addr (ses w s)" "s_handles (ses r s) = s_handles (ses w s)"
    "length (h_futures r) = Suc (length (h_futures w))" "w_net r = n"
    using c by (simp_all add: r_def registered_simps)
  define w' where "w' = client_on_system_error s ec r"
  note e = client_error_simps[OF r(1,2) w'_def]
  have "tcp_send_data a d s ?b (registered s w) = (None, w')"
    using c assms(2)
    by (simp add: tcp_send_data_def flush_running registered_simps stream_send_data_def tcp_client_vt_def tcp_sock_write_def
        w'_def r_def)
  then have "send_request pk (tcp_send_data a d) s m p z w =
      (Inr \<lparr>fu_method = m, fu_pimpl = Some (length (h_futures w))\<rparr>, w')" by (simp add: send_request_eq)
  moreover have "fut w' (length (h_futures w)) = failed_with CONNECT_ERROR (fut r (length (h_futures w)))"
    by (rule e(10)) (use registered_entry[OF c(1,2)] rt(5) in \<open>simp_all add: r_def\<close>)
  moreover have "table_wf w'"
    unfolding w'_def by (rule retiring.rel_ok[OF r(3) retiring.socket_error_rel[OF r(3,1)]])
  ultimately show ?thesis
    using e rt r(1) c(3) by (intro exI[of _ w']) (simp add: failed_with_def is_ready_def)
qed

text \<open>The completion of an aborted read fails whatever the session waits for, and closes the socket.\<close>

lemma aborted_read_fails:
  assumes "table_wf w" "s < length (w_sessions w)" "session_alive w s" "aborted_read d s w = (e, w')"
  shows "e = None" "table_wf w'" "s < length (w_sessions w')" "s_handles (ses w' s) = s_handles (ses w s)"
    "h_loops w' = h_loops w" "s_loop (ses w' s) = s_loop (ses w s)" "s_addr (ses w' s) = s_addr (ses w s)" "w_net w' = w_net w"
    "\<not> sh_open (tc_conn (tcp w' s))" "\<not> sh_reading (tc_conn (tcp w' s))" "table w' s = []"
    "length (h_futures w') = length (h_futures w)"
    "(k, f) \<in> set (table w s) \<Longrightarrow> fut w' f = failed_with CONNECT_ERROR (fut w f)"
    "table w s = [] \<Longrightarrow> h_futures w' = h_futures w"
proof -
  let ?vt = "tcp_client_vt s"
  define r where "r = tcp_put_conn s ((tc_conn (tcp w s))\<lparr>sh_reading := False\<rparr>) w"
  define c where "c = client_on_system_error s ECANCELED r"
  have r: "s < length (w_sessions r)" "session_alive r s" "table r s = table w s" "h_futures r = h_futures w"
    using assms(2,3) by (simp_all add: r_def session_alive_def use_count_def)
  note e = client_error_simps[OF r(1,2) c_def]
  have st: "aborted_read d s w = (None, set_pac ?vt (pac_remove_nonparsed d (sh_pac (vt_get ?vt c))) c)"
    by (simp add: aborted_read_def stream_on_read_def stream_fail_def ECANCELED_def tcp_client_vt_def Let_def
        flip: r_def c_def[unfolded ECANCELED_def])
  then show "e = None" using assms(4) by simp
  have w': "w' = tcp_put_conn s ((tc_conn (tcp c s))\<lparr>sh_pac := pac_remove_nonparsed d (sh_pac (tc_conn (tcp c s)))\<rparr>) c"
    using st assms(4) by (simp add: set_pac_def tcp_client_vt_def)
  have len: "s < length (w_sessions c)" using e(5) r(1) by simp
  show "table_wf w'"
    using retiring.event_rel[OF assms(1), of "Ev_read s ECANCELED []" d] assms(2,4) retires_table_wf[OF _ assms(1)]
    by (simp add: aborted_read_def event_valid_def)
  show "s < length (w_sessions w')" "s_handles (ses w' s) = s_handles (ses w s)" "h_loops w' = h_loops w"
    "s_loop (ses w' s) = s_loop (ses w s)" "s_addr (ses w' s) = s_addr (ses w s)" "w_net w' = w_net w"
    "\<not> sh_open (tc_conn (tcp w' s))" "\<not> sh_reading (tc_conn (tcp w' s))" "table w' s = []"
    "length (h_futures w') = length (h_futures w)"
    using e len assms(2) by (simp_all add: w' conn_put_conn r_def)
  show "fut w' f = failed_with CONNECT_ERROR (fut w f)" if "(k, f) \<in> set (table w s)"
    using e(10)[of k f] that table_wfD(3)[OF assms(1,2) that] by (simp add: w' r(3,4))
  show "h_futures w' = h_futures w" if "table w s = []" using e(11) that by (simp add: w' r(3,4))
qed

lemma call_reconnects:
  assumes "table_wf w" "s < length (w_sessions w)" "loop_running w s" "\<not> sh_open (tc_conn (tcp w s))"
    and "sock_connect a s (s_addr (ses w s)) (w_net w) = (0, True, n)"
    and "sock_write a s (outbuf_bytes (request_buf pk m p z (s_msgid_rr (ses w s)))) n = (None, n')"
  shows "\<exists>w'. send_request pk (tcp_send_data a d) s m p z w =
      (Inr \<lparr>fu_method = m, fu_pimpl = Some (length (h_futures w))\<rparr>, w') \<and>
    table_wf w' \<and> s < length (w_sessions w') \<and> sh_open (tc_conn (tcp w' s)) \<and> sh_reading (tc_conn (tcp w' s)) \<and> w_net w' = n' \<and>
    session_alive w' s \<and> (s_msgid_rr (ses w s), length (h_futures w)) \<in> set (table w' s) \<and> \<not> ready w' (length (h_futures w))"
proof -
  let ?b = "request_buf pk m p z (s_msgid_rr (ses w s))"
  let ?r = "registered s w"
  have pre: "loop_running ?r s" "s < length (w_sessions ?r)" "\<not> sh_open (tc_conn (tcp ?r s))"
    "sock_connect a s (s_addr (ses ?r s)) (w_net ?r) = (0, True, n)"
    using assms by (simp_all add: registered_simps)
  from tcp_send_data_accepted[OF pre assms(6), of d] obtain w' where w': "tcp_send_data a d s ?b ?r = (None, w')"
    "sh_open (tc_conn (tcp w' s))" "sh_reading (tc_conn (tcp w' s))" "w_net w' = n'" "h_futures w' = h_futures ?r" "table w' s = table ?r s"
    "length (w_sessions w') = length (w_sessions ?r)" by blast
  have wf: "table_wf ?r" by (rule registered_wf[OF assms(1,2)])
  have "table_wf w'"
    using retires_table_wf[OF _ wf] tcp_send_data_retires[OF wf pre(2), of a d ?b] w'(1) by simp
  then show ?thesis
    using w' registered_entry[OF assms(1,2)] assms(2) by (simp add: send_request_eq registered_simps is_ready_def
        new_future_impl_def session_alive_def use_count_def)
qed

section \<open>Properties\<close>

text \<open>A connection whose first write fails, to a peer that accepts the next connection.\<close>

definition broken_asio :: "(nat, nat, nat) asio" where
  "broken_asio =
     \<lparr>sock_connect = (\<lambda>s ad n. (0, True, n + 1)),
      sock_write = (\<lambda>s bs n. if n = 0 then (Some 32, 1) else (None, n + length bs)), io_poll = (\<lambda>n. ([], n))\<rparr>"

lemma broken_write:
  "sock_write broken_asio 0 (outbuf_bytes (request_buf sample_packer m p z (s_msgid_rr (ses (sample_client True) 0))))
     (w_net (sample_client True)) = (Some 32, 1)"
  "sock_connect broken_asio 0 (s_addr (ses (sample_client True) 0)) 1 = (0, True, 2)"
  "sock_write broken_asio 0 (outbuf_bytes (request_buf sample_packer m p None i)) 2 = (None, 4)"
  by (simp_all add: broken_asio_def sample_client_simps request_buf_def sample_packer_def)

lemma sample_connected: "connected 0 (sample_client True)"
  by (simp add: connected_def sample_client_simps)

text \<open>
  C16: A session recovers from a lost connection: if the write of a call fails, its future is completed
  with \<open>CONNECT_ERROR\<close> and the socket is closed; when the aborted read has completed, the next call
  connects again, writes its request to the new connection, where it is the only write since the
  connection was made, and waits for the answer in the request table.
\<close>

theorem session_reconnects:
  assumes "connected s w"
    and "sock_write a s (outbuf_bytes (request_buf pk m p z (s_msgid_rr (ses w s)))) (w_net w) = (Some ec, n)"
    and "send_request pk (tcp_send_data a d) s m p z w = (r1, w1)" "aborted_read d s w1 = (e, w2)"
    and "sock_connect a s (s_addr (ses w s)) n = (0, True, n1)"
    and "sock_write a s (outbuf_bytes (request_buf pk m' p' z' (s_msgid_rr (ses w2 s)))) n1 = (None, n2)"
    and "send_request pk (tcp_send_data a d) s m' p' z' w2 = (r2, w3)"
  shows "ready w2 (length (h_futures w)) \<and> f_error (fut w2 (length (h_futures w))) = CONNECT_ERROR \<and>
    \<not> sh_open (tc_conn (tcp w2 s)) \<and> e = None \<and>
    r2 = Inr \<lparr>fu_method = m', fu_pimpl = Some (Suc (length (h_futures w)))\<rparr> \<and>
    sh_open (tc_conn (tcp w3 s)) \<and> sh_reading (tc_conn (tcp w3 s)) \<and> w_net w3 = n2 \<and>
    (s_msgid_rr (ses w2 s), Suc (length (h_futures w))) \<in> set (table w3 s) \<and> \<not> ready w3 (Suc (length (h_futures w)))"
proof -
  from call_write_fails[OF assms(1,2), of d] assms(3) have 1: "table_wf w1" "s < length (w_sessions w1)"
    "0 < s_handles (ses w1 s)" "loop_running w1 s" "w_net w1 = n" "table w1 s = []" "s_addr (ses w1 s) = s_addr (ses w s)"
    "length (h_futures w1) = Suc (length (h_futures w))" "ready w1 (length (h_futures w))"
    "f_error (fut w1 (length (h_futures w))) = CONNECT_ERROR" by auto
  have "session_alive w1 s" using 1 by (simp add: session_alive_def use_count_def)
  note 2 = aborted_read_fails[OF 1(1,2) this assms(4)]
  have "fut w2 (length (h_futures w)) = fut w1 (length (h_futures w))" using 2(14)[OF 1(6)] by simp
  moreover have "loop_running w2 s" "sock_connect a s (s_addr (ses w2 s)) (w_net w2) = (0, True, n1)"
    using 1 2 assms(5) by simp_all
  from call_reconnects[OF 2(2,3) this(1) 2(9) this(2) assms(6), of d] assms(7) 2(12) 1(8)
  have "r2 = Inr \<lparr>fu_method = m', fu_pimpl = Some (Suc (length (h_futures w)))\<rparr>" "sh_open (tc_conn (tcp w3 s))"
    "sh_reading (tc_conn (tcp w3 s))" "w_net w3 = n2" "(s_msgid_rr (ses w2 s), Suc (length (h_futures w))) \<in> set (table w3 s)"
    "\<not> ready w3 (Suc (length (h_futures w)))" by simp_all
  ultimately show ?thesis using 1 2(1,9) by simp
qed

lemma session_reconnects_witness:
  "\<exists>r1 w1 e w2 r2 w3.
     send_request sample_packer (tcp_send_data broken_asio sample_decoder) 0 ''f'' [] None (sample_client True) = (r1, w1) \<and>
     aborted_read sample_decoder 0 w1 = (e, w2) \<and>
     send_request sample_packer (tcp_send_data broken_asio sample_decoder) 0 ''g'' [] None w2 = (r2, w3) \<and>
     f_error (fut w2 0) = CONNECT_ERROR \<and> sh_open (tc_conn (tcp w3 0)) \<and> w_net w3 = 4 \<and> \<not> ready w3 1"
proof -
  obtain r1 w1 where 1: "send_request sample_packer (tcp_send_data broken_asio sample_decoder) 0 ''f'' [] None (sample_client True) = (r1, w1)"
    by (cases "send_request sample_packer (tcp_send_data broken_asio sample_decoder) 0 ''f'' [] None (sample_client True)")
  obtain e w2 where 2: "aborted_read sample_decoder 0 w1 = (e, w2)" by (cases "aborted_read sample_decoder 0 w1")
  obtain r2 w3 where 3: "send_request sample_packer (tcp_send_data broken_asio sample_decoder) 0 ''g'' [] None w2 = (r2, w3)"
    by (cases "send_request sample_packer (tcp_send_data broken_asio sample_decoder) 0 ''g'' [] None w2")
  show ?thesis
    using session_reconnects[OF sample_connected broken_write(1) 1 2 broken_write(2,3) 3] 1 2 3 by (auto simp: sample_client_simps)
qed

text \<open>
  C35: The aborted read of a lost connection may hit the next one: if it completes only after the next
  call has connected again, it closes the new connection and completes the new call with
  \<open>CONNECT_ERROR\<close>, although the peer has accepted that connection and the request was written to it.
\<close>

theorem stale_read_fails_next_call:
  assumes "connected s w"
    and "sock_write a s (outbuf_bytes (request_buf pk m p z (s_msgid_rr (ses w s)))) (w_net w) = (Some ec, n)"
    and "send_request pk (tcp_send_data a d) s m p z w = (r1, w1)"
    and "sock_connect a s (s_addr (ses w s)) n = (0, True, n1)"
    and "sock_write a s (outbuf_bytes (request_buf pk m' p' z' (s_msgid_rr (ses w1 s)))) n1 = (None, n2)"
    and "send_request pk (tcp_send_data a d) s m' p' z' w1 = (r2, w2)" "aborted_read d s w2 = (e, w3)"
  shows "sh_reading (tc_conn (tcp w1 s)) \<and> \<not> sh_open (tc_conn (tcp w1 s)) \<and>
    r2 = Inr \<lparr>fu_method = m', fu_pimpl = Some (Suc (length (h_futures w)))\<rparr> \<and>
    sh_open (tc_conn (tcp w2 s)) \<and> w_net w2 = n2 \<and> \<not> ready w2 (Suc (length (h_futures w))) \<and>
    \<not> sh_open (tc_conn (tcp w3 s)) \<and> ready w3 (Suc (length (h_futures w))) \<and>
    f_error (fut w3 (Suc (length (h_futures w)))) = CONNECT_ERROR"
proof -
  from call_write_fails[OF assms(1,2), of d] assms(3) have 1: "table_wf w1" "s < length (w_sessions w1)"
    "loop_running w1 s" "w_net w1 = n" "tc_conn (tcp w1 s) = (tc_conn (tcp w s))\<lparr>sh_open := False\<rparr>"
    "s_addr (ses w1 s) = s_addr (ses w s)" "length (h_futures w1) = Suc (length (h_futures w))" by auto
  have c: "\<not> sh_open (tc_conn (tcp w1 s))" "sh_reading (tc_conn (tcp w1 s))"
    "sock_connect a s (s_addr (ses w1 s)) (w_net w1) = (0, True, n1)"
    using 1 assms(1,4) by (simp_all add: connected_def)
  from call_reconnects[OF 1(1-3) c(1,3) assms(5), of d] assms(6) 1(7)
  have 2: "r2 = Inr \<lparr>fu_method = m', fu_pimpl = Some (Suc (length (h_futures w)))\<rparr>" "table_wf w2" "s < length (w_sessions w2)"
    "sh_open (tc_conn (tcp w2 s))" "session_alive w2 s" "w_net w2 = n2"
    "(s_msgid_rr (ses w1 s), Suc (length (h_futures w))) \<in> set (table w2 s)" "\<not> ready w2 (Suc (length (h_futures w)))"
    by auto
  note 3 = aborted_read_fails[OF 2(2,3,5) assms(7)]
  show ?thesis using 2 3(9) 3(13)[OF 2(7)] c by (simp add: failed_with_def is_ready_def)
qed

lemma stale_read_fails_next_call_witness:
  "\<exists>r1 w1 r2 w2 e w3.
     send_request sample_packer (tcp_send_data broken_asio sample_decoder) 0 ''f'' [] None (sample_client True) = (r1, w1) \<and>
     send_request sample_packer (tcp_send_data broken_asio sample_decoder) 0 ''g'' [] None w1 = (r2, w2) \<and>
     aborted_read sample_decoder 0 w2 = (e, w3) \<and>
     sh_open (tc_conn (tcp w2 0)) \<and> \<not> sh_open (tc_conn (tcp w3 0)) \<and> f_error (fut w3 1) = CONNECT_ERROR"
proof -
  obtain r1 w1 where 1: "send_request sample_packer (tcp_send_data broken_asio sample_decoder) 0 ''f'' [] None (sample_client True) = (r1, w1)"
    by (cases "send_request sample_packer (tcp_send_data broken_asio sample_decoder) 0 ''f'' [] None (sample_client True)")
  obtain r2 w2 where 2: "send_request sample_packer (tcp_send_data broken_asio sample_decoder) 0 ''g'' [] None w1 = (r2, w2)"
    by (cases "send_request sample_packer (tcp_send_data broken_asio sample_decoder) 0 ''g'' [] None w1")
  obtain e w3 where 3: "aborted_read sample_decoder 0 w2 = (e, w3)" by (cases "aborted_read sample_decoder 0 w2")
  show ?thesis
    using stale_read_fails_next_call[OF sample_connected broken_write(1) 1 broken_write(2,3) 2 3] 1 2 3
    by (auto simp: sample_client_simps)
qed

end
