(* ===== verification/RPC_Lifetime.thy ===== *)
theory RPC_Lifetime
  imports RPC_Server
begin

text \<open>
  Which transport the handlers of a server dereference. A \<open>server_socket\<close> keeps a plain pointer to
  the \<open>server_transport\<close> that created it, and the handler of a pending accept is bound to the plain
  pointer \<^verbatim>\<open>this\<close> (\<^verbatim>\<open>transport/tcp.cc\<close>); \<open>server_impl\<close> owns the one transport that is alive and
  destroys it in \<open>listen\<close> and \<open>close\<close> (\<^verbatim>\<open>server.cc\<close>). The state of a server is extended by the
  identities of the transports and by the handlers that worker threads have taken from the loop and
  not yet run: stopping the loop keeps new handlers from being taken, but does not wait for these. A
  handler that dereferences a destroyed transport raises the flag \<open>y_dangling\<close>.
\<close>

section \<open>Definitions\<close>

text \<open>The handlers of a server: \<open>on_accept\<close> of a transport, \<open>on_read\<close> of a socket.\<close>

datatype handler = Accept_of nat | Read_on nat

record ('x, 'ip, 'u, 'n) lifetimes = "('x, 'ip, 'u, 'n) server" +
  y_tid :: nat                    \<comment> \<open>the identity of \<open>m_stran\<close>, if there is one\<close>
  y_next :: nat                   \<comment> \<open>the identity of the next transport\<close>
  y_owner :: "nat \<rightharpoonup> nat"         \<comment> \<open>\<open>m_tran\<close> of each \<open>server_socket\<close>\<close>
  y_accepts :: "nat list"         \<comment> \<open>\<^verbatim>\<open>this\<close> of each \<open>on_accept\<close> that has not run yet\<close>
  y_running :: "handler list"     \<comment> \<open>the handlers that worker threads have taken\<close>
  y_dangling :: bool

definition alive_tran :: "nat \<Rightarrow> ('x, 'ip, 'u, 'n, 'z) lifetimes_scheme \<Rightarrow> bool" where
  "alive_tran t w \<longleftrightarrow> v_stran w \<noteq> None \<and> t = y_tid w"

text \<open>
  \<^verbatim>\<open>io_service::stop\<close> is final: the wrapper never calls \<^verbatim>\<open>reset\<close>, so no handler is taken afterwards.
\<close>

definition stopped :: "loop_impl \<Rightarrow> bool" where
  "stopped lo \<longleftrightarrow> Io_stop \<in> set (l_calls lo)"

text \<open>
  A socket that \<open>start_accept\<close> has created belongs to the transport that runs it, and so does the
  accept that is now pending.
\<close>

definition adopt :: "nat \<Rightarrow> ('x, 'ip, 'u, 'n, 'z) lifetimes_scheme \<Rightarrow> ('x, 'ip, 'u, 'n, 'z) lifetimes_scheme" where
  "adopt n w =
     (if n < length (v_socks w)
      then w\<lparr>y_owner := (y_owner w)(n \<mapsto> y_tid w), y_accepts := y_tid w # y_accepts w\<rparr>
      else w)"

text \<open>A worker thread takes a handler whose operation has completed; each is taken once.\<close>

fun pending :: "handler \<Rightarrow> ('x, 'ip, 'u, 'n, 'z) lifetimes_scheme \<Rightarrow> bool" where
  "pending (Accept_of t) w = (t \<in> set (y_accepts w))"
| "pending (Read_on k) w = (k < length (v_socks w) \<and> sh_reading (v_socks w ! k))"

definition take_handler :: "handler \<Rightarrow> ('x, 'ip, 'u, 'n, 'z) lifetimes_scheme \<Rightarrow> ('x, 'ip, 'u, 'n, 'z) lifetimes_scheme" where
  "take_handler h w = w\<lparr>y_running := List.insert h (y_running w)\<rparr>"

definition handler_done :: "handler \<Rightarrow> ('x, 'ip, 'u, 'n, 'z) lifetimes_scheme \<Rightarrow> ('x, 'ip, 'u, 'n, 'z) lifetimes_scheme" where
  "handler_done h w = w\<lparr>y_running := removeAll h (y_running w)\<rparr>"

definition sock_on_system_error ::
  "('ip, 'b, 'n) server_asio \<Rightarrow> nat \<Rightarrow> ('x, 'ip, 'u, 'n, 'z) lifetimes_scheme \<Rightarrow> ('x, 'ip, 'u, 'n, 'z) lifetimes_scheme"
where
  "sock_on_system_error a k w =
     (case y_owner w k of
        None \<Rightarrow> w
      | Some t \<Rightarrow> if alive_tran t w then tran_on_system_error a k w else w\<lparr>y_dangling := True\<rparr>)"

definition life_vt ::
  "('ip, 'b, 'n) server_asio \<Rightarrow> ('x, 'ip, 'u, 'n, 'z) lifetimes_scheme dispatch \<Rightarrow> nat \<Rightarrow>
   ('x, 'u, ('x, 'ip, 'u, 'n, 'z) lifetimes_scheme) stream_vt"
where
  "life_vt a dispatch k = (server_vt a dispatch k)\<lparr>vt_on_system_error := (\<lambda>err. sock_on_system_error a k)\<rparr>"

definition life_ms_send ::
  "('ip, 'b, 'n) server_asio \<Rightarrow> ('b, nat, ('x, 'ip, 'u, 'n, 'z) lifetimes_scheme) ms_send"
where
  "life_ms_send a k buf w =
     (None, stream_send_data (server_sock_write a k) (life_vt a (\<lambda>q w. (None, w)) k) buf w)"

text \<open>The handlers of the loop: an accept of the transport \<open>t\<close>, a read on the socket \<open>k\<close>.\<close>

definition life_on_accept ::
  "('ip, 'b, 'n) server_asio \<Rightarrow> ('x, 'b, 'u) decoder \<Rightarrow> nat \<Rightarrow> errno \<Rightarrow>
   ('x, 'ip, 'u, 'n, 'z) lifetimes_scheme \<Rightarrow> ('x, 'ip, 'u, 'n, 'z) lifetimes_scheme"
where
  "life_on_accept a d t err w0 =
     (let w = handler_done (Accept_of t) (w0\<lparr>y_accepts := remove1 t (y_accepts w0)\<rparr>)
      in if \<not> alive_tran t w then w\<lparr>y_dangling := True\<rparr>
         else adopt (length (v_socks w)) (snd (on_accept a d err w)))"

definition life_on_read ::
  "('ip, 'b, 'n) server_asio \<Rightarrow> ('x, 'b, 'u) decoder \<Rightarrow> ('x, 'ip, 'u, 'n, 'z) lifetimes_scheme dispatch \<Rightarrow>
   nat \<Rightarrow> errno \<Rightarrow> 'b list \<Rightarrow> ('x, 'ip, 'u, 'n, 'z) lifetimes_scheme \<Rightarrow> ('x, 'ip, 'u, 'n, 'z) lifetimes_scheme"
where
  "life_on_read a d dispatch k err bytes w =
     handler_done (Read_on k) (snd (stream_on_read d (life_vt a dispatch k) err bytes w))"

text \<open>\<open>server_impl::listen\<close>: the assignment to \<open>m_stran\<close> destroys the transport it held.\<close>

definition life_listen ::
  "('ip, 'b, 'n) server_asio \<Rightarrow> ('x, 'b, 'u) decoder \<Rightarrow> 'ip tcp_listener \<Rightarrow>
   ('x, 'ip, 'u, 'n, 'z) lifetimes_scheme \<Rightarrow> exn option \<times> ('x, 'ip, 'u, 'n, 'z) lifetimes_scheme"
where
  "life_listen a d l w =
     (case server_impl_listen a d l w of
        (Some e, w1) \<Rightarrow> (Some e, w1)
      | (None, w1) \<Rightarrow>
          (None, adopt (length (v_socks w)) (w1\<lparr>y_tid := y_next w, y_next := Suc (y_next w)\<rparr>)))"

definition new_lifetimes :: "loop_impl \<Rightarrow> 'n \<Rightarrow> ('x, 'ip, 'u, 'n) lifetimes" where
  "new_lifetimes lo n =
     server.extend (new_server lo n)
       \<lparr>y_tid = 0, y_next = 0, y_owner = Map.empty, y_accepts = [], y_running = [], y_dangling = False\<rparr>"

text \<open>
  The runs of a server: it gets a dispatcher, listens (successfully \<open>n\<close> times), starts threads,
  stops, joins and closes. While the loop is not stopped a worker thread may take a pending handler;
  it runs later, at any time, with any outcome of the operation (an aborted one included). \<open>join\<close> returns
  when no worker runs a handler any more. The flag \<open>b\<close> says that every \<open>close\<close> so far came while no
  handler was running.
\<close>

inductive life ::
  "('ip, 'b, 'n) server_asio \<Rightarrow> ('x, 'b, 'u) decoder \<Rightarrow> ('x, 'ip, 'u, 'n) lifetimes dispatch \<Rightarrow> nat \<Rightarrow> bool \<Rightarrow>
   ('x, 'ip, 'u, 'n) lifetimes \<Rightarrow> bool"
  for a d dispatch
where
  life_new: "\<not> stopped lo \<Longrightarrow> life a d dispatch 0 True (new_lifetimes lo n)"
| life_serve: "life a d dispatch i b w \<Longrightarrow> life a d dispatch i b (serve w)"
| life_listens: "life a d dispatch i b w \<Longrightarrow> life_listen a d l w = (None, w') \<Longrightarrow> life a d dispatch (Suc i) b w'"
| life_listen_fails: "life a d dispatch i b w \<Longrightarrow> life_listen a d l w = (Some e, w') \<Longrightarrow> life a d dispatch i b w'"
| life_start: "life a d dispatch i b w \<Longrightarrow> loop_start k (v_loop w) = Inr lo \<Longrightarrow> life a d dispatch i b (w\<lparr>v_loop := lo\<rparr>)"
| life_takes: "life a d dispatch i b w \<Longrightarrow> \<not> stopped (v_loop w) \<Longrightarrow> pending h w \<Longrightarrow> life a d dispatch i b (take_handler h w)"
| life_accepts: "life a d dispatch i b w \<Longrightarrow> Accept_of t \<in> set (y_running w) \<Longrightarrow>
    life a d dispatch i b (life_on_accept a d t err w)"
| life_reads: "life a d dispatch i b w \<Longrightarrow> Read_on k \<in> set (y_running w) \<Longrightarrow>
    life a d dispatch i b (life_on_read a d dispatch k err bytes w)"
| life_ends: "life a d dispatch i b w \<Longrightarrow> life a d dispatch i b (w\<lparr>v_loop := loop_end (v_loop w)\<rparr>)"
| life_joins: "life a d dispatch i b w \<Longrightarrow> y_running w = [] \<Longrightarrow>
    life a d dispatch i b (w\<lparr>v_loop := loop_join (\<lambda>_. False) (v_loop w)\<rparr>)"
| life_closes: "life a d dispatch i b w \<Longrightarrow> life a d dispatch i (b \<and> y_running w = []) (server_close a w)"

section \<open>Every handler belongs to the transport that is alive\<close>

definition owned_handlers :: "('x, 'ip, 'u, 'n, 'z) lifetimes_scheme \<Rightarrow> bool" where
  "owned_handlers w \<longleftrightarrow>
     \<not> y_dangling w \<and> (\<forall>t \<in> ran (y_owner w) \<union> set (y_accepts w). alive_tran t w)"

text \<open>What reading and replying leave as it is.\<close>

definition steady :: "('x, 'ip, 'u, 'n, 'z) lifetimes_scheme \<Rightarrow> ('x, 'ip, 'u, 'n, 'z) lifetimes_scheme \<Rightarrow> bool" where
  "steady w w' \<longleftrightarrow>
     y_tid w' = y_tid w \<and> y_next w' = y_next w \<and> y_owner w' = y_owner w \<and> y_accepts w' = y_accepts w \<and>
     y_running w' = y_running w \<and>
     map_option ts_accepting (v_stran w') = map_option ts_accepting (v_stran w) \<and>
     (owned_handlers w \<longrightarrow> \<not> y_dangling w')"

lemma map_option_None_eq: "map_option f x = map_option f y \<Longrightarrow> x = None \<longleftrightarrow> y = None"
  by (cases x; cases y) simp_all

lemma steady_owned: "steady w w' \<Longrightarrow> owned_handlers w \<Longrightarrow> owned_handlers w'"
  using map_option_None_eq[of ts_accepting "v_stran w'" "v_stran w"]
  by (auto simp: steady_def owned_handlers_def alive_tran_def)

lemma steady_refl: "steady w w"
  by (simp add: steady_def owned_handlers_def)

lemma steady_trans: "steady w w' \<Longrightarrow> steady w' w'' \<Longrightarrow> steady w w''"
  using steady_owned[of w w'] by (simp add: steady_def)

lemma steady_put_sock: "steady w (put_sock k h w)"
  by (simp add: steady_def put_sock_def owned_handlers_def)

lemma steady_net: "steady w (w\<lparr>v_net := n\<rparr>)"
  by (simp add: steady_def owned_handlers_def)

lemma steady_requests: "steady w (w\<lparr>q_requests := rs\<rparr>)"
  by (simp add: steady_def owned_handlers_def)

lemma steady_tran_error: "steady w (tran_on_system_error a k w)"
  by (auto simp: steady_def tran_on_system_error_def put_sock_def owned_handlers_def split: option.split)

lemma steady_system_error: "steady w (sock_on_system_error a k w)"
proof (cases "\<exists>t. y_owner w k = Some t \<and> \<not> alive_tran t w")
  case True
  then have "\<not> owned_handlers w" by (auto simp: owned_handlers_def ranI)
  then show ?thesis using True by (auto simp: sock_on_system_error_def steady_def)
next
  case False
  then show ?thesis by (simp add: sock_on_system_error_def steady_refl steady_tran_error split: option.split)
qed

text \<open>A program whose dispatcher uses the server through its interface.\<close>

locale owned_program =
  fixes dispatch :: "('x, 'ip, 'u, 'n, 'z) lifetimes_scheme dispatch"
  assumes dispatch_steady: "steady w (snd (dispatch q w))"
begin

lemma dispatch_new_steady: "steady w (snd (dispatch_new dispatch r w))"
  using steady_trans[OF steady_requests dispatch_steady] by (simp add: dispatch_new_def Let_def steady_requests)

end

sublocale owned_program < life_sock: message_handler "life_vt a dispatch k" "\<lambda>w. True" steady for a k
  by unfold_locales
     (auto simp: life_vt_def server_vt_def steady_refl steady_put_sock steady_system_error sock_on_request_def
       sock_on_response_def sock_on_notify_def server_on_request_def server_on_notify_def dispatch_new_steady
       intro: steady_trans)

text \<open>A program that answers at once.\<close>

definition life_dispatch ::
  "('x, 'b) packer \<Rightarrow> ('ip, 'b, 'n) server_asio \<Rightarrow> ('x object \<Rightarrow> 'x object \<Rightarrow> 'x reply list) \<Rightarrow>
   ('x, 'ip, 'u, 'n, 'z) lifetimes_scheme dispatch"
where
  "life_dispatch pk a compute q w =
     request_replies pk (life_ms_send a) q (compute (r_method (rq w q)) (r_params (rq w q))) w"

lemma steady_ms_send: "steady w (snd (life_ms_send a k buf w))"
  unfolding life_ms_send_def stream_send_data_def
  using steady_trans[OF steady_net steady_system_error]
  by (auto simp: life_vt_def server_vt_def server_sock_write_def split_beta steady_refl steady_net split: option.split prod.split)

lemma steady_send_data: "steady w (snd (request_send_data (life_ms_send a) q buf w))"
  using steady_trans[OF steady_ms_send steady_requests]
  by (auto simp: request_send_data_def life_ms_send_def steady_refl split: option.split)

lemma steady_reply: "steady w (snd (request_reply pk (life_ms_send a) q r w))"
  by (cases r) (simp_all add: request_call_def request_call_zone_def steady_send_data steady_refl)

lemma steady_replies: "steady w (snd (request_replies pk (life_ms_send a) q rs w))"
proof (induction rs arbitrary: w)
  case (Cons r rs)
  obtain e w1 where r: "request_reply pk (life_ms_send a) q r w = (e, w1)" by (cases "request_reply pk (life_ms_send a) q r w")
  have "steady w w1" using steady_reply[of w pk a q r] r by simp
  then show ?case using r steady_trans[OF _ Cons.IH[of w1]] by (cases e) simp_all
qed (simp add: steady_refl)

interpretation life_replying: owned_program "life_dispatch pk a compute" for pk a compute
  by unfold_locales (simp add: life_dispatch_def steady_replies)

section \<open>The invariant\<close>

text \<open>
  After at most one successful \<open>listen\<close> and only closes while nothing was running, the loop is at rest or
  every handler is owned; a transport that accepts has a pending handler, and identities are used once.
\<close>

definition at_rest :: "('x, 'ip, 'u, 'n, 'z) lifetimes_scheme \<Rightarrow> bool" where
  "at_rest w \<longleftrightarrow> stopped (v_loop w) \<and> y_running w = []"

definition life_inv :: "nat \<Rightarrow> bool \<Rightarrow> ('x, 'ip, 'u, 'n, 'z) lifetimes_scheme \<Rightarrow> bool" where
  "life_inv i b w \<longleftrightarrow>
     (i \<le> 1 \<and> b \<longrightarrow> \<not> y_dangling w \<and> (at_rest w \<or> owned_handlers w)) \<and>
     (i = 0 \<longrightarrow> v_stran w = None \<and> v_socks w = [] \<and> y_accepts w = [] \<and> y_running w = []) \<and>
     (\<forall>t. Accept_of t \<in> set (y_running w) \<longrightarrow> t \<in> set (y_accepts w)) \<and>
     (\<forall>t. v_stran w = Some t \<longrightarrow> y_tid w < y_next w \<and> (ts_accepting t \<longrightarrow> y_tid w \<in> set (y_accepts w)))"

lemma owned_subset:
  assumes "owned_handlers w" "\<not> y_dangling w'" "ran (y_owner w') \<union> set (y_accepts w') \<subseteq> insert (y_tid w') (ran (y_owner w) \<union> set (y_accepts w))"
    "y_tid w' = y_tid w" "v_stran w' \<noteq> None"
  shows "owned_handlers w'"
  using assms by (auto simp: owned_handlers_def alive_tran_def)

lemma ran_upd_subset: "ran (m(k \<mapsto> v)) \<subseteq> insert v (ran m)"
  by (auto simp: ran_def)

lemma on_accept_frame:
  assumes "v_stran w \<noteq> None"
  shows "y_tid (snd (on_accept a d err w)) = y_tid w" "y_next (snd (on_accept a d err w)) = y_next w"
    "y_owner (snd (on_accept a d err w)) = y_owner w" "y_accepts (snd (on_accept a d err w)) = y_accepts w"
    "y_running (snd (on_accept a d err w)) = y_running w"
    "y_dangling (snd (on_accept a d err w)) = y_dangling w" "v_stran (snd (on_accept a d err w)) \<noteq> None"
    "v_stran (snd (on_accept a d err w)) = Some t \<Longrightarrow> ts_accepting t \<Longrightarrow>
       length (v_socks w) < length (v_socks (snd (on_accept a d err w)))"
  using assms by (auto simp: on_accept_def Let_def put_sock_def start_accept_def split: option.splits if_splits)

lemma life_inv_running: "life_inv i b w \<Longrightarrow> y_running w \<noteq> [] \<Longrightarrow> i \<noteq> 0 \<and> (i \<le> 1 \<longrightarrow> b \<longrightarrow> owned_handlers w)"
  by (auto simp: life_inv_def at_rest_def)

lemma life_on_accept_inv:
  assumes inv: "life_inv i b w" and run: "Accept_of t \<in> set (y_running w)"
  shows "life_inv i b (life_on_accept a d t err w)"
proof -
  define w0 where "w0 = handler_done (Accept_of t) (w\<lparr>y_accepts := remove1 t (y_accepts w)\<rparr>)"
  have t: "t \<in> set (y_accepts w)" using inv run by (auto simp: life_inv_def)
  have i: "i \<noteq> 0" "i \<le> 1 \<Longrightarrow> b \<Longrightarrow> owned_handlers w" using life_inv_running[OF inv] run by (metis empty_iff empty_set)+
  have w0: "set (y_accepts w0) \<subseteq> set (y_accepts w)" "y_tid w0 = y_tid w" "y_next w0 = y_next w" "y_owner w0 = y_owner w"
    "y_dangling w0 = y_dangling w" "v_stran w0 = v_stran w" "alive_tran x w0 = alive_tran x w" for x
    by (simp_all add: w0_def handler_done_def alive_tran_def set_remove1_subset)
  have run0: "x \<in> set (y_accepts w0)" if "Accept_of x \<in> set (y_running w0)" for x
    using that inv by (auto simp: w0_def handler_done_def life_inv_def in_set_remove1)
  show ?thesis
  proof (cases "alive_tran t w")
    case False
    then have "\<not> owned_handlers w" using t by (auto simp: owned_handlers_def)
    then have "1 < i \<or> \<not> b" using i(2) by force
    moreover have "y_tid w \<in> set (y_accepts w0)" if "v_stran w \<noteq> None" "y_tid w \<in> set (y_accepts w)"
      using False that by (auto simp: alive_tran_def in_set_remove1 w0_def handler_done_def)
    moreover have "life_on_accept a d t err w = w0\<lparr>y_dangling := True\<rparr>"
      using False by (simp add: life_on_accept_def flip: w0_def add: w0(7))
    ultimately show ?thesis using inv i(1) run0 w0 by (auto simp: life_inv_def)
  next
    case True
    then have st: "v_stran w0 \<noteq> None" "t = y_tid w0" by (auto simp: w0 alive_tran_def)
    define w1 where "w1 = snd (on_accept a d err w0)"
    note fr = on_accept_frame[OF st(1), of a d err, folded w1_def]
    have eq: "life_on_accept a d t err w = adopt (length (v_socks w0)) w1"
      using True by (simp add: life_on_accept_def w1_def flip: w0_def add: w0(7))
    have ow: "owned_handlers (adopt (length (v_socks w0)) w1)" if "owned_handlers w"
      by (rule owned_subset[OF that])
         (use that fr w0 in \<open>auto simp: adopt_def owned_handlers_def dest!: subsetD[OF ran_upd_subset]\<close>)
    have "y_tid w1 < y_next w1" using inv st(1) fr(1,2) w0 by (auto simp: life_inv_def)
    then show ?thesis
      unfolding eq life_inv_def using ow i run0 fr(4,5,6,8) by (auto simp: adopt_def owned_handlers_def)
  qed
qed

lemma life_steady_inv:
  assumes "life_inv i b w" "y_running w \<noteq> []" "steady w w'"
  shows "life_inv i b w'"
proof -
  have i: "i \<noteq> 0" "i \<le> 1 \<Longrightarrow> b \<Longrightarrow> owned_handlers w'"
    using life_inv_running[OF assms(1,2)] steady_owned[OF assms(3)] by auto
  moreover have "\<exists>t'. v_stran w = Some t' \<and> ts_accepting t' = ts_accepting t" if "v_stran w' = Some t" for t
    using that assms(3) by (cases "v_stran w") (auto simp: steady_def)
  ultimately show ?thesis using assms(1,3) unfolding life_inv_def steady_def by (auto simp: owned_handlers_def)
qed

lemma handler_done_inv: "life_inv i b w \<Longrightarrow> life_inv i b (handler_done h w)"
  by (auto simp: life_inv_def handler_done_def at_rest_def owned_handlers_def alive_tran_def)

lemma life_take_inv:
  assumes "life_inv i b w" "\<not> stopped (v_loop w)" "pending h w"
  shows "life_inv i b (take_handler h w)"
  using assms by (cases h) (auto simp: life_inv_def take_handler_def at_rest_def owned_handlers_def alive_tran_def)

lemma life_loop_inv:
  assumes "life_inv i b w" "stopped (v_loop w) \<Longrightarrow> stopped lo"
  shows "life_inv i b (w\<lparr>v_loop := lo\<rparr>)"
  using assms by (auto simp: life_inv_def at_rest_def owned_handlers_def alive_tran_def)

lemma life_listen_fails_inv:
  assumes "life_listen a d l w = (Some e, w')"
  shows "life_inv i b w' = life_inv i b w"
proof -
  have "\<exists>n. w' = w\<lparr>v_net := n\<rparr>"
    using assms by (auto simp: life_listen_def server_impl_listen_def tcp_listener_listen_def tcp_listen_def start_accept_def
        split: prod.splits option.splits sum.splits if_splits)
  then show ?thesis by (auto simp: life_inv_def at_rest_def owned_handlers_def alive_tran_def)
qed

lemma life_listen_frame:
  assumes "life_listen a d l w = (None, w')"
  shows "y_tid w' = y_next w" "y_next w' = Suc (y_next w)" "y_owner w' = (y_owner w)(length (v_socks w) \<mapsto> y_next w)"
    "y_accepts w' = y_next w # y_accepts w" "y_running w' = y_running w" "y_dangling w' = y_dangling w" "v_loop w' = v_loop w" "v_stran w' \<noteq> None"
  using assms
  by (auto simp: life_listen_def server_impl_listen_def tcp_listener_listen_def tcp_listen_def start_accept_def adopt_def
      split: prod.splits option.splits sum.splits if_splits)

lemma life_listen_inv:
  assumes "life_inv i b w" "life_listen a d l w = (None, w')"
  shows "life_inv (Suc i) b w'"
proof -
  note fr = life_listen_frame[OF assms(2)]
  have "owned_handlers w'" if "i = 0" "owned_handlers w"
  proof -
    have "v_stran w = None" using assms(1) that(1) by (simp add: life_inv_def)
    then have "ran (y_owner w) \<union> set (y_accepts w) \<subseteq> {}"
      using that(2) unfolding owned_handlers_def alive_tran_def by blast
    then show ?thesis using that(2) fr by (auto simp: owned_handlers_def alive_tran_def dest!: subsetD[OF ran_upd_subset])
  qed
  then show ?thesis using assms(1) fr by (auto simp: life_inv_def at_rest_def)
qed

lemma life_close_inv: "life_inv i b w \<Longrightarrow> life_inv i (b \<and> y_running w = []) (server_close a w)"
  by (auto simp: life_inv_def at_rest_def server_close_def server_impl_close_def loop_end_def stopped_def split: option.splits)

lemma stopped_simps:
  "stopped (loop_end lo)" "stopped lo \<Longrightarrow> stopped (loop_join fails lo)" "stopped lo \<Longrightarrow> loop_start k lo = Inr lo' \<Longrightarrow> stopped lo'"
  by (auto simp: stopped_def loop_end_def loop_join_def join_workers_eq loop_start_def add_worker_eq split: if_splits)

lemma life_new_inv: "life_inv 0 True (new_lifetimes lo n)"
  by (simp add: life_inv_def new_lifetimes_def owned_handlers_def new_server_def server.defs)

lemma life_serve_inv: "life_inv i b (serve w) = life_inv i b w"
  by (simp add: life_inv_def at_rest_def serve_def owned_handlers_def alive_tran_def)

context owned_program
begin

lemma on_read_inv:
  assumes "life_inv i b w" "Read_on k \<in> set (y_running w)"
  shows "life_inv i b (life_on_read a d dispatch k err bytes w)"
  unfolding life_on_read_def
  by (intro handler_done_inv life_steady_inv[OF assms(1)] life_sock.on_read_rel) (use assms(2) in auto)

end

lemma life_invariant:
  assumes "life a d dispatch i b w" "owned_program dispatch"
  shows "life_inv i b w"
  using assms(1)
proof induction
  case (life_start i b w k lo)
  then show ?case by (intro life_loop_inv) (auto dest: stopped_simps(3))
qed (simp_all add: life_new_inv life_serve_inv life_listen_inv life_listen_fails_inv life_take_inv life_on_accept_inv
    owned_program.on_read_inv[OF assms(2)] life_loop_inv stopped_simps life_close_inv)

text \<open>A server that listens on port 80, then on port 81.\<close>

definition listen_once :: "(nat, nat, unit, nat) lifetimes" where
  "listen_once =
     snd (life_listen (sample_server_asio True) sample_server_decoder (new_tcp_listener (Address 1 80))
       (new_lifetimes new_loop 0))"

definition listen_twice :: "(nat, nat, unit, nat) lifetimes" where
  "listen_twice =
     snd (life_listen (sample_server_asio True) sample_server_decoder (new_tcp_listener (Address 1 81)) listen_once)"

definition no_reply :: "(nat, nat, unit, nat) lifetimes dispatch" where
  "no_reply = life_dispatch sample_server_packer (sample_server_asio True) (\<lambda>m p. [])"

lemmas lifetime_defs =
  life_listen_def server_impl_listen_def new_tcp_listener_def tcp_listener_listen_def tcp_listen_def start_accept_def
  adopt_def new_lifetimes_def new_server_def server.defs sample_server_asio_def stop_all_def

lemma listen_samples:
  "life_listen (sample_server_asio True) sample_server_decoder (new_tcp_listener (Address 1 80)) (new_lifetimes new_loop 0) =
     (None, listen_once)"
  "life_listen (sample_server_asio True) sample_server_decoder (new_tcp_listener (Address 1 81)) listen_once =
     (None, listen_twice)"
  "\<exists>t. v_stran listen_once = Some t \<and> ts_accepting t" "v_loop listen_once = new_loop" "y_tid listen_once = 0"
  by (simp_all add: listen_once_def listen_twice_def lifetime_defs)

lemma insert_Nil_iff: "List.insert x xs = [] \<longleftrightarrow> False"
  by (auto simp: List.insert_def)

lemma listen_once_life: "life (sample_server_asio True) sample_server_decoder no_reply 1 True listen_once"
  using life_listens[OF life_new listen_samples(1), of no_reply] by (simp add: stopped_def new_loop_def)

text \<open>\<open>end\<close>, \<open>join\<close> and then \<open>close\<close>: the order in which a server with worker threads can be closed.\<close>

definition end_join_close ::
  "('ip, 'b, 'n) server_asio \<Rightarrow> ('x, 'ip, 'u, 'n, 'z) lifetimes_scheme \<Rightarrow> ('x, 'ip, 'u, 'n, 'z) lifetimes_scheme" where
  "end_join_close a w = server_close a (w\<lparr>v_loop := loop_join (\<lambda>_. False) (loop_end (v_loop w))\<rparr>)"

lemma life_end_join_close:
  assumes "life a d dispatch i b w" "y_running w = []"
  shows "life a d dispatch i b (end_join_close a w)"
  using life_closes[OF life_joins[OF life_ends[OF assms(1)]]] assms(2) by (simp add: end_join_close_def)

text \<open>
  The server of \<open>listen_once\<close> accepts a connection, whose read fails with \<^verbatim>\<open>ECONNRESET\<close> while the next
  accept is already taken and then aborted; at last it is closed.
\<close>

definition served_once :: "(nat, nat, unit, nat) lifetimes" where
  "served_once =
     (let acc = life_on_accept (sample_server_asio True) sample_server_decoder 0;
          w = acc 0 (take_handler (Accept_of 0) listen_once)
      in acc 125 (life_on_read (sample_server_asio True) sample_server_decoder no_reply 0 104 []
           (take_handler (Accept_of 0) (take_handler (Read_on 0) w))))"

lemmas serving_defs =
  served_once_def listen_once_def lifetime_defs take_handler_def handler_done_def life_on_accept_def on_accept_def
  alive_tran_def life_on_read_def stream_on_read_def stream_fail_def set_pac_def life_vt_def server_vt_def
  sock_on_system_error_def tran_on_system_error_def stream_stop_def stream_start_def new_stream_handler_def
  put_sock_def sample_server_decoder_def stopped_def new_loop_def Let_def

lemma served_once_life: "life (sample_server_asio True) sample_server_decoder no_reply 1 True served_once"
proof -
  let ?life = "life (sample_server_asio True) sample_server_decoder no_reply 1 True"
  let ?acc = "life_on_accept (sample_server_asio True) sample_server_decoder 0"
  define w where "w = ?acc 0 (take_handler (Accept_of 0) listen_once)"
  have "?life (take_handler (Accept_of 0) listen_once)"
    by (rule life_takes[OF listen_once_life]) (simp_all add: serving_defs)
  then have w: "?life w" unfolding w_def by (rule life_accepts) (simp add: take_handler_def)
  have "?life (take_handler (Read_on 0) w)"
    by (rule life_takes[OF w]) (simp_all add: w_def serving_defs)
  then have "?life (take_handler (Accept_of 0) (take_handler (Read_on 0) w))"
    by (rule life_takes) (simp_all add: w_def serving_defs)
  then have "?life (life_on_read (sample_server_asio True) sample_server_decoder no_reply 0 104 []
      (take_handler (Accept_of 0) (take_handler (Read_on 0) w)))"
    by (rule life_reads) (simp add: take_handler_def)
  then have "?life (?acc 125 (life_on_read (sample_server_asio True) sample_server_decoder no_reply 0 104 []
      (take_handler (Accept_of 0) (take_handler (Read_on 0) w))))"
    by (rule life_accepts) (simp add: w_def serving_defs)
  then show ?thesis unfolding served_once_def Let_def w_def .
qed

lemma served_once_facts: "y_running served_once = []" "length (v_socks served_once) = 3" "get_connection_num served_once = 0"
  by (simp_all add: serving_defs get_connection_num_def)

section \<open>Properties\<close>





text \<open>
  C34: A second \<open>listen\<close> on a running server leads to a use of the destroyed transport: the accept that
  was pending on the replaced transport completes (aborted) with \<^verbatim>\<open>this\<close> pointing to it, in every
  reachable state with a transport that accepts and a loop that is not stopped.
\<close>

theorem second_listen_dangles:
  assumes "life a d (life_dispatch pk a compute) i b w" "v_stran w = Some t" "ts_accepting t" "\<not> stopped (v_loop w)"
    and "life_listen a d l w = (None, w')"
  shows "life a d (life_dispatch pk a compute) (Suc i) b (life_on_accept a d (y_tid w) err (take_handler (Accept_of (y_tid w)) w')) \<and>
    y_dangling (life_on_accept a d (y_tid w) err (take_handler (Accept_of (y_tid w)) w'))"
proof -
  have inv: "life_inv i b w" by (rule life_invariant[OF assms(1) life_replying.owned_program_axioms])
  note fr = life_listen_frame[OF assms(5)]
  have "y_tid w \<in> set (y_accepts w')" "y_tid w \<noteq> y_tid w'" using inv assms(2,3) fr by (auto simp: life_inv_def)
  moreover from this have "life a d (life_dispatch pk a compute) (Suc i) b (take_handler (Accept_of (y_tid w)) w')"
    using life_takes[OF life_listens[OF assms(1,5)], of "Accept_of (y_tid w)"] assms(4) fr by simp
  from life_accepts[OF this, of "y_tid w" err] calculation show ?thesis
    by (simp add: take_handler_def life_on_accept_def alive_tran_def handler_done_def)
qed

lemma second_listen_dangles_witness:
  "y_dangling (life_on_accept (sample_server_asio True) sample_server_decoder 0 125 (take_handler (Accept_of 0) listen_twice))"
proof -
  obtain t where "v_stran listen_once = Some t" "ts_accepting t" using listen_samples(3) by blast
  from second_listen_dangles[OF listen_once_life[unfolded no_reply_def] this _ listen_samples(2), of 125]
  show ?thesis by (simp add: listen_samples(4,5) stopped_def new_loop_def)
qed

end
