(* ===== verification/RPC_System.thy ===== *)
theory RPC_System
  imports RPC_Run RPC_Server
begin

text \<open>
  A client and a server joined by a TCP connection. The bytes in flight in each direction are a queue;
  the two processes take their steps in any order: the client calls, notifies, reads, waits and lets
  its timer tick, the server accepts, reads any part of what is in flight, and answers at once or
  later, in any order. Every step is the code of the components. The invariant relates the
  messages that were sent to the requests, the replies and the futures on both sides.
\<close>

section \<open>Definitions\<close>

datatype 'x outgoing =
    Out_request msgid string "'x object list" "zone option"
  | Out_notify string "'x object list" "zone option"

fun out_bytes :: "('x, 'b) packer \<Rightarrow> 'x outgoing \<Rightarrow> 'b list" where
  "out_bytes pk (Out_request i m p z) = outbuf_bytes (request_buf pk m p z i)"
| "out_bytes pk (Out_notify m p z) = outbuf_bytes (notify_buf pk m p z)"

fun reply_bytes :: "('x, 'b) packer \<Rightarrow> msgid \<times> 'x reply \<Rightarrow> 'b list" where
  "reply_bytes pk (i, r) = outbuf_bytes (reply_buf pk i r)"

record ('x, 'b, 'u, 'ip) link =
  k_session :: sid
  k_sock :: nat
  k_asio :: "('ip, 'b, 'b list) asio"
  k_server_asio :: "('ip, 'b, 'b list) server_asio"
  k_packer :: "('x, 'b) packer"
  k_decoder :: "('x, 'b, 'u) decoder"
  k_server_decoder :: "('x, 'b, 'u) decoder"
  k_held :: "'u \<Rightarrow> 'b list \<Rightarrow> bool"
  k_server_held :: "'u \<Rightarrow> 'b list \<Rightarrow> bool"
  k_method :: "string \<Rightarrow> 'x object"
  k_params :: "'x object list \<Rightarrow> 'x object"
  k_copy :: "'x object \<Rightarrow> 'x object"
  k_sendable :: "'x outgoing \<Rightarrow> bool"
  k_compute :: "'x object \<Rightarrow> 'x object \<Rightarrow> 'x reply list"
  k_answers :: "'x object \<Rightarrow> 'x object \<Rightarrow> 'x reply \<Rightarrow> bool"

fun received :: "('x, 'b, 'u, 'ip) link \<Rightarrow> 'x outgoing \<Rightarrow> 'x incoming" where
  "received L (Out_request i m p z) = In_request i (k_method L m) (k_params L p)"
| "received L (Out_notify m p z) = In_notify (k_method L m) (k_params L p)"

fun delivered :: "('x, 'b, 'u, 'ip) link \<Rightarrow> msgid \<times> 'x reply \<Rightarrow> msgid \<times> 'x object \<times> 'x object" where
  "delivered L (i, r) = (i, k_copy L (reply_result r), k_copy L (reply_error r))"

definition link_ok :: "('x, 'b, 'u, 'ip) link \<Rightarrow> bool" where
  "link_ok L \<longleftrightarrow>
     frames (k_server_decoder L) (k_server_held L) (out_bytes (k_packer L))
       (\<lambda>m. incoming_dec (k_server_decoder L) (received L m)) (k_sendable L) \<and>
     frames (k_decoder L) (k_held L) (reply_bytes (k_packer L))
       (\<lambda>m. response_dec (k_decoder L) (delivered L m)) (\<lambda>(i, r). \<exists>m p. k_answers L m p r) \<and>
     (\<forall>ad n. sock_connect (k_asio L) (k_session L) ad n = (0, True, n)) \<and>
     (\<forall>bs n. sock_write (k_asio L) (k_session L) bs n = (None, n @ bs)) \<and>
     (\<forall>bs n. server_write (k_server_asio L) (k_sock L) bs n = (None, n @ bs)) \<and>
     (\<forall>m p r. r \<in> set (k_compute L m p) \<longrightarrow> k_answers L m p r)"

definition link_call ::
  "('x, 'b, 'u, 'ip) link \<Rightarrow> string \<Rightarrow> 'x object list \<Rightarrow> zone option \<Rightarrow>
   ('x, 'ip, 'u tcp_client, 'b list) world \<Rightarrow> ('x, 'ip, 'u tcp_client, 'b list) world"
where
  "link_call L m p z w =
     snd (send_request (k_packer L) (tcp_send_data (k_asio L) (k_decoder L)) (k_session L) m p z w)"

definition link_notify ::
  "('x, 'b, 'u, 'ip) link \<Rightarrow> string \<Rightarrow> 'x object list \<Rightarrow> zone option \<Rightarrow>
   ('x, 'ip, 'u tcp_client, 'b list) world \<Rightarrow> ('x, 'ip, 'u tcp_client, 'b list) world"
where
  "link_notify L m p z w =
     snd (send_notify (k_packer L) (tcp_send_data (k_asio L) (k_decoder L)) (k_session L) m p z w)"

definition client_reads ::
  "('x, 'b, 'u, 'ip) link \<Rightarrow> 'b list \<Rightarrow> ('x, 'ip, 'u tcp_client, 'b list) world \<Rightarrow>
   ('x, 'ip, 'u tcp_client, 'b list) world"
where
  "client_reads L c w = snd (stream_on_read (k_decoder L) (tcp_client_vt (k_session L)) 0 c w)"

definition server_reads ::
  "('x, 'b, 'u, 'ip) link \<Rightarrow> 'b list \<Rightarrow> ('x, 'ip, 'u, 'b list) server \<Rightarrow> ('x, 'ip, 'u, 'b list) server" where
  "server_reads L c v =
     snd (stream_on_read (k_server_decoder L)
       (server_vt (k_server_asio L) (reply_dispatch (k_packer L) (k_server_asio L) (k_compute L)) (k_sock L)) 0 c v)"

definition server_replies ::
  "('x, 'b, 'u, 'ip) link \<Rightarrow> nat \<Rightarrow> 'x reply \<Rightarrow> ('x, 'ip, 'u, 'b list) server \<Rightarrow> ('x, 'ip, 'u, 'b list) server" where
  "server_replies L q r v = snd (request_reply (k_packer L) (server_ms_send (k_server_asio L)) q r v)"

abbreviation conn :: "('x, 'b, 'u, 'ip) link \<Rightarrow> ('x, 'ip, 'u tcp_client, 'n, 'z) world_scheme \<Rightarrow> 'u stream_handler" where
  "conn L w \<equiv> tc_conn (tcp w (k_session L))"

abbreviation sock :: "('x, 'b, 'u, 'ip) link \<Rightarrow> ('x, 'ip, 'u, 'n, 'z) server_scheme \<Rightarrow> 'u stream_handler" where
  "sock L v \<equiv> v_socks v ! k_sock L"

definition fresh_client :: "('x, 'b, 'u, 'ip) link \<Rightarrow> ('x, 'ip, 'u tcp_client, 'b list) world \<Rightarrow> bool" where
  "fresh_client L w \<longleftrightarrow>
     client_run (k_asio L) (k_decoder L) (k_packer L) 0 0 w \<and> h_futures w = [] \<and> w_net w = [] \<and>
     k_session L < length (w_sessions w) \<and> 0 < s_handles (ses w (k_session L)) \<and>
     s_msgid_rr (ses w (k_session L)) = 1 \<and> loop_running w (k_session L) \<and>
     \<not> sh_open (conn L w) \<and> k_held L (sh_pac (conn L w)) []"

definition fresh_server :: "('x, 'b, 'u, 'ip) link \<Rightarrow> ('x, 'ip, 'u, 'b list) server \<Rightarrow> bool" where
  "fresh_server L v \<longleftrightarrow>
     server_listening v \<and> v_dp v \<and> q_requests v = [] \<and> v_net v = [] \<and> k_sock L < length (v_socks v) \<and>
     map_option ts_conn (v_stran v) = Some (Some (k_sock L)) \<and>
     \<not> sh_open (sock L v) \<and> k_server_held L (sh_pac (sock L v)) []"

inductive system ::
  "('x, 'b, 'u, 'ip) link \<Rightarrow> 'x outgoing list \<Rightarrow> ('x, 'ip, 'u tcp_client, 'b list) world \<Rightarrow>
   ('x, 'ip, 'u, 'b list) server \<Rightarrow> bool"
  for L
where
  sys_init: "fresh_client L w \<Longrightarrow> fresh_server L v \<Longrightarrow> system L [] w v"
| sys_call: "system L cs w v \<Longrightarrow> k_sendable L (Out_request (s_msgid_rr (ses w (k_session L))) m p z) \<Longrightarrow>
    system L (cs @ [Out_request (s_msgid_rr (ses w (k_session L))) m p z]) (link_call L m p z w) v"
| sys_notify: "system L cs w v \<Longrightarrow> k_sendable L (Out_notify m p z) \<Longrightarrow>
    system L (cs @ [Out_notify m p z]) (link_notify L m p z w) v"
| sys_accept: "system L cs w v \<Longrightarrow> sh_open (conn L w) \<Longrightarrow> \<not> sh_open (sock L v) \<Longrightarrow>
    remote_endpoint (k_server_asio L) (k_sock L) (v_net v) = None \<Longrightarrow>
    system L cs w (snd (on_accept (k_server_asio L) (k_server_decoder L) 0 v))"
| sys_server_read: "system L cs w v \<Longrightarrow> sh_open (sock L v) \<Longrightarrow> w_net w = c @ rest \<Longrightarrow>
    system L cs (w\<lparr>w_net := rest\<rparr>) (server_reads L c v)"
| sys_reply: "system L cs w v \<Longrightarrow> q < length (q_requests v) \<Longrightarrow>
    k_answers L (r_method (rq v q)) (r_params (rq v q)) r \<Longrightarrow> system L cs w (server_replies L q r v)"
| sys_client_read: "system L cs w v \<Longrightarrow> v_net v = c @ rest \<Longrightarrow>
    system L cs (client_reads L c w) (v\<lparr>v_net := rest\<rparr>)"
| sys_tick: "system L cs w v \<Longrightarrow> system L cs (step_timer_handler False (k_session L) w) v"
| sys_attach: "system L cs w v \<Longrightarrow> system L cs (attach_callback f cb w) v"
| sys_wait_expired: "system L cs w v \<Longrightarrow> f < length (h_futures w) \<Longrightarrow>
    system L cs (set_result f NIL TIMEOUT_ERROR None w) v"

text \<open>The calls of the client, in order: the call number \<open>f\<close> created the future \<open>f\<close>.\<close>

fun call_of :: "'x outgoing \<Rightarrow> (msgid \<times> string \<times> 'x object list) list" where
  "call_of (Out_request i m p z) = [(i, m, p)]"
| "call_of (Out_notify m p z) = []"

definition calls :: "'x outgoing list \<Rightarrow> (msgid \<times> string \<times> 'x object list) list" where
  "calls cs = concat (map call_of cs)"

lemma calls_simps [simp]: "calls [] = []" "calls (c # cs) = call_of c @ calls cs" "calls (cs @ ds) = calls cs @ calls ds"
  by (simp_all add: calls_def)

section \<open>The invariant\<close>

fun sent_as :: "('x, 'b, 'u, 'ip) link \<Rightarrow> 'x outgoing \<Rightarrow> msgid \<times> 'x object \<times> 'x object" where
  "sent_as L (Out_request i m p z) = (i, k_method L m, k_params L p)"
| "sent_as L (Out_notify m p z) = (0, k_method L m, k_params L p)"

definition request_as :: "('x, 'ms) request_impl \<Rightarrow> msgid \<times> 'x object \<times> 'x object" where
  "request_as r = (r_msgid r, r_method r, r_params r)"

definition client_inv :: "('x, 'b, 'u, 'ip) link \<Rightarrow> 'x outgoing list \<Rightarrow> ('x, 'ip, 'u tcp_client, 'b list) world \<Rightarrow> bool" where
  "client_inv L cs w \<longleftrightarrow>
     k_session L < length (w_sessions w) \<and> 0 < s_handles (ses w (k_session L)) \<and> loop_running w (k_session L) \<and>
     run_inv (length (calls cs)) 1 w \<and> length (h_futures w) = length (calls cs) \<and>
     s_msgid_rr (ses w (k_session L)) = 1 + of_nat (length (calls cs)) \<and>
     (\<forall>f < length (calls cs). fst (calls cs ! f) = 1 + of_nat f \<and> f_msgid (fut w f) = 1 + of_nat f \<and>
        (ready w f \<or> f_session (fut w f) = Some (k_session L))) \<and>
     (sh_open (conn L w) \<or> cs = [])"

text \<open>
  Each reply answers a call; a request holds its sender until its reply has been written, and a
  notification has none.
\<close>

definition owned :: "('x, 'b, 'u, 'ip) link \<Rightarrow> 'x outgoing list \<Rightarrow> (msgid \<times> 'x reply) list \<Rightarrow> bool" where
  "owned L cs rs \<longleftrightarrow>
     (\<forall>(i, r) \<in> set rs. \<exists>m p. (i, m, p) \<in> set (calls cs) \<and> k_answers L (k_method L m) (k_params L p) r)"

fun sender :: "('x, 'b, 'u, 'ip) link \<Rightarrow> (msgid \<times> 'x reply) list \<Rightarrow> 'x outgoing \<Rightarrow> nat option" where
  "sender L rs (Out_request i m p z) = (if i \<in> fst ` set rs then None else Some (k_sock L))"
| "sender L rs (Out_notify m p z) = None"

definition senders ::
  "('x, 'b, 'u, 'ip) link \<Rightarrow> 'x outgoing list \<Rightarrow> (msgid \<times> 'x reply) list \<Rightarrow>
   ('x, 'ip, 'u, 'b list) server \<Rightarrow> bool"
where
  "senders L cs rs v \<longleftrightarrow> (\<forall>q < length (q_requests v). r_ms (rq v q) = sender L rs (cs ! q))"

definition server_inv ::
  "('x, 'b, 'u, 'ip) link \<Rightarrow> 'x outgoing list \<Rightarrow> (msgid \<times> 'x reply) list \<Rightarrow> ('x, 'ip, 'u, 'b list) server \<Rightarrow> bool" where
  "server_inv L cs rs v \<longleftrightarrow>
     v_alive v \<and> v_dp v \<and> k_sock L < length (v_socks v) \<and>
     (sh_open (sock L v) \<or> q_requests v = [] \<and> map_option ts_conn (v_stran v) = Some (Some (k_sock L))) \<and>
     length (q_requests v) \<le> length cs \<and> list_all (k_sendable L) cs \<and>
     map request_as (q_requests v) = map (sent_as L) (take (length (q_requests v)) cs) \<and>
     distinct (map fst rs) \<and> fst ` set rs \<subseteq> fst ` set (calls (take (length (q_requests v)) cs)) \<and>
     owned L cs rs \<and> senders L cs rs v"

definition answered :: "('x, 'b, 'u, 'ip) link \<Rightarrow> (msgid \<times> 'x reply) list \<Rightarrow> 'x future_impl \<Rightarrow> bool" where
  "answered L dn fi \<longleftrightarrow>
     (if is_ready fi
      then f_error fi = TIMEOUT_ERROR \<and> f_result fi = NIL \<or>
        (\<exists>r. (f_msgid fi, r) \<in> set dn \<and> f_result fi = k_copy L (reply_result r) \<and> f_error fi = k_copy L (reply_error r))
      else f_msgid fi \<notin> fst ` set dn)"

definition in_flight :: "('u \<Rightarrow> 'b list \<Rightarrow> bool) \<Rightarrow> ('m \<Rightarrow> 'b list) \<Rightarrow> 'u \<Rightarrow> 'b list \<Rightarrow> 'm list \<Rightarrow> bool" where
  "in_flight held enc u net ms \<longleftrightarrow> (\<exists>p. held u p \<and> partial_frame enc p ms \<and> p @ net = concat (map enc ms))"

definition sys_inv ::
  "('x, 'b, 'u, 'ip) link \<Rightarrow> 'x outgoing list \<Rightarrow> (msgid \<times> 'x reply) list \<Rightarrow> (msgid \<times> 'x reply) list \<Rightarrow>
   ('x, 'ip, 'u tcp_client, 'b list) world \<Rightarrow> ('x, 'ip, 'u, 'b list) server \<Rightarrow> bool"
where
  "sys_inv L cs dn td w v \<longleftrightarrow>
     client_inv L cs w \<and> server_inv L cs (dn @ td) v \<and>
     in_flight (k_server_held L) (out_bytes (k_packer L)) (sh_pac (sock L v)) (w_net w) (drop (length (q_requests v)) cs) \<and>
     in_flight (k_held L) (reply_bytes (k_packer L)) (sh_pac (conn L w)) (v_net v) td \<and>
     (\<forall>f < length (h_futures w). answered L dn (fut w f))"

section \<open>Messages in flight\<close>

lemma in_flight_sends:
  assumes "in_flight held enc u net ms" "\<And>m. m \<in> set ms' \<Longrightarrow> enc m \<noteq> []"
  shows "in_flight held enc u (net @ concat (map enc ms')) (ms @ ms')"
proof -
  from assms(1) obtain p where p: "held u p" "partial_frame enc p ms" "p @ net = concat (map enc ms)"
    by (auto simp: in_flight_def)
  moreover have "partial_frame enc p (ms @ ms')"
    using p(2) assms(2) by (cases ms; cases ms') (auto simp: strict_prefix_def eq_commute[of "[]"])
  ultimately show ?thesis unfolding in_flight_def by (intro exI[of _ p]) (simp flip: append_assoc)
qed

lemma in_flight_reserve:
  "frames d held enc dec ok \<Longrightarrow> in_flight held enc u net ms \<Longrightarrow> in_flight held enc (pac_reserve d u) net ms"
  using frames_reserve[of d held enc dec ok] by (auto simp: in_flight_def)

lemma in_flight_none: "in_flight held enc u [] ms \<Longrightarrow> ms = []"
  using partial_frame_whole by (auto simp: in_flight_def)

lemma in_flight_read:
  assumes "frames d held enc dec ok" "in_flight held enc u (c @ rest) ms" "list_all ok ms"
  obtains ms1 ms2 obs u' where "ms = ms1 @ ms2" "pac_next_all d (pac_consumed d c u) = (obs, None, u')"
    "list_all2 (\<lambda>m (ob, z, v). dec m ob) ms1 obs" "pac_message_size d u' \<le> max_message_size"
    "in_flight held enc (pac_reserve d u') rest ms2"
proof -
  from assms(2) obtain p where p: "held u p" "p @ c @ rest = concat (map enc ms)" by (auto simp: in_flight_def)
  from frames_next[OF assms(1) p(1) assms(3) p(2)] obtain ms1 ms2 q obs u' where
    "ms = ms1 @ ms2" "partial_frame enc q ms2" "q @ rest = concat (map enc ms2)"
    "pac_next_all d (pac_consumed d c u) = (obs, None, u')" "list_all2 (\<lambda>m (ob, z, v). dec m ob) ms1 obs"
    "held u' q" "pac_message_size d u' \<le> max_message_size" by metis
  moreover from this have "in_flight held enc (pac_reserve d u') rest ms2"
    using frames_reserve[OF assms(1)] by (auto simp: in_flight_def)
  ultimately show ?thesis using that by blast
qed

lemma frames_nonempty: "frames d held enc dec ok \<Longrightarrow> ok m \<Longrightarrow> enc m \<noteq> []"
  by (simp add: frames_def)

lemma link_frames:
  assumes "link_ok L"
  shows "frames (k_server_decoder L) (k_server_held L) (out_bytes (k_packer L))
      (\<lambda>m. incoming_dec (k_server_decoder L) (received L m)) (k_sendable L)"
    and "frames (k_decoder L) (k_held L) (reply_bytes (k_packer L))
      (\<lambda>m. response_dec (k_decoder L) (delivered L m)) (\<lambda>(i, r). \<exists>m p. k_answers L m p r)"
  using assms by (simp_all add: link_ok_def)

lemma link_io:
  assumes "link_ok L"
  shows "sock_connect (k_asio L) (k_session L) ad n = (0, True, n)"
    "sock_write (k_asio L) (k_session L) bs n = (None, n @ bs)"
    "server_write (k_server_asio L) (k_sock L) bs n = (None, n @ bs)"
    "r \<in> set (k_compute L m p) \<Longrightarrow> k_answers L m p r"
  using assms by (simp_all add: link_ok_def)

section \<open>The client\<close>

lemma client_invD:
  assumes "client_inv L cs w" "length (calls cs) \<le> 2 ^ 32"
  shows "table_wf w" "no_orphan w" "k_session L < length (w_sessions w)" "0 < s_handles (ses w (k_session L))"
    and "length (h_futures w) = length (calls cs)"
  using assms by (simp_all add: client_inv_def run_inv_def)

lemma client_msgid_inj:
  assumes "client_inv L cs w" "length (calls cs) \<le> 2 ^ 32" "f < length (calls cs)" "g < length (calls cs)"
    and "f_msgid (fut w f) = f_msgid (fut w g)"
  shows "f = g"
  using assms word_of_nat_inj[of f g, where 'a = 32] by (simp add: client_inv_def)

text \<open>A step of the client that keeps what the system relies on.\<close>

definition client_frame ::
  "('x, 'b, 'u, 'ip) link \<Rightarrow> ('x, 'ip, 'u tcp_client, 'b list) world \<Rightarrow> ('x, 'ip, 'u tcp_client, 'b list) world \<Rightarrow> bool"
where
  "client_frame L w w' \<longleftrightarrow>
     length (w_sessions w') = length (w_sessions w) \<and> s_handles (ses w' (k_session L)) = s_handles (ses w (k_session L)) \<and>
     (loop_running w (k_session L) \<longrightarrow> loop_running w' (k_session L)) \<and>
     length (h_futures w') = length (h_futures w) \<and>
     s_msgid_rr (ses w' (k_session L)) = s_msgid_rr (ses w (k_session L)) \<and>
     (\<forall>f < length (h_futures w). f_msgid (fut w' f) = f_msgid (fut w f) \<and>
        (f_session (fut w' f) = f_session (fut w f) \<or> ready w' f)) \<and>
     conn L w' = conn L w \<and> w_net w' = w_net w"

lemma client_frame_inv:
  assumes "client_inv L cs w" "client_frame L w w'" "run_inv (length (calls cs)) 1 w'"
  shows "client_inv L cs w'"
proof -
  have "f_msgid (fut w' f) = f_msgid (fut w f) \<and> (ready w' f \<or> f_session (fut w' f) = Some (k_session L))"
    if "f < length (calls cs)" for f
  proof -
    have "f_msgid (fut w' f) = f_msgid (fut w f)" "f_session (fut w' f) = f_session (fut w f) \<or> ready w' f"
      "ready w f \<or> f_session (fut w f) = Some (k_session L)"
      using that assms(1,2) by (simp_all add: client_inv_def client_frame_def)
    then show ?thesis by (auto simp: is_ready_def)
  qed
  then show ?thesis using assms by (auto simp: client_inv_def client_frame_def)
qed

lemma retires_client_frame:
  assumes "retires w w'" "s_handles (ses w' (k_session L)) = s_handles (ses w (k_session L))"
    "s_loop (ses w' (k_session L)) = s_loop (ses w (k_session L))" "h_loops w' = h_loops w"
    "conn L w' = conn L w" "w_net w' = w_net w" "k_session L < length (w_sessions w)"
  shows "client_frame L w w'"
  using assms retiresD[OF assms(1)] unfolding client_frame_def by simp

lemma client_take_step:
  assumes inv: "client_inv L cs w" and len: "length (calls cs) \<le> 2 ^ 32"
    and ans: "\<And>f. f < length (h_futures w) \<Longrightarrow> answered L dn (fut w f)"
    and w': "w' = client_take (k_session L) (delivered L (i, r)) z w"
  shows "client_inv L cs w' \<and> (\<forall>f < length (h_futures w'). answered L (dn @ [(i, r)]) (fut w' f)) \<and>
    w_net w' = w_net w \<and> tcp w' (k_session L) = tcp w (k_session L)"
proof -
  let ?s = "k_session L"
  note d = client_invD[OF inv len]
  have eq: "w' = on_response ?s i (k_copy L (reply_result r)) (k_copy L (reply_error r)) (Some z) w"
    by (simp add: w' client_take_def)
  have ret: "retires w w'" unfolding eq by (rule on_response_retires[OF d(1,3)])
  have fr: "w_net w' = w_net w" "tcp w' ?s = tcp w ?s" "s_handles (ses w' ?s) = s_handles (ses w ?s)"
    "s_loop (ses w' ?s) = s_loop (ses w ?s)" "h_loops w' = h_loops w"
    by (simp_all add: eq on_response_def Let_def split: prod.split option.split)
  have "client_frame L w w'" by (rule retires_client_frame[OF ret]) (use fr d(3) in simp_all)
  moreover have "run_inv (length (calls cs)) 1 w'"
    using inv by (intro retires_run_inv[OF ret]) (simp add: client_inv_def)
  ultimately have "client_inv L cs w'" by (rule client_frame_inv[OF inv])
  moreover have "answered L (dn @ [(i, r)]) (fut w' f)" if f: "f < length (h_futures w')" for f
  proof -
    have f: "f < length (h_futures w)" using that retiresD(1)[OF ret] by simp
    show ?thesis
    proof (cases "(i, f) \<in> set (table w ?s)")
      case True
      then have "map_of (table w ?s) i = Some f" using map_of_table_iff[OF d(1,3)] by simp
      then show ?thesis
        using f table_wfD(4)[OF d(1,3) True] unfolding eq
        by (auto simp: on_response_known fut_set_result answered_def is_ready_def)
    next
      case False
      have same: "fut w' f = fut w f"
      proof (cases "map_of (table w ?s) i")
        case None
        then show ?thesis by (simp add: eq on_response_unknown)
      next
        case (Some g)
        with False have "g \<noteq> f" using map_of_table_iff[OF d(1,3)] by metis
        with Some show ?thesis by (simp add: eq on_response_known)
      qed
      have "f_msgid (fut w f) \<noteq> i" if "\<not> is_ready (fut w f)"
      proof -
        have "f_session (fut w f) = Some ?s" using that f inv d(5) by (auto simp: client_inv_def)
        with d(2) f have "(f_msgid (fut w f), f) \<in> set (table w ?s)" by (simp add: no_orphan_def)
        with False show ?thesis by metis
      qed
      with ans[OF f] same show ?thesis by (auto simp: answered_def split: if_splits)
    qed
  qed
  ultimately show ?thesis using fr by blast
qed

lemma client_take_all:
  assumes "client_inv L cs w" "length (calls cs) \<le> 2 ^ 32" "length zs = length rs"
    and "\<And>f. f < length (h_futures w) \<Longrightarrow> answered L dn (fut w f)"
    and "w' = handle_all (client_take (k_session L)) (map (delivered L) rs) zs w"
  shows "client_inv L cs w' \<and> (\<forall>f < length (h_futures w'). answered L (dn @ rs) (fut w' f)) \<and>
    w_net w' = w_net w \<and> tcp w' (k_session L) = tcp w (k_session L)"
  using assms
proof (induction rs arbitrary: dn w zs)
  case (Cons ir rs)
  obtain i r z zs' where ir: "ir = (i, r)" "zs = z # zs'" using Cons.prems(3) by (cases ir; cases zs) auto
  define w1 where "w1 = client_take (k_session L) (delivered L (i, r)) z w"
  have 1: "client_inv L cs w1 \<and> (\<forall>f < length (h_futures w1). answered L (dn @ [(i, r)]) (fut w1 f)) \<and>
      w_net w1 = w_net w \<and> tcp w1 (k_session L) = tcp w (k_session L)"
    by (rule client_take_step[OF Cons.prems(1,2) _ w1_def]) (rule Cons.prems(4))
  have "client_inv L cs w' \<and> (\<forall>f < length (h_futures w'). answered L ((dn @ [(i, r)]) @ rs) (fut w' f)) \<and>
      w_net w' = w_net w1 \<and> tcp w' (k_session L) = tcp w1 (k_session L)"
    by (rule Cons.IH[of w1 zs' "dn @ [(i, r)]"]) (use 1 Cons.prems ir in \<open>simp_all add: w1_def\<close>)
  with 1 ir show ?case by simp
qed simp

lemma calls_distinct:
  assumes "client_inv L cs w" "length (calls cs) \<le> 2 ^ 32"
  shows "distinct (map fst (calls cs))"
proof -
  have "map fst (calls cs) ! f = 1 + of_nat f" if "f < length (calls cs)" for f
    using assms(1) that by (simp add: client_inv_def)
  moreover have "f = g" if "(of_nat f :: msgid) = of_nat g" "f < length (calls cs)" "g < length (calls cs)" for f g
    using word_of_nat_inj[of f g, where 'a = 32] that assms(2) by simp
  ultimately show ?thesis by (auto simp: distinct_conv_nth)
qed

lemma replies_ok:
  assumes "server_inv L cs rs v"
  shows "list_all (\<lambda>(i, r). \<exists>m p. k_answers L m p r) rs"
  using assms unfolding server_inv_def owned_def list_all_iff by blast

lemma server_inv_net [simp]: "server_inv L cs rs (v\<lparr>v_net := n\<rparr>) = server_inv L cs rs v"
  by (simp add: server_inv_def senders_def)

lemma client_read_inv:
  assumes L: "link_ok L" and inv: "sys_inv L cs dn td w v" and len: "length (calls cs) \<le> 2 ^ 32"
    and net: "v_net v = c @ rest"
  shows "(\<exists>dn' td'. sys_inv L cs dn' td' (client_reads L c w) (v\<lparr>v_net := rest\<rparr>)) \<and> w_net (client_reads L c w) = w_net w"
proof -
  let ?s = "k_session L" and ?d = "k_decoder L"
  have cl: "client_inv L cs w" and sv: "server_inv L cs (dn @ td) v"
    and fl: "in_flight (k_held L) (reply_bytes (k_packer L)) (sh_pac (conn L w)) (c @ rest) td"
    and ans: "\<And>f. f < length (h_futures w) \<Longrightarrow> answered L dn (fut w f)"
    using inv net by (simp_all add: sys_inv_def)
  note d = client_invD[OF cl len]
  from replies_ok[OF sv] have "list_all (\<lambda>(i, r). \<exists>m p. k_answers L m p r) td" by simp
  from in_flight_read[OF link_frames(2)[OF L] fl this] obtain rs1 rs2 obs u where
    td: "td = rs1 @ rs2" and nx: "pac_next_all ?d (pac_consumed ?d c (sh_pac (conn L w))) = (obs, None, u)"
      "list_all2 (\<lambda>m (ob, z, v). response_dec ?d (delivered L m) ob) rs1 obs"
      "pac_message_size ?d u \<le> max_message_size"
      "in_flight (k_held L) (reply_bytes (k_packer L)) (pac_reserve ?d u) rest rs2" by metis
  let ?zs = "map (fst \<circ> snd) obs"
  let ?h = "\<lparr>sh_pac = pac_reserve ?d u, sh_open = sh_open (conn L w), sh_reading = True\<rparr>"
  define w1 where "w1 = handle_all (client_take ?s) (map (delivered L) rs1) ?zs w"
  have "list_all2 (\<lambda>m (ob, z, v). response_dec ?d m ob) (map (delivered L) rs1) obs"
    using nx(2) by (simp add: list_all2_map1)
  from client_frames.on_read_frames[OF _ _ this nx(3), of ?s w c] d(3,4) nx(1)
  have eq: "client_reads L c w = tcp_put_conn ?s ?h w1"
    by (simp add: client_reads_def w1_def tcp_client_vt_def)
  have 1: "client_inv L cs w1 \<and> (\<forall>f < length (h_futures w1). answered L (dn @ rs1) (fut w1 f)) \<and>
      w_net w1 = w_net w \<and> tcp w1 ?s = tcp w ?s"
    by (rule client_take_all[OF cl len _ _ w1_def]) (use ans list_all2_lengthD[OF nx(2)] in simp_all)
  then have s1: "?s < length (w_sessions w1)" by (simp add: client_inv_def)
  have cl1: "client_inv L cs (tcp_put_conn ?s ?h w1)"
  proof -
    have "run_inv (length (calls cs)) 1 (tcp_put_conn ?s ?h w1)"
      using 1 by (intro retires_run_inv[OF retires_tcp_put_conn]) (simp add: client_inv_def)
    with 1 s1 cl show ?thesis by (simp add: client_inv_def conn_put_conn)
  qed
  have "sys_inv L cs (dn @ rs1) rs2 (tcp_put_conn ?s ?h w1) (v\<lparr>v_net := rest\<rparr>)"
    using cl1 sv td inv nx(4) 1 s1 by (simp add: sys_inv_def conn_put_conn)
  then show ?thesis using 1 unfolding eq by auto
qed

section \<open>The server\<close>

lemma write_replies_link:
  "link_ok L \<Longrightarrow> write_replies (k_server_asio L) pk (k_sock L) rs n = n @ concat (map (reply_bytes pk) rs)"
proof (induction rs arbitrary: n)
  case Nil
  then show ?case by (simp add: write_replies_def)
next
  case (Cons ir rs)
  then show ?case by (cases ir) (simp add: write_replies_def link_io)
qed

lemma request_as_taken [simp]: "request_as (taken_request compute k (received L m) z) = sent_as L m"
  by (cases m) (simp_all add: request_as_def new_request_impl_def)

definition replies_at_once :: "('x, 'b, 'u, 'ip) link \<Rightarrow> 'x outgoing list \<Rightarrow> (msgid \<times> 'x reply) list" where
  "replies_at_once L ms = concat (map (first_reply (k_compute L) \<circ> received L) ms)"

lemma replies_at_once_simps [simp]:
  "replies_at_once L [] = []"
  "replies_at_once L (m # ms) = first_reply (k_compute L) (received L m) @ replies_at_once L ms"
  by (simp_all add: replies_at_once_def)

lemma first_reply_calls:
  "ir \<in> set (first_reply (k_compute L) (received L m)) \<Longrightarrow>
    \<exists>n p z. m = Out_request (fst ir) n p z \<and> snd ir \<in> set (k_compute L (k_method L n) (k_params L p))"
  by (cases m) (auto dest: in_set_takeD)

lemma replies_at_once_calls:
  assumes "(i, r) \<in> set (replies_at_once L ms)"
  shows "\<exists>m p z. Out_request i m p z \<in> set ms \<and> r \<in> set (k_compute L (k_method L m) (k_params L p))"
proof -
  from assms obtain c where c: "c \<in> set ms" "(i, r) \<in> set (first_reply (k_compute L) (received L c))"
    by (auto simp: replies_at_once_def)
  from first_reply_calls[OF c(2)] c(1) show ?thesis by auto
qed

lemma call_in_calls: "Out_request i m p z \<in> set ms \<Longrightarrow> (i, m, p) \<in> set (calls ms)"
  by (force simp: calls_def)

lemma replies_at_once_ids: "fst ` set (replies_at_once L ms) \<subseteq> fst ` set (calls ms)"
proof
  fix i assume "i \<in> fst ` set (replies_at_once L ms)"
  then obtain r where "(i, r) \<in> set (replies_at_once L ms)" by auto
  from replies_at_once_calls[OF this] obtain m p z where "Out_request i m p z \<in> set ms" by blast
  from call_in_calls[OF this] show "i \<in> fst ` set (calls ms)" by force
qed

lemma replies_at_once_distinct:
  "distinct (map fst (calls ms)) \<Longrightarrow> distinct (map fst (replies_at_once L ms))"
proof (induction ms)
  case (Cons m ms)
  have "distinct (map fst (first_reply (k_compute L) (received L m)))"
  proof (cases m)
    case (Out_request i n p z)
    then show ?thesis by (cases "k_compute L (k_method L n) (k_params L p)") simp_all
  qed simp
  moreover have "fst ` set (first_reply (k_compute L) (received L m)) \<subseteq> fst ` set (call_of m)"
    using first_reply_calls[of _ L m] by fastforce
  ultimately show ?case using Cons replies_at_once_ids[of L ms] by auto
qed simp

lemma replies_at_once_answered:
  assumes "distinct (map fst (calls ms))" "Out_request i m p z \<in> set ms"
  shows "i \<in> fst ` set (replies_at_once L ms) \<longleftrightarrow> k_compute L (k_method L m) (k_params L p) \<noteq> []"
proof
  assume "i \<in> fst ` set (replies_at_once L ms)"
  then obtain r where "(i, r) \<in> set (replies_at_once L ms)" by auto
  from replies_at_once_calls[OF this] obtain m' p' z' where
    o: "Out_request i m' p' z' \<in> set ms" "r \<in> set (k_compute L (k_method L m') (k_params L p'))" by blast
  with call_in_calls[OF o(1)] call_in_calls[OF assms(2)] assms(1) have "(m', p') = (m, p)"
    by (metis eq_key_imp_eq_value)
  with o(2) show "k_compute L (k_method L m) (k_params L p) \<noteq> []" by auto
next
  assume "k_compute L (k_method L m) (k_params L p) \<noteq> []"
  then have "i \<in> fst ` set (first_reply (k_compute L) (received L (Out_request i m p z)))"
    by (cases "k_compute L (k_method L m) (k_params L p)") simp_all
  then show "i \<in> fst ` set (replies_at_once L ms)" using assms(2) by (force simp: replies_at_once_def)
qed

lemma taken_sender:
  "distinct (map fst (calls ms)) \<Longrightarrow> m \<in> set ms \<Longrightarrow>
    r_ms (taken_request (k_compute L) (k_sock L) (received L m) z) = sender L (replies_at_once L ms) m"
  by (cases m) (simp_all add: replies_at_once_answered new_request_impl_def)

lemma sender_old:
  assumes "m \<in> set ms" "fst ` set (calls ms) \<inter> fst ` set new = {}"
  shows "sender L (rs @ new) m = sender L rs m"
proof (cases m)
  case (Out_request i n p z)
  with assms call_in_calls[of i n p z ms] have "i \<notin> fst ` set new" by force
  with Out_request show ?thesis by (simp add: image_Un)
qed simp

lemma sender_new:
  assumes "m \<in> set ms" "fst ` set (calls ms) \<inter> fst ` set rs = {}"
  shows "sender L (rs @ new) m = sender L new m"
proof (cases m)
  case (Out_request i n p z)
  with assms call_in_calls[of i n p z ms] have "i \<notin> fst ` set rs" by force
  with Out_request show ?thesis by (simp add: image_Un)
qed simp

lemma owned_take:
  assumes "link_ok L" "owned L cs rs" "set ms \<subseteq> set cs"
  shows "owned L cs (rs @ replies_at_once L ms)"
  unfolding owned_def
proof clarify
  fix i r assume "(i, r) \<in> set (rs @ replies_at_once L ms)"
  then consider "(i, r) \<in> set rs" | "(i, r) \<in> set (replies_at_once L ms)" by auto
  then show "\<exists>m p. (i, m, p) \<in> set (calls cs) \<and> k_answers L (k_method L m) (k_params L p) r"
  proof cases
    case 1
    then show ?thesis using assms(2) by (auto simp: owned_def)
  next
    case 2
    from replies_at_once_calls[OF this] obtain m p z where
      "Out_request i m p z \<in> set ms" "r \<in> set (k_compute L (k_method L m) (k_params L p))" by blast
    then show ?thesis using assms(3) call_in_calls[of i m p z cs] link_io(4)[OF assms(1)] by blast
  qed
qed

lemma senders_take:
  assumes inv: "senders L cs rs v" and n: "length (q_requests v) \<le> length cs"
    and ms: "drop (length (q_requests v)) cs = ms @ ms2" "length zs = length ms"
    and ids: "fst ` set rs \<subseteq> fst ` set (calls (take (length (q_requests v)) cs))"
    and dj: "fst ` set (calls (take (length (q_requests v)) cs)) \<inter> fst ` set (calls ms) = {}"
    and dist: "distinct (map fst (calls ms))"
    and rq': "q_requests v' = q_requests v @ map2 (taken_request (k_compute L) (k_sock L)) (map (received L) ms) zs"
  shows "senders L cs (rs @ replies_at_once L ms) v'"
  unfolding senders_def
proof (intro allI impI)
  let ?n = "length (q_requests v)"
  fix q assume q: "q < length (q_requests v')"
  show "r_ms (rq v' q) = sender L (rs @ replies_at_once L ms) (cs ! q)"
  proof (cases "q < ?n")
    case True
    then have old: "cs ! q \<in> set (take ?n cs)" using n by (auto simp: in_set_conv_nth)
    have "fst ` set (calls (take ?n cs)) \<inter> fst ` set (replies_at_once L ms) = {}"
      using dj replies_at_once_ids[of L ms] by blast
    from sender_old[OF old this]
    have "sender L (rs @ replies_at_once L ms) (cs ! q) = sender L rs (cs ! q)" .
    then show ?thesis using True inv by (simp add: senders_def rq' nth_append)
  next
    case False
    define j where "j = q - ?n"
    have qj: "q = ?n + j" "j < length ms" using False q ms(2) by (simp_all add: j_def rq')
    have "cs ! q = ms ! j" using ms(1) qj n by (metis nth_append nth_drop)
    moreover from qj(2) have "ms ! j \<in> set ms" by simp
    moreover have "fst ` set (calls ms) \<inter> fst ` set rs = {}" using ids dj by blast
    ultimately have "sender L (rs @ replies_at_once L ms) (cs ! q) = sender L (replies_at_once L ms) (cs ! q)"
      by (simp add: sender_new)
    then show ?thesis
      using taken_sender[OF dist, of "ms ! j" L "zs ! j"] \<open>ms ! j \<in> set ms\<close> \<open>cs ! q = ms ! j\<close> qj ms(2)
      by (simp add: rq' nth_append)
  qed
qed

text \<open>The messages \<open>ms\<close> reach the program.\<close>

lemma server_inv_take:
  assumes inv: "server_inv L cs rs v" and L: "link_ok L" and dist: "distinct (map fst (calls cs))"
    and ms: "drop (length (q_requests v)) cs = ms @ ms2" "length zs = length ms"
    and op: "sh_open (sock L v)" "sh_open (sock L v')" "v_alive v'" "v_dp v'" "length (v_socks v') = length (v_socks v)"
    and rq': "q_requests v' = q_requests v @ map2 (taken_request (k_compute L) (k_sock L)) (map (received L) ms) zs"
  shows "server_inv L cs (rs @ replies_at_once L ms) v'"
proof -
  let ?n = "length (q_requests v)" and ?new = "replies_at_once L ms"
  have cs: "cs = take ?n cs @ ms @ ms2" using ms(1) by (metis append_take_drop_id)
  have ca: "calls cs = calls (take ?n cs) @ calls ms @ calls ms2" using arg_cong[OF cs, of calls] by simp
  have n: "?n \<le> length cs" "length (q_requests v') = ?n + length ms"
    and ids: "fst ` set rs \<subseteq> fst ` set (calls (take ?n cs))"
    using inv ms(2) rq' by (simp_all add: server_inv_def)
  have tk: "take (length (q_requests v')) cs = take ?n cs @ ms" using n(2) ms(1) by (simp add: take_add)
  have dj: "fst ` set (calls (take ?n cs)) \<inter> fst ` set (calls ms) = {}" "distinct (map fst (calls ms))"
    using dist unfolding ca by auto
  have "map request_as (map2 (taken_request (k_compute L) (k_sock L)) (map (received L) ms) zs) = map (sent_as L) ms"
    using ms(2) by (intro nth_equalityI) simp_all
  then have "map request_as (q_requests v') = map (sent_as L) (take (length (q_requests v')) cs)"
    unfolding tk using inv by (simp add: rq' server_inv_def)
  moreover have "distinct (map fst (rs @ ?new))"
    using inv replies_at_once_distinct[OF dj(2), of L] ids replies_at_once_ids[of L ms] dj(1)
    by (auto simp: server_inv_def)
  moreover have "fst ` set (rs @ ?new) \<subseteq> fst ` set (calls (take (length (q_requests v')) cs))"
    using ids replies_at_once_ids[of L ms] by (auto simp: tk)
  moreover have "owned L cs rs" using inv by (simp add: server_inv_def)
  from owned_take[OF L this] have "owned L cs (rs @ ?new)" using arg_cong[OF cs, of set] by auto
  moreover have "senders L cs (rs @ ?new) v'"
    using inv by (intro senders_take[OF _ n(1) ms ids dj rq']) (simp add: server_inv_def)
  moreover have "length (q_requests v') \<le> length cs" using arg_cong[OF ms(1), of length] n by simp
  ultimately show ?thesis using op inv unfolding server_inv_def by auto
qed

lemma reply_nonempty:
  assumes "link_ok L" "server_inv L cs rs v" "ir \<in> set rs"
  shows "reply_bytes (k_packer L) ir \<noteq> []"
  using replies_ok[OF assms(2)] assms(3) by (intro frames_nonempty[OF link_frames(2)[OF assms(1)]]) (auto simp: list_all_iff)

lemma server_reads_eq:
  assumes "link_ok L" "connection_ready (k_server_asio L) (k_sock L) v"
    and "pac_next_all (k_server_decoder L) (pac_consumed (k_server_decoder L) c (sh_pac (sock L v))) = (obs, None, u)"
      "list_all2 (\<lambda>m (ob, z, v). incoming_dec (k_server_decoder L) (received L m) ob) ms obs"
      "pac_message_size (k_server_decoder L) u \<le> max_message_size"
  shows "server_reads L c v =
    put_sock (k_sock L) \<lparr>sh_pac = pac_reserve (k_server_decoder L) u, sh_open = True, sh_reading = True\<rparr>
      (v\<lparr>q_requests := q_requests v @ map2 (taken_request (k_compute L) (k_sock L)) (map (received L) ms) (map (fst \<circ> snd) obs),
         v_net := v_net v @ concat (map (reply_bytes (k_packer L)) (replies_at_once L ms))\<rparr>)"
proof -
  let ?a = "k_server_asio L" and ?zs = "map (fst \<circ> snd) obs"
  have zs: "length ?zs = length (map (received L) ms)" using list_all2_lengthD[OF assms(4)] by simp
  have "list_all2 (\<lambda>m (ob, z, v). incoming_dec (k_server_decoder L) m ob) (map (received L) ms) obs"
    using assms(4) by (simp add: list_all2_map1)
  from server_frames.on_read_frames[OF assms(2) _ this assms(5), of c "k_packer L" "k_compute L"] assms(2,3)
  show ?thesis
    by (simp add: server_reads_def server_vt_def server_take_all[OF zs] write_replies_link[OF assms(1)] replies_at_once_def
        connection_ready_def)
qed

lemma server_read_inv:
  assumes L: "link_ok L" and inv: "sys_inv L cs dn td w v" and len: "length (calls cs) \<le> 2 ^ 32"
    and op: "sh_open (sock L v)" and net: "w_net w = c @ rest"
  shows "\<exists>td'. sys_inv L cs dn td' (w\<lparr>w_net := rest\<rparr>) (server_reads L c v)"
proof -
  let ?k = "k_sock L" and ?d = "k_server_decoder L" and ?pk = "k_packer L" and ?a = "k_server_asio L"
  let ?vt = "server_vt ?a (reply_dispatch ?pk ?a (k_compute L)) ?k"
  have cl: "client_inv L cs w" and sv: "server_inv L cs (dn @ td) v"
    and fl: "in_flight (k_server_held L) (out_bytes ?pk) (sh_pac (sock L v)) (c @ rest) (drop (length (q_requests v)) cs)"
    and dn: "in_flight (k_held L) (reply_bytes ?pk) (sh_pac (conn L w)) (v_net v) td"
    using inv net by (simp_all add: sys_inv_def)
  have "list_all (k_sendable L) (drop (length (q_requests v)) cs)"
    using sv by (auto simp: server_inv_def list_all_iff dest: in_set_dropD)
  from in_flight_read[OF link_frames(1)[OF L] fl this] obtain ms1 ms2 obs u where
    ms: "drop (length (q_requests v)) cs = ms1 @ ms2"
    and nx: "pac_next_all ?d (pac_consumed ?d c (sh_pac (sock L v))) = (obs, None, u)"
      "list_all2 (\<lambda>m (ob, z, v). incoming_dec ?d (received L m) ob) ms1 obs"
      "pac_message_size ?d u \<le> max_message_size"
      "in_flight (k_server_held L) (out_bytes ?pk) (pac_reserve ?d u) rest ms2" by metis
  let ?zs = "map (fst \<circ> snd) obs"
  let ?h = "\<lparr>sh_pac = pac_reserve ?d u, sh_open = True, sh_reading = True\<rparr>"
  have zs: "length ?zs = length ms1" using list_all2_lengthD[OF nx(2)] by simp
  define v1 where "v1 = v\<lparr>q_requests := q_requests v @ map2 (taken_request (k_compute L) ?k) (map (received L) ms1) ?zs,
      v_net := v_net v @ concat (map (reply_bytes ?pk) (replies_at_once L ms1))\<rparr>"
  have "connection_ready ?a ?k v" using sv op link_io(3)[OF L] by (simp add: connection_ready_def server_inv_def)
  from server_reads_eq[OF L this nx(1-3)] have eq: "server_reads L c v = put_sock ?k ?h v1" by (simp add: v1_def)
  have k: "?k < length (v_socks v)" using sv by (simp add: server_inv_def)
  define v' where "v' = put_sock ?k ?h v1"
  have sv': "server_inv L cs ((dn @ td) @ replies_at_once L ms1) v'"
    by (rule server_inv_take[OF sv L calls_distinct[OF cl len] ms _ op, where zs = ?zs])
       (use zs k sv in \<open>simp_all add: v'_def v1_def sock_put_sock server_inv_def\<close>)
  have "length (q_requests v') = length (q_requests v) + length ms1" using zs by (simp add: v'_def v1_def)
  then have dr: "drop (length (q_requests v')) cs = ms2" using ms by (metis append_eq_conv_conj drop_drop add.commute)
  have "in_flight (k_held L) (reply_bytes ?pk) (sh_pac (conn L w)) (v_net v') (td @ replies_at_once L ms1)"
    unfolding v'_def v1_def
    using reply_nonempty[OF L sv'] by (simp add: in_flight_sends[OF dn])
  with sv' dr nx(4) cl inv k have "sys_inv L cs dn (td @ replies_at_once L ms1) (w\<lparr>w_net := rest\<rparr>) v'"
    by (simp add: sys_inv_def client_inv_def v'_def v1_def sock_put_sock same_run_inv[OF same_session_ops(4)])
  then show ?thesis unfolding eq v'_def by blast
qed

lemma calls_split: "calls cs = calls (take n cs) @ calls (drop n cs)"
  by (simp flip: calls_simps(3))

lemma call_unique:
  assumes "distinct (map fst (calls cs))" "q < q'" "q' < length cs"
    and "cs ! q = Out_request i m p z" "cs ! q' = Out_request i' m' p' z'"
  shows "i \<noteq> i'"
proof -
  have "cs ! q \<in> set (take q' cs)" using assms(2,3) by (auto simp: in_set_conv_nth)
  moreover have "cs ! q' \<in> set (drop q' cs)" using assms(3) by (metis Cons_nth_drop_Suc list.set_intros(1))
  ultimately have "(i, m, p) \<in> set (calls (take q' cs))" "(i', m', p') \<in> set (calls (drop q' cs))"
    using assms(4,5) call_in_calls by metis+
  moreover have "fst ` set (calls (take q' cs)) \<inter> fst ` set (calls (drop q' cs)) = {}"
    using assms(1) unfolding calls_split[of cs q'] by simp
  ultimately show ?thesis by force
qed

text \<open>The program replies to a request that it has not answered yet.\<close>

lemma senders_reply:
  assumes "senders L cs rs v" "distinct (map fst (calls cs))" "q < length (q_requests v)"
    "length (q_requests v) \<le> length cs" "cs ! q = Out_request i m p z"
    and v': "q_requests v' = (q_requests v)[q := (rq v q)\<lparr>r_ms := None\<rparr>]"
  shows "senders L cs (rs @ [(i, r)]) v'"
  unfolding senders_def
proof (intro allI impI)
  fix q' assume q': "q' < length (q_requests v')"
  show "r_ms (rq v' q') = sender L (rs @ [(i, r)]) (cs ! q')"
  proof (cases "q' = q")
    case True
    then show ?thesis using assms(3,5) by (simp add: v')
  next
    case False
    have "i' \<noteq> i" if "cs ! q' = Out_request i' m' p' z'" for i' m' p' z'
      using False call_unique[OF assms(2) _ _ assms(5) that] call_unique[OF assms(2) _ _ that assms(5)] assms(3,4) q'
      by (auto simp: v' linorder_neq_iff)
    then have "sender L (rs @ [(i, r)]) (cs ! q') = sender L rs (cs ! q')" by (cases "cs ! q'") simp_all
    then show ?thesis using False assms(1) q' by (simp add: senders_def v')
  qed
qed

lemma server_inv_reply:
  assumes inv: "server_inv L cs rs v" and dist: "distinct (map fst (calls cs))" and q: "q < length (q_requests v)"
    and c: "cs ! q = Out_request i m p z" "i \<notin> fst ` set rs" and ans: "k_answers L (k_method L m) (k_params L p) r"
    and v': "v' = v\<lparr>q_requests := (q_requests v)[q := (rq v q)\<lparr>r_ms := None\<rparr>], v_net := n\<rparr>"
  shows "server_inv L cs (rs @ [(i, r)]) v'"
proof -
  have n: "length (q_requests v) \<le> length cs" "senders L cs rs v" "owned L cs rs"
    and sub: "fst ` set rs \<subseteq> fst ` set (calls (take (length (q_requests v)) cs))"
    using inv by (simp_all add: server_inv_def)
  have "cs ! q \<in> set (take (length (q_requests v)) cs)" using q n by (auto simp: in_set_conv_nth)
  then have call: "(i, m, p) \<in> set (calls (take (length (q_requests v)) cs))" using c(1) call_in_calls by metis
  then have call': "(i, m, p) \<in> set (calls cs)" by (subst calls_split[of cs "length (q_requests v)"]) simp
  have "map request_as (q_requests v') = map request_as (q_requests v)"
    using q by (intro nth_equalityI) (auto simp: v' nth_list_update request_as_def)
  moreover have "owned L cs (rs @ [(i, r)])" using n(3) call' ans by (auto simp: owned_def)
  moreover have "senders L cs (rs @ [(i, r)]) v'" by (rule senders_reply[OF n(2) dist q n(1) c(1)]) (simp add: v')
  moreover have "fst ` set (rs @ [(i, r)]) \<subseteq> fst ` set (calls (take (length (q_requests v')) cs))"
    using sub rev_image_eqI[OF call, of i fst] by (simp add: v')
  moreover have "distinct (map fst (rs @ [(i, r)]))" using inv c(2) by (simp add: server_inv_def)
  ultimately show ?thesis using inv q unfolding server_inv_def by (auto simp: v')
qed

lemma reply_inv:
  assumes L: "link_ok L" and inv: "sys_inv L cs dn td w v" and len: "length (calls cs) \<le> 2 ^ 32"
    and q: "q < length (q_requests v)" and ans: "k_answers L (r_method (rq v q)) (r_params (rq v q)) r"
  shows "\<exists>td'. sys_inv L cs dn td' w (server_replies L q r v)"
proof (cases "is_sent q v")
  case True
  then have "server_replies L q r v = v" by (simp add: server_replies_def request_reply_sent)
  with inv show ?thesis by auto
next
  case False
  let ?k = "k_sock L" and ?pk = "k_packer L"
  have sv: "server_inv L cs (dn @ td) v" and cl: "client_inv L cs w"
    and dn: "in_flight (k_held L) (reply_bytes ?pk) (sh_pac (conn L w)) (v_net v) td"
    using inv by (simp_all add: sys_inv_def)
  have n: "length (q_requests v) \<le> length cs" "map request_as (q_requests v) = map (sent_as L) (take (length (q_requests v)) cs)"
    using sv by (simp_all add: server_inv_def)
  have "r_ms (rq v q) = sender L (dn @ td) (cs ! q)" using sv q by (simp add: server_inv_def senders_def)
  with False obtain i m p z where c: "cs ! q = Out_request i m p z" "i \<notin> fst ` set (dn @ td)" "r_ms (rq v q) = Some ?k"
    by (cases "cs ! q") (auto simp: is_sent_def split: if_splits)
  have "request_as (rq v q) = sent_as L (cs ! q)"
    using arg_cong[OF n(2), of "\<lambda>xs. xs ! q"] q n(1) by simp
  with c have rq: "r_msgid (rq v q) = i" "r_method (rq v q) = k_method L m" "r_params (rq v q) = k_params L p"
    by (simp_all add: request_as_def)
  have op: "sh_open (sock L v)" using sv q by (auto simp: server_inv_def)
  define v' where "v' = v\<lparr>q_requests := (q_requests v)[q := (rq v q)\<lparr>r_ms := None\<rparr>], v_net := v_net v @ reply_bytes ?pk (i, r)\<rparr>"
  have "server_ms_send (k_server_asio L) ?k (reply_buf ?pk i r) v = (None, v\<lparr>v_net := v_net v @ reply_bytes ?pk (i, r)\<rparr>)"
    using op link_io(3)[OF L] by (intro server_ms_send_open) simp_all
  with request_send_data_tcp[OF c(3), of "k_server_asio L" "reply_buf ?pk i r"]
    request_reply_pending[OF c(3), of ?pk "server_ms_send (k_server_asio L)" r] rq(1)
  have eq: "server_replies L q r v = v'" by (simp add: server_replies_def v'_def)
  have sv': "server_inv L cs ((dn @ td) @ [(i, r)]) v'"
    by (rule server_inv_reply[OF sv calls_distinct[OF cl len] q c(1,2) _ v'_def]) (use ans rq in simp)
  have "in_flight (k_held L) (reply_bytes ?pk) (sh_pac (conn L w)) (v_net v') (td @ [(i, r)])"
    using reply_nonempty[OF L sv', of "(i, r)"] in_flight_sends[OF dn, of "[(i, r)]"] by (simp add: v'_def)
  with sv' inv have "sys_inv L cs dn (td @ [(i, r)]) w v'" by (simp add: sys_inv_def v'_def)
  then show ?thesis unfolding eq by blast
qed

text \<open>Sending over the link, connecting first if needed.\<close>

lemma link_send:
  assumes L: "link_ok L" and s: "k_session L < length (w_sessions w)" "loop_running w (k_session L)"
  shows "\<exists>w'. tcp_send_data (k_asio L) (k_decoder L) (k_session L) buf w = (None, w') \<and>
    w_net w' = w_net w @ outbuf_bytes buf \<and> h_futures w' = h_futures w \<and> h_loops w' = h_loops w \<and>
    length (w_sessions w') = length (w_sessions w) \<and> s_loop (ses w' (k_session L)) = s_loop (ses w (k_session L)) \<and>
    s_handles (ses w' (k_session L)) = s_handles (ses w (k_session L)) \<and>
    s_msgid_rr (ses w' (k_session L)) = s_msgid_rr (ses w (k_session L)) \<and> sh_open (conn L w') \<and>
    sh_pac (conn L w') \<in> {sh_pac (conn L w), pac_reserve (k_decoder L) (sh_pac (conn L w))}"
proof (cases "sh_open (conn L w)")
  case True
  then have "tcp_send_data (k_asio L) (k_decoder L) (k_session L) buf w = (None, w\<lparr>w_net := w_net w @ outbuf_bytes buf\<rparr>)"
    using link_io[OF L] s by (intro tcp_send_data_open) simp_all
  with True show ?thesis by simp
next
  case False
  let ?a = "k_asio L" and ?d = "k_decoder L" and ?s = "k_session L"
  from tcp_connect_accepted[OF s(2,1) link_io(1)[OF L], of ?d] obtain w1 where w1:
    "tcp_connect ?a ?d ?s w = (None, w1)"
    "conn L w1 = \<lparr>sh_pac = pac_reserve ?d (sh_pac (conn L w)), sh_open = True, sh_reading = True\<rparr>"
    "w_net w1 = w_net w" "h_futures w1 = h_futures w" "h_loops w1 = h_loops w"
    "s_msgid_rr (ses w1 ?s) = s_msgid_rr (ses w ?s)" "s_handles (ses w1 ?s) = s_handles (ses w ?s)"
    "s_loop (ses w1 ?s) = s_loop (ses w ?s)" "length (w_sessions w1) = length (w_sessions w)" by blast
  have "tcp_send_data ?a ?d ?s buf w = (None, stream_send_data (tcp_sock_write ?a ?s) (tcp_client_vt ?s) buf w1)"
    using False w1(1) by (simp add: tcp_send_data_def flush_running[OF s(2)])
  also have "stream_send_data (tcp_sock_write ?a ?s) (tcp_client_vt ?s) buf w1 = w1\<lparr>w_net := w_net w @ outbuf_bytes buf\<rparr>"
    using w1(2,3) link_io(2)[OF L] by (simp add: stream_send_data_def tcp_client_vt_def tcp_sock_write_def)
  finally show ?thesis using w1 by simp
qed

lemma server_inv_ids:
  assumes "server_inv L cs rs v" "(i, r) \<in> set rs"
  shows "\<exists>m p. (i, m, p) \<in> set (calls cs) \<and> k_answers L (k_method L m) (k_params L p) r"
  using assms by (auto simp: server_inv_def owned_def)

lemma server_inv_more:
  assumes inv: "server_inv L cs rs v" and m: "k_sendable L m"
  shows "server_inv L (cs @ [m]) rs v"
proof -
  have n: "length (q_requests v) \<le> length cs" using inv by (simp add: server_inv_def)
  have "owned L (cs @ [m]) rs" using server_inv_ids[OF inv] by (fastforce simp: owned_def)
  moreover have "senders L (cs @ [m]) rs v" using inv n by (simp add: server_inv_def senders_def nth_append)
  ultimately show ?thesis using inv m n unfolding server_inv_def by simp
qed

text \<open>A message \<open>m\<close> enters the stream to the server.\<close>

lemma sys_inv_send:
  assumes L: "link_ok L" and inv: "sys_inv L cs dn td w v" and m: "k_sendable L m"
    and cl: "client_inv L (cs @ [m]) w'" and net: "w_net w' = w_net w @ out_bytes (k_packer L) m"
    and pac: "sh_pac (conn L w') \<in> {sh_pac (conn L w), pac_reserve (k_decoder L) (sh_pac (conn L w))}"
    and ans: "\<forall>f < length (h_futures w'). answered L dn (fut w' f)"
  shows "sys_inv L (cs @ [m]) dn td w' v"
proof -
  have sv: "server_inv L cs (dn @ td) v"
    and up: "in_flight (k_server_held L) (out_bytes (k_packer L)) (sh_pac (sock L v)) (w_net w) (drop (length (q_requests v)) cs)"
    and dn: "in_flight (k_held L) (reply_bytes (k_packer L)) (sh_pac (conn L w)) (v_net v) td"
    using inv by (simp_all add: sys_inv_def)
  have n: "length (q_requests v) \<le> length cs" using sv by (simp add: server_inv_def)
  have "in_flight (k_server_held L) (out_bytes (k_packer L)) (sh_pac (sock L v)) (w_net w')
      (drop (length (q_requests v)) (cs @ [m]))"
    using in_flight_sends[OF up, of "[m]"] frames_nonempty[OF link_frames(1)[OF L] m] n net by simp
  moreover have "in_flight (k_held L) (reply_bytes (k_packer L)) (sh_pac (conn L w')) (v_net v) td"
    using pac dn in_flight_reserve[OF link_frames(2)[OF L] dn] by auto
  ultimately show ?thesis using cl ans server_inv_more[OF sv m] by (simp add: sys_inv_def)
qed

text \<open>The next message id is not that of a reply the client has read.\<close>

lemma unused_msgid:
  assumes inv: "sys_inv L cs dn td w v" and len: "length (calls cs) < 2 ^ 32"
  shows "s_msgid_rr (ses w (k_session L)) \<notin> fst ` set dn"
proof
  let ?i = "s_msgid_rr (ses w (k_session L))" and ?c = "length (calls cs)"
  have cl: "client_inv L cs w" using inv by (simp add: sys_inv_def)
  assume "?i \<in> fst ` set dn"
  then obtain r where "(?i, r) \<in> set dn" by auto
  then obtain m' p' where "(?i, m', p') \<in> set (calls cs)"
    using server_inv_ids[of L cs "dn @ td" v ?i r] inv by (auto simp: sys_inv_def)
  then obtain j where j: "j < ?c" "calls cs ! j = (?i, m', p')" by (auto simp only: in_set_conv_nth)
  then have "(of_nat j :: msgid) = of_nat ?c" using cl unfolding client_inv_def by (metis fst_conv add_left_cancel)
  with word_of_nat_inj[of j ?c, where 'a = 32] j(1) len show False by simp
qed

lemma call_inv:
  assumes L: "link_ok L" and inv: "sys_inv L cs dn td w v" and len: "length (calls cs) < 2 ^ 32"
    and snd: "k_sendable L (Out_request (s_msgid_rr (ses w (k_session L))) m p z)"
  shows "sys_inv L (cs @ [Out_request (s_msgid_rr (ses w (k_session L))) m p z]) dn td (link_call L m p z w) v"
proof -
  let ?s = "k_session L" and ?c = "length (calls cs)"
  let ?i = "s_msgid_rr (ses w ?s)"
  have cl: "client_inv L cs w" using inv by (simp add: sys_inv_def)
  have s: "?s < length (w_sessions w)" "loop_running w ?s" "run_inv ?c 1 w" "length (h_futures w) = ?c"
    "?i = 1 + of_nat ?c" "0 < s_handles (ses w ?s)" using cl by (simp_all add: client_inv_def)
  let ?w1 = "registered ?s w"
  have s1: "?s < length (w_sessions ?w1)" "loop_running ?w1 ?s" using s by (simp_all add: registered_simps)
  from link_send[OF L s1, of "request_buf (k_packer L) m p z ?i"] obtain w' where w':
    "tcp_send_data (k_asio L) (k_decoder L) ?s (request_buf (k_packer L) m p z ?i) ?w1 = (None, w')"
    "w_net w' = w_net w @ outbuf_bytes (request_buf (k_packer L) m p z ?i)"
    "h_futures w' = h_futures w @ [new_future_impl ?i ?s (s_loop (ses w ?s)) (s_timeout (ses w ?s))]"
    "h_loops w' = h_loops w" "length (w_sessions w') = length (w_sessions w)" "s_loop (ses w' ?s) = s_loop (ses w ?s)"
    "s_handles (ses w' ?s) = s_handles (ses w ?s)" "s_msgid_rr (ses w' ?s) = ?i + 1" "sh_open (conn L w')"
    "sh_pac (conn L w') \<in> {sh_pac (conn L w), pac_reserve (k_decoder L) (sh_pac (conn L w))}"
    using s(1) by (auto simp: registered_simps)
  have eq: "link_call L m p z w = w'" by (simp add: link_call_def send_request_state w'(1))
  have "run_inv (Suc ?c) 1 w'"
    using tcp_process.call_run_inv[OF s(3,1), of "k_packer L" "k_asio L" "k_decoder L" m p z] eq by (simp add: link_call_def)
  moreover have "fut w' f = (if f = ?c then new_future_impl ?i ?s (s_loop (ses w ?s)) (s_timeout (ses w ?s)) else fut w f)"
    if "f < Suc ?c" for f using that w'(3) s(4) by (auto simp: nth_append less_Suc_eq)
  ultimately have "client_inv L (cs @ [Out_request ?i m p z]) w'"
    using cl s w' unfolding client_inv_def by (auto simp: nth_append less_Suc_eq)
  moreover have "answered L dn (fut w' f)" if "f < length (h_futures w')" for f
    using that w'(3) inv unused_msgid[OF inv len]
    by (cases "f < length (h_futures w)") (simp_all add: sys_inv_def nth_append less_Suc_eq answered_def is_ready_def)
  ultimately show ?thesis unfolding eq using L inv snd w'(2,10) by (intro sys_inv_send) simp_all
qed

lemma notify_inv:
  assumes L: "link_ok L" and inv: "sys_inv L cs dn td w v" and snd: "k_sendable L (Out_notify m p z)"
  shows "sys_inv L (cs @ [Out_notify m p z]) dn td (link_notify L m p z w) v"
proof -
  let ?s = "k_session L" and ?buf = "notify_buf (k_packer L) m p z"
  have cl: "client_inv L cs w" using inv by (simp add: sys_inv_def)
  have s: "?s < length (w_sessions w)" "loop_running w ?s" "run_inv (length (calls cs)) 1 w"
    using cl by (simp_all add: client_inv_def)
  from link_send[OF L s(1,2), of ?buf] obtain w' where w':
    "tcp_send_data (k_asio L) (k_decoder L) ?s ?buf w = (None, w')" "w_net w' = w_net w @ outbuf_bytes ?buf"
    "h_futures w' = h_futures w" "h_loops w' = h_loops w" "length (w_sessions w') = length (w_sessions w)"
    "s_loop (ses w' ?s) = s_loop (ses w ?s)" "s_handles (ses w' ?s) = s_handles (ses w ?s)"
    "s_msgid_rr (ses w' ?s) = s_msgid_rr (ses w ?s)" "sh_open (conn L w')"
    "sh_pac (conn L w') \<in> {sh_pac (conn L w), pac_reserve (k_decoder L) (sh_pac (conn L w))}" by blast
  have eq: "link_notify L m p z w = w'"
    using w'(1) by (simp add: link_notify_def send_notify_def send_notify_impl_def notify_buf_def Let_def split: if_splits)
  have "run_inv (length (calls cs)) 1 w'"
    using tcp_process.notify_retires[OF run_inv_wf[OF s(3)] s(1), of "k_packer L" "k_asio L" "k_decoder L" m p z] s(3) eq
    by (simp add: link_notify_def retires_run_inv)
  then have "client_inv L (cs @ [Out_notify m p z]) w'" using cl w' unfolding client_inv_def by simp
  then show ?thesis unfolding eq using L inv snd w' by (intro sys_inv_send) (simp_all add: sys_inv_def)
qed

lemma sys_inv_client:
  assumes inv: "sys_inv L cs dn td w v" and fr: "client_frame L w w'" and run: "run_inv (length (calls cs)) 1 w'"
    and ans: "\<And>f. f < length (h_futures w) \<Longrightarrow> answered L dn (fut w f) \<Longrightarrow> answered L dn (fut w' f)"
  shows "sys_inv L cs dn td w' v"
proof -
  have "client_inv L cs w'" by (rule client_frame_inv[OF _ fr run]) (use inv in \<open>simp add: sys_inv_def\<close>)
  then show ?thesis using inv fr ans by (simp add: sys_inv_def client_frame_def)
qed

lemma tick_inv:
  assumes inv: "sys_inv L cs dn td w v" and len: "length (calls cs) \<le> 2 ^ 32"
  shows "sys_inv L cs dn td (step_timer_handler False (k_session L) w) v"
proof -
  let ?s = "k_session L" and ?w' = "step_timer_handler False (k_session L) w"
  have cl: "client_inv L cs w" using inv by (simp add: sys_inv_def)
  note d = client_invD[OF cl len]
  have ret: "retires w ?w'" by (rule step_timer_retires[OF d(1,3)])
  have "client_frame L w ?w'"
    by (rule retires_client_frame[OF ret])
       (use d(3) in \<open>simp_all add: step_timer_handler_eq[OF d(1,3)] tcp_def arm_step_timer_def ses_put_session put_table_def\<close>)
  moreover have "run_inv (length (calls cs)) 1 ?w'" using cl by (intro retires_run_inv[OF ret]) (simp add: client_inv_def)
  moreover have "answered L dn (fut ?w' f)" if "f < length (h_futures w)" "answered L dn (fut w f)" for f
    using that by (auto simp: fut_step_timer[OF d(1,3)] answered_def step_timeout_def is_ready_def split: if_splits)
  ultimately show ?thesis by (rule sys_inv_client[OF inv])
qed

lemma attach_inv:
  assumes inv: "sys_inv L cs dn td w v"
  shows "sys_inv L cs dn td (attach_callback f cb w) v"
proof -
  have same: "same_requests w (attach_callback f cb w)" by (rule same_attach)
  have fut: "answered L dn (fut (attach_callback f cb w) g) = answered L dn (fut w g)" for g
    by (auto simp: attach_callback_def put_future_def on_loop_def nth_list_update_if answered_def is_ready_def)
  have run: "loop_running (attach_callback f cb w) s = loop_running w s" for s
    by (simp add: attach_callback_def put_future_def on_loop_def nth_list_update_if loop_submit_def io_log_def is_running_def)
  have "w_sessions (attach_callback f cb w) = w_sessions w" "w_net (attach_callback f cb w) = w_net w"
    by (simp_all add: attach_callback_def put_future_def on_loop_def)
  with same run have "client_frame L w (attach_callback f cb w)"
    by (simp add: client_frame_def same_requests_def tcp_def)
  moreover have "run_inv (length (calls cs)) 1 (attach_callback f cb w)"
    using inv by (intro same_run_inv[OF same]) (simp add: sys_inv_def client_inv_def)
  ultimately show ?thesis using fut by (intro sys_inv_client[OF inv]) simp_all
qed

lemma wait_expired_inv:
  assumes inv: "sys_inv L cs dn td w v" and f: "f < length (h_futures w)"
  shows "sys_inv L cs dn td (set_result f NIL TIMEOUT_ERROR None w) v"
proof (rule sys_inv_client[OF inv])
  have run: "run_inv (length (calls cs)) 1 w" using inv by (simp add: sys_inv_def client_inv_def)
  show "client_frame L w (set_result f NIL TIMEOUT_ERROR None w)"
    by (auto simp: client_frame_def fut_set_result is_ready_def)
  from wait_expired_run_inv[OF run f] show "run_inv (length (calls cs)) 1 (set_result f NIL TIMEOUT_ERROR None w)"
    by (simp add: run_inv_def)
qed (use f in \<open>auto simp: fut_set_result answered_def is_ready_def\<close>)

lemma accept_inv:
  assumes L: "link_ok L" and inv: "sys_inv L cs dn td w v" and cl: "\<not> sh_open (sock L v)"
    and peer: "remote_endpoint (k_server_asio L) (k_sock L) (v_net v) = None"
  shows "sys_inv L cs dn td w (snd (on_accept (k_server_asio L) (k_server_decoder L) 0 v))"
proof -
  let ?k = "k_sock L" and ?d = "k_server_decoder L"
  have sv: "server_inv L cs (dn @ td) v"
    and up: "in_flight (k_server_held L) (out_bytes (k_packer L)) (sh_pac (sock L v)) (w_net w) (drop (length (q_requests v)) cs)"
    using inv by (simp_all add: sys_inv_def)
  from sv cl obtain t where t: "v_stran v = Some t" "ts_conn t = Some ?k" "?k < length (v_socks v)" "v_alive v" "v_dp v"
    by (auto simp: server_inv_def)
  define v' where "v' = snd (on_accept (k_server_asio L) ?d 0 v)"
  have v': "v_alive v'" "v_dp v'" "q_requests v' = q_requests v" "v_net v' = v_net v" "?k < length (v_socks v')"
    "sock L v' = \<lparr>sh_pac = pac_reserve ?d (sh_pac (sock L v)), sh_open = True, sh_reading = True\<rparr>"
    using t peer by (simp_all add: v'_def on_accept_def Let_def start_accept_def put_sock_def nth_append stream_start_def)
  have "server_inv L cs (dn @ td) v'" using sv v' unfolding server_inv_def by (simp add: senders_def)
  moreover have "in_flight (k_server_held L) (out_bytes (k_packer L)) (sh_pac (sock L v')) (w_net w) (drop (length (q_requests v')) cs)"
    using in_flight_reserve[OF link_frames(1)[OF L] up] v' by simp
  ultimately show ?thesis using inv v' by (simp add: sys_inv_def v'_def)
qed

lemma init_inv:
  assumes "fresh_client L w" "fresh_server L v"
  shows "sys_inv L [] [] [] w v"
proof -
  have "run_inv 0 0 w" using assms(1) client_run_inv by (auto simp: fresh_client_def)
  then have "client_inv L [] w" using assms(1) by (simp add: client_inv_def fresh_client_def run_inv_def)
  moreover have "server_inv L [] [] v"
    using assms(2) by (auto simp: server_inv_def fresh_server_def server_listening_def owned_def senders_def)
  ultimately show ?thesis
    using assms by (auto simp: sys_inv_def in_flight_def fresh_client_def fresh_server_def)
qed

lemma calls_prefix: "length (calls (cs @ [m])) \<le> n \<Longrightarrow> length (calls cs) \<le> n"
  by simp

lemma system_inv:
  assumes "system L cs w v" "link_ok L" "length (calls cs) \<le> 2 ^ 32"
  shows "\<exists>dn td. sys_inv L cs dn td w v"
  using assms
proof (induction rule: system.induct)
  case (sys_init w v)
  then show ?case using init_inv by blast
next
  case (sys_call cs w v m p z)
  then obtain dn td where "sys_inv L cs dn td w v" by auto
  from call_inv[OF sys_call.prems(1) this _ sys_call.hyps(2)] sys_call.prems(2) show ?case by auto
next
  case (sys_notify cs w v m p z)
  then obtain dn td where "sys_inv L cs dn td w v" by auto
  from notify_inv[OF sys_notify.prems(1) this sys_notify.hyps(2)] show ?case by blast
next
  case (sys_accept cs w v)
  then obtain dn td where "sys_inv L cs dn td w v" by auto
  from accept_inv[OF sys_accept.prems(1) this sys_accept.hyps(3,4)] show ?case by blast
next
  case (sys_server_read cs w v c rest)
  then obtain dn td where "sys_inv L cs dn td w v" by auto
  from server_read_inv[OF sys_server_read.prems(1) this sys_server_read.prems(2) sys_server_read.hyps(2,3)] show ?case by blast
next
  case (sys_reply cs w v q r)
  then obtain dn td where "sys_inv L cs dn td w v" by auto
  from reply_inv[OF sys_reply.prems(1) this sys_reply.prems(2) sys_reply.hyps(2,3)] show ?case by blast
next
  case (sys_client_read cs w v c rest)
  then obtain dn td where "sys_inv L cs dn td w v" by auto
  from client_read_inv[OF sys_client_read.prems(1) this sys_client_read.prems(2) sys_client_read.hyps(2)] show ?case by blast
next
  case (sys_tick cs w v)
  then show ?case using tick_inv by blast
next
  case (sys_attach cs w v f cb)
  then show ?case using attach_inv by blast
next
  case (sys_wait_expired cs w v f)
  then show ?case using wait_expired_inv by blast
qed

section \<open>Silence\<close>

lemma in_callsD: "(i, m, p) \<in> set (calls cs) \<Longrightarrow> \<exists>z. Out_request i m p z \<in> set cs"
proof (induction cs)
  case (Cons c cs)
  then show ?case by (cases c) auto
qed simp

lemma quiescent_all_ready:
  assumes "system L cs w v" "link_ok L" "length (calls cs) \<le> 2 ^ 32"
    and "w_net w = []" "v_net v = []" "\<forall>q < length (q_requests v). is_sent q v"
  shows "length (q_requests v) = length cs \<and> (\<forall>f < length (h_futures w). ready w f)"
proof -
  from system_inv[OF assms(1-3)] obtain dn td where inv: "sys_inv L cs dn td w v" by blast
  then have cl: "client_inv L cs w" and sv: "server_inv L cs (dn @ td) v" by (simp_all add: sys_inv_def)
  have "in_flight (k_server_held L) (out_bytes (k_packer L)) (sh_pac (sock L v)) [] (drop (length (q_requests v)) cs)"
    "in_flight (k_held L) (reply_bytes (k_packer L)) (sh_pac (conn L w)) [] td"
    using inv assms(4,5) by (simp_all add: sys_inv_def)
  then have none: "drop (length (q_requests v)) cs = []" "td = []" by (simp_all only: in_flight_none)
  then have n: "length (q_requests v) = length cs" using sv by (simp add: server_inv_def)
  have "ready w f" if f: "f < length (h_futures w)" for f
  proof -
    obtain i m p where c: "calls cs ! f = (i, m, p)" by (cases "calls cs ! f")
    have "f < length (calls cs)" and i: "f_msgid (fut w f) = i" using cl f c by (auto simp: client_inv_def)
    then have "(i, m, p) \<in> set (calls cs)" using c by (metis nth_mem)
    from in_callsD[OF this] obtain z where "Out_request i m p z \<in> set cs" by blast
    then obtain q where q: "q < length cs" "cs ! q = Out_request i m p z" by (auto simp: in_set_conv_nth)
    have "r_ms (rq v q) = (if i \<in> fst ` set (dn @ td) then None else Some (k_sock L))"
      using sv q n by (simp add: server_inv_def senders_def)
    moreover have "is_sent q v" using assms(6) q(1) n by simp
    ultimately have "i \<in> fst ` set dn" using q(2) none(2) by (auto simp: is_sent_def split: if_splits)
    moreover have "answered L dn (fut w f)" using inv f by (simp add: sys_inv_def)
    ultimately show ?thesis using i by (auto simp: answered_def split: if_splits)
  qed
  with n show ?thesis by blast
qed

section \<open>Answers\<close>

lemma completed_future_answered:
  assumes "system L cs w v" "link_ok L" "length (calls cs) \<le> 2 ^ 32" "f < length (h_futures w)" "ready w f"
  shows "f_error (fut w f) = TIMEOUT_ERROR \<and> f_result (fut w f) = NIL \<or>
    (\<exists>i m p r. calls cs ! f = (i, m, p) \<and> f_msgid (fut w f) = i \<and> k_answers L (k_method L m) (k_params L p) r \<and>
       f_result (fut w f) = k_copy L (reply_result r) \<and> f_error (fut w f) = k_copy L (reply_error r))"
proof -
  from system_inv[OF assms(1-3)] obtain dn td where inv: "sys_inv L cs dn td w v" by blast
  then have cl: "client_inv L cs w" and sv: "server_inv L cs (dn @ td) v" and "answered L dn (fut w f)"
    using assms(4) by (simp_all add: sys_inv_def)
  with assms(5) consider "f_error (fut w f) = TIMEOUT_ERROR \<and> f_result (fut w f) = NIL"
    | r where "(f_msgid (fut w f), r) \<in> set dn" "f_result (fut w f) = k_copy L (reply_result r)"
      "f_error (fut w f) = k_copy L (reply_error r)" by (auto simp: answered_def)
  then show ?thesis
  proof cases
    case (2 r)
    from server_inv_ids[OF sv, of "f_msgid (fut w f)" r] 2(1) obtain m p where
      mp: "(f_msgid (fut w f), m, p) \<in> set (calls cs)" "k_answers L (k_method L m) (k_params L p) r" by auto
    have "f < length (calls cs)" "fst (calls cs ! f) = f_msgid (fut w f)"
      using cl assms(4) by (simp_all add: client_inv_def)
    then have "calls cs ! f = (f_msgid (fut w f), m, p)"
      using mp(1) calls_distinct[OF cl assms(3)] by (metis eq_key_imp_eq_value nth_mem prod.collapse)
    with 2 mp show ?thesis by blast
  qed simp
qed

section \<open>An echo server\<close>

text \<open>
  The links of the examples: the two-byte codec of \<open>RPC_Codec\<close>, a network that keeps what is
  written, and a program. The echo server returns the parameters, at once or, for the method \<open>later\<close>,
  later.
\<close>

definition echo_asio :: "(nat, wire, wire list) asio" where
  "echo_asio =
     \<lparr>sock_connect = (\<lambda>s ad n. (0, True, n)), sock_write = (\<lambda>s bs n. (None, n @ bs)), io_poll = (\<lambda>n. ([], n))\<rparr>"

definition codec_link ::
  "(msg_value object \<Rightarrow> msg_value object \<Rightarrow> msg_value reply list) \<Rightarrow>
   (msg_value object \<Rightarrow> msg_value object \<Rightarrow> msg_value reply \<Rightarrow> bool) \<Rightarrow> (msg_value, wire, wire list, nat) link"
where
  "codec_link compute answers =
     \<lparr>k_session = 0, k_sock = 0, k_asio = echo_asio, k_server_asio = stream_asio, k_packer = codec_packer,
      k_decoder = codec_decoder, k_server_decoder = codec_decoder, k_held = codec_held, k_server_held = codec_held,
      k_method = (\<lambda>m. Opaque (Str m)), k_params = (\<lambda>p. Opaque (Arr p)), k_copy = (\<lambda>x. x), k_sendable = (\<lambda>m. True),
      k_compute = compute, k_answers = answers\<rparr>"

definition echo_link :: "(msg_value, wire, wire list, nat) link" where
  "echo_link = codec_link (\<lambda>m p. if m = Opaque (Str ''later'') then [] else [Result p]) (\<lambda>m p r. r = Result p)"

definition echo_client :: "(msg_value, nat, wire list tcp_client, wire list) world" where
  "echo_client = snd (session_create (tcp_build codec_decoder new_tcp_builder) (Address 1 80) 0
     (initial_world [add_worker 1 new_loop] []))"

definition echo_server :: "(msg_value, nat, wire list, wire list) server" where
  "echo_server = snd (base_listen stream_asio codec_decoder (Address 1 80) (new_server new_loop []))"

fun out_value :: "msg_value outgoing \<Rightarrow> msg_value" where
  "out_value (Out_request i m p z) = Req m p i"
| "out_value (Out_notify m p z) = Ntf m p"

fun reply_value :: "msgid \<times> msg_value reply \<Rightarrow> msg_value" where
  "reply_value (i, r) = Res (reply_result r) (reply_error r) i"

lemma codec_pack_out: "out_bytes codec_packer m = [Head, Body (out_value m)]"
  by (cases m) (simp_all add: request_buf_def notify_buf_def codec_packer_def new_msg_request_def new_msg_notify_def)

lemma codec_link_ok:
  assumes "\<And>m p r. r \<in> set (compute m p) \<Longrightarrow> answers m p r"
  shows "link_ok (codec_link compute answers)"
proof -
  let ?L = "codec_link compute answers"
  have "frames codec_decoder codec_held (out_bytes codec_packer)
      (\<lambda>m. incoming_dec codec_decoder (received ?L m)) (\<lambda>m. True)"
  proof (rule codec_frames[where val = out_value])
    show "incoming_dec codec_decoder (received ?L m) (Opaque (out_value m))" for m
      by (cases m) (simp_all add: codec_decoder_def codec_link_def)
  qed (simp add: codec_pack_out)
  moreover have "frames codec_decoder codec_held (reply_bytes codec_packer)
      (\<lambda>m. response_dec codec_decoder (delivered ?L m)) (\<lambda>(i, r). \<exists>m p. answers m p r)"
  proof (rule codec_frames[where val = reply_value])
    show "response_dec codec_decoder (delivered ?L m) (Opaque (reply_value m))" for m
      by (cases m) (simp add: response_dec_def codec_decoder_def codec_link_def)
  qed (auto simp: codec_pack_reply)
  ultimately show ?thesis using assms by (simp add: link_ok_def codec_link_def echo_asio_def stream_asio_def)
qed

lemma codec_init: "system (codec_link compute answers) [] echo_client echo_server"
proof (rule sys_init)
  have "client_run echo_asio codec_decoder codec_packer 0 0 echo_client"
    unfolding echo_client_def by (rule run_create[OF run_init])
  moreover have "is_running (h_loops echo_client ! 0)"
    by (simp add: echo_client_def session_create_def session_build_def Let_def tcp_build_def initial_world_def
        arm_step_timer_def put_session_def new_session_impl_def is_running_def add_worker_eq new_loop_def)
  ultimately show "fresh_client (codec_link compute answers) echo_client"
    by (simp add: fresh_client_def codec_link_def, simp add: echo_client_def session_create_def session_build_def Let_def
        tcp_build_def initial_world_def arm_step_timer_def put_session_def new_session_impl_def new_tcp_builder_def tcp_def
        new_tcp_client_def new_stream_handler_def codec_held_def codec_decoder_def)
  show "fresh_server (codec_link compute answers) echo_server"
    by (simp add: fresh_server_def codec_link_def echo_server_def base_listen_def serve_def server_listen_defs
        start_accept_def stream_asio_def codec_decoder_def new_server_def new_stream_handler_def server_listening_def
        server_ok_def codec_held_def)
qed

lemma codec_accept:
  assumes "system (codec_link compute answers) cs w echo_server" "sh_open (conn (codec_link compute answers) w)"
  shows "system (codec_link compute answers) cs w stream_server"
  using sys_accept[OF assms]
  by (simp add: codec_link_def stream_server_def, simp add: echo_server_def base_listen_def serve_def server_listen_defs start_accept_def stream_asio_def codec_decoder_def new_server_def new_stream_handler_def)

lemma echo_link_ok: "link_ok echo_link"
  unfolding echo_link_def by (rule codec_link_ok) (auto split: if_splits)

text \<open>
  A run: a call that is answered later and one that is answered at once; the server receives the
  first \<open>Head\<close> alone, then the rest; the second call is answered before the first.
\<close>

definition echo_calls :: "msg_value outgoing list" where
  "echo_calls = [Out_request 1 ''later'' [NIL] None, Out_request 2 ''echo'' [] None]"

definition echo_client_sent :: "(msg_value, nat, wire list tcp_client, wire list) world" where
  "echo_client_sent = link_call echo_link ''echo'' [] None (link_call echo_link ''later'' [NIL] None echo_client)"

definition echo_server_read :: "(msg_value, nat, wire list, wire list) server" where
  "echo_server_read = server_reads echo_link (tl (w_net echo_client_sent)) (server_reads echo_link [Head]
     (snd (on_accept stream_asio codec_decoder 0 echo_server)))"

definition echo_server_done :: "(msg_value, nat, wire list, wire list) server" where
  "echo_server_done = server_replies echo_link 0 (Result (Opaque (Arr [NIL]))) echo_server_read"

definition echo_client_done :: "(msg_value, nat, wire list tcp_client, wire list) world" where
  "echo_client_done = client_reads echo_link (v_net echo_server_done) (echo_client_sent\<lparr>w_net := []\<rparr>)"

lemma echo_accepted:
  "snd (on_accept stream_asio codec_decoder 0 echo_server) = stream_server"
  by (simp add: stream_server_def echo_server_def)

lemma echo_connected: "w_net echo_client_sent = [Head, Body (Req ''later'' [NIL] 1), Head, Body (Req ''echo'' [] 2)]"
  "sh_open (conn echo_link echo_client_sent)" "s_msgid_rr (ses echo_client 0) = 1"
  "s_msgid_rr (ses (link_call echo_link ''later'' [NIL] None echo_client) 0) = 2"
  by (code_simp, code_simp, code_simp, code_simp)

lemma echo_server_read_head: "server_reads echo_link [Head] stream_server = put_sock 0 \<lparr>sh_pac = [Head], sh_open = True, sh_reading = True\<rparr> stream_server"
  using server_reads_eq[OF echo_link_ok, of stream_server "[Head]" "[]" "[Head]" "[]"] stream_server_ready
  by (simp add: echo_link_def codec_link_def codec_decoder_def max_message_size_def replies_at_once_def put_sock_def)

lemma echo_server_read_eq:
  "q_requests echo_server_read = 
    [new_request_impl (Some 0) 1 (Opaque (Str ''later'')) (Opaque (Arr [NIL])) (Some 0),
      new_request_impl None 2 (Opaque (Str ''echo'')) (Opaque (Arr [])) (Some 0)] \<and> sh_open (sock echo_link echo_server_read)"
proof -
  let ?v = "put_sock 0 \<lparr>sh_pac = [Head], sh_open = True, sh_reading = True\<rparr> stream_server"
  have k: "0 < length (v_socks stream_server)" using stream_server_ready(1) by (simp add: connection_ready_def)
  have "connection_ready stream_asio 0 ?v" using stream_server_ready(1) by (simp add: connection_ready_def sock_put_sock)
  from server_reads_eq[OF echo_link_ok, of ?v "tl (w_net echo_client_sent)" "[(Opaque (Req ''later'' [NIL] 1), 0, []), (Opaque (Req ''echo'' [] 2), 0, [])]" "[]" echo_calls]
    this k stream_server_ready
  show ?thesis unfolding echo_server_read_def echo_accepted echo_server_read_head
    by (simp add: echo_link_def codec_link_def codec_decoder_def max_message_size_def echo_calls_def sock_put_sock echo_connected)
qed

lemma echo_server_done_sent: "q < length (q_requests echo_server_done) \<Longrightarrow> is_sent q echo_server_done"
proof -
  have r: "r_ms (rq echo_server_read 0) = Some (k_sock echo_link)"
     using echo_server_read_eq by (simp add: new_request_impl_def echo_link_def codec_link_def)
  show "q < length (q_requests echo_server_done) \<Longrightarrow> is_sent q echo_server_done"
   using request_reply_pending[OF r, of codec_packer "server_ms_send stream_asio" "Result (Opaque (Arr [NIL]))"]
     request_send_data_tcp[OF r, of stream_asio "reply_buf codec_packer 1 (Result (Opaque (Arr [NIL])))"] echo_server_read_eq
   by (auto simp: echo_server_done_def server_replies_def echo_link_def codec_link_def is_sent_def new_request_impl_def less_Suc_eq)
qed

lemma echo_run_answered: "system echo_link echo_calls (echo_client_sent\<lparr>w_net := []\<rparr>) echo_server_done"
proof -
  have l: "k_session echo_link = 0" "k_sock echo_link = 0" "k_server_asio echo_link = stream_asio" "k_server_decoder echo_link = codec_decoder"
    "k_sendable echo_link m" "k_answers echo_link x p r \<longleftrightarrow> r = Result p" for m x p r by (simp_all add: echo_link_def codec_link_def)
  note call = sys_call[where L = echo_link, unfolded l(1)]
  have init: "system echo_link [] echo_client echo_server" unfolding echo_link_def by (rule codec_init)
  have "system echo_link echo_calls echo_client_sent echo_server"
    unfolding echo_calls_def echo_client_sent_def
    using call[OF call[OF init l(5), of "''later''" "[NIL]" None] l(5), of "''echo''" "[]" None] by (simp add: echo_connected)
  from codec_accept[OF this[unfolded echo_link_def]] echo_connected(2)
  have "system echo_link echo_calls echo_client_sent stream_server" by (simp add: echo_link_def)
  from sys_server_read[OF this, of "[Head]" "tl (w_net echo_client_sent)"] sys_server_read[of echo_link echo_calls "echo_client_sent\<lparr>w_net := tl (w_net echo_client_sent)\<rparr>" "server_reads echo_link [Head] stream_server" "tl (w_net echo_client_sent)" "[]"]
  have "system echo_link echo_calls (echo_client_sent\<lparr>w_net := []\<rparr>) echo_server_read"
    using stream_server_ready by (simp add: l echo_server_read_def echo_accepted echo_connected(1) connection_ready_def echo_server_read_head sock_put_sock)
  from sys_reply[OF this, of 0 "Result (Opaque (Arr [NIL]))"]
  show ?thesis using echo_server_read_eq by (simp add: l echo_server_done_def new_request_impl_def)
qed

lemma echo_run: "system echo_link echo_calls echo_client_done (echo_server_done\<lparr>v_net := []\<rparr>)"
  using sys_client_read[OF echo_run_answered, of "v_net echo_server_done" "[]"] by (simp add: echo_client_done_def)

lemma echo_client_done_w_net: "w_net echo_client_done = []"
proof -
  obtain dn td where "sys_inv echo_link echo_calls dn td (echo_client_sent\<lparr>w_net := []\<rparr>) echo_server_done"
    using system_inv[OF echo_run_answered echo_link_ok] by (auto simp: echo_calls_def)
  from client_read_inv[OF echo_link_ok this, of "v_net echo_server_done" "[]"] show ?thesis
    by (simp add: echo_client_done_def echo_calls_def)
qed

lemma echo_ready:
  "length (h_futures echo_client_done) = 2" "\<forall>f < length (h_futures echo_client_done). ready echo_client_done f"
  using system_inv[OF echo_run echo_link_ok] quiescent_all_ready[OF echo_run echo_link_ok] echo_server_done_sent
  by (auto simp: sys_inv_def client_inv_def echo_calls_def echo_client_done_w_net is_sent_def)

section \<open>Properties\<close>

text \<open>
  C3: Exactly once and in order: in every run of a client and a server over a connection, however the
  bytes are cut and the steps interleaved, the requests that the server's program has been given are
  the first of the messages that the client sent, in the order of the calls, each with the message
  identifier of its call and the method and parameters of the call as msgpack delivers them.
\<close>

theorem dispatched_in_order:
  assumes "system L cs w v" "link_ok L" "length (calls cs) \<le> 2 ^ 32"
  shows "length (q_requests v) \<le> length cs \<and>
    map request_as (q_requests v) = map (sent_as L) (take (length (q_requests v)) cs)"
  using system_inv[OF assms] by (auto simp: sys_inv_def server_inv_def)

lemma dispatched_in_order_witness:
  "map request_as (q_requests echo_server_done) =
     [(1, Opaque (Str ''later''), Opaque (Arr [NIL])), (2, Opaque (Str ''echo''), Opaque (Arr []))]"
  using dispatched_in_order[OF echo_run echo_link_ok] quiescent_all_ready[OF echo_run echo_link_ok] echo_server_done_sent
  by (simp add: echo_calls_def echo_link_def codec_link_def is_sent_def echo_client_done_w_net)

text \<open>
  C2: A call is answered with its own answer: in every run of a client and a server with up to 2 ^ 32
  calls, in which the server answers at once or later and in any order, a completed future of the
  client holds the local timeout error, or the client's copy of a reply that the server's program gave
  to exactly the call that created this future.
\<close>

theorem answers_match:
  assumes "system L cs w v" "link_ok L" "length (calls cs) \<le> 2 ^ 32" "f < length (h_futures w)" "ready w f"
  shows "f_error (fut w f) = TIMEOUT_ERROR \<and> f_result (fut w f) = NIL \<or>
    (\<exists>i m p r. calls cs ! f = (i, m, p) \<and> f_msgid (fut w f) = i \<and> k_answers L (k_method L m) (k_params L p) r \<and>
       f_result (fut w f) = k_copy L (reply_result r) \<and> f_error (fut w f) = k_copy L (reply_error r))"
  by (rule completed_future_answered[OF assms])

lemma answers_match_witness:
  "ready echo_client_done 0 \<and>
   (f_error (fut echo_client_done 0) = TIMEOUT_ERROR \<and> f_result (fut echo_client_done 0) = NIL \<or>
    f_error (fut echo_client_done 0) = NIL \<and> f_result (fut echo_client_done 0) = Opaque (Arr [NIL]))"
  using answers_match[OF echo_run echo_link_ok, of 0] echo_ready by (auto simp: echo_calls_def echo_link_def codec_link_def)

text \<open>
  C4: Nothing is lost: when a run of a client and a server comes to rest (no bytes in flight and every
  request answered by the program), the server has been given every message of the client and every
  future of the client is completed.
\<close>

theorem quiescent_complete:
  assumes "system L cs w v" "link_ok L" "length (calls cs) \<le> 2 ^ 32"
    and "w_net w = []" "v_net v = []" "\<forall>q < length (q_requests v). is_sent q v"
  shows "length (q_requests v) = length cs \<and> (\<forall>f < length (h_futures w). ready w f)"
  by (rule quiescent_all_ready[OF assms])

lemma quiescent_complete_witness:
  "length (q_requests echo_server_done) = 2 \<and> ready echo_client_done 0 \<and> ready echo_client_done 1"
  using quiescent_complete[OF echo_run echo_link_ok] echo_server_done_sent echo_ready(1)
  by (simp add: echo_calls_def echo_client_done_w_net is_sent_def)

end
