(* ===== verification/RPC_Echo.thy ===== *)
theory RPC_Echo
  imports RPC_System
begin

text \<open>
  The dispatcher of the repository's unit tests (\<^verbatim>\<open>unittest/echo_server.h\<close>, class \<open>myecho\<close>), as a
  program on top of the server. It is shown to be a program that answers at once, so what the other
  theories prove of such programs holds for it; over a connection its methods return what the unit
  tests (\<^verbatim>\<open>unittest/unittest.cpp\<close>) expect.
\<close>

section \<open>Definitions\<close>

text \<open>
  msgpack's conversions for the types that \<open>myecho\<close> uses: from an object (\<open>None\<close> when \<open>convert\<close>
  throws \<open>type_error\<close>) to a string and to the tuples of parameters, and from C++ values to objects;
  a \<open>raw_ref\<close> is its bytes. \<open>e_what\<close> is \<^verbatim>\<open>std::exception::what\<close>.
\<close>

record 'x conversions =
  e_string :: "'x object \<Rightarrow> string option"
  e_ints :: "'x object \<Rightarrow> (32 word \<times> 32 word) option"
  e_string1 :: "'x object \<Rightarrow> string option"
  e_raw1 :: "'x object \<Rightarrow> string option"
  e_unit :: "'x object \<Rightarrow> unit option"
  e_of_int :: "32 word \<Rightarrow> 'x object"
  e_of_string :: "string \<Rightarrow> 'x object"
  e_of_raw :: "string \<Rightarrow> 'x object"
  e_what :: "exn \<Rightarrow> string"

text \<open>The error codes of \<^verbatim>\<open>protocol.h\<close> are packed as positive integers.\<close>

definition of_error_type :: "error_type_t \<Rightarrow> 'x object" where
  "of_error_type e = POSITIVE_INTEGER (ucast e)"

text \<open>
  The four member functions; \<open>reply\<close> is what the request does with a reply. \<open>a1 + a2\<close> is an addition
  of \<^verbatim>\<open>int\<close>: where it overflows the C++ standard leaves the result open, and the model takes the
  two's complement.
\<close>

definition myecho_add :: "'x conversions \<Rightarrow> ('x reply \<Rightarrow> 'w \<Rightarrow> exn option \<times> 'w) \<Rightarrow> 32 word \<Rightarrow> 32 word \<Rightarrow> 'w \<Rightarrow> exn option \<times> 'w" where
  "myecho_add cv reply a1 a2 w = reply (Result (e_of_int cv (a1 + a2))) w"

definition myecho_echo :: "'x conversions \<Rightarrow> ('x reply \<Rightarrow> 'w \<Rightarrow> exn option \<times> 'w) \<Rightarrow> string \<Rightarrow> 'w \<Rightarrow> exn option \<times> 'w" where
  "myecho_echo cv reply msg w = reply (Result (e_of_string cv msg)) w"

definition myecho_echo_huge :: "'x conversions \<Rightarrow> ('x reply \<Rightarrow> 'w \<Rightarrow> exn option \<times> 'w) \<Rightarrow> string \<Rightarrow> 'w \<Rightarrow> exn option \<times> 'w" where
  "myecho_echo_huge cv reply msg w = reply (Result (e_of_raw cv msg)) w"

definition myecho_err :: "'x conversions \<Rightarrow> ('x reply \<Rightarrow> 'w \<Rightarrow> exn option \<times> 'w) \<Rightarrow> 'w \<Rightarrow> exn option \<times> 'w" where
  "myecho_err cv reply w = reply (Error (e_of_string cv ''always fail'')) w"

text \<open>The body of the \<^verbatim>\<open>try\<close> block of \<open>dispatch\<close>, then the block with its two \<^verbatim>\<open>catch\<close> clauses.\<close>

definition myecho_try ::
  "'x conversions \<Rightarrow> ('x reply \<Rightarrow> 'w \<Rightarrow> exn option \<times> 'w) \<Rightarrow> 'x object \<Rightarrow> 'x object \<Rightarrow> 'w \<Rightarrow> exn option \<times> 'w" where
  "myecho_try cv reply method params w =
     (case e_string cv method of
        None \<Rightarrow> (Some type_error, w)
      | Some m \<Rightarrow>
          if m = ''add'' then
            (case e_ints cv params of None \<Rightarrow> (Some type_error, w) | Some (a1, a2) \<Rightarrow> myecho_add cv reply a1 a2 w)
          else if m = ''echo'' then
            (case e_string1 cv params of None \<Rightarrow> (Some type_error, w) | Some msg \<Rightarrow> myecho_echo cv reply msg w)
          else if m = ''echo_huge'' then
            (case e_raw1 cv params of None \<Rightarrow> (Some type_error, w) | Some msg \<Rightarrow> myecho_echo_huge cv reply msg w)
          else if m = ''err'' then
            (case e_unit cv params of None \<Rightarrow> (Some type_error, w) | Some _ \<Rightarrow> myecho_err cv reply w)
          else if m = ''timeout'' then (None, w)
          else reply (Error (of_error_type NO_METHOD_ERROR)) w)"

definition myecho_dispatch ::
  "'x conversions \<Rightarrow> ('x, 'b) packer \<Rightarrow> ('b, 'ms, ('x, 'ms, 'z) req_heap_scheme) ms_send \<Rightarrow> nat \<Rightarrow>
   ('x, 'ms, 'z) req_heap_scheme \<Rightarrow> exn option \<times> ('x, 'ms, 'z) req_heap_scheme"
where
  "myecho_dispatch cv pk send q w =
     (case myecho_try cv (request_reply pk send q) (r_method (rq w q)) (r_params (rq w q)) w of
        (None, w') \<Rightarrow> (None, w')
      | (Some e, w') \<Rightarrow>
          if e = type_error then request_reply pk send q (Error (of_error_type ARGUMENT_ERROR)) w'
          else if is_std_exception e then request_reply pk send q (Error (e_of_string cv (e_what cv e))) w'
          else (Some e, w'))"

section \<open>The program as a function\<close>

text \<open>The replies of \<open>myecho\<close> as a function of method and parameters.\<close>

definition argument_error_reply :: "'x reply list" where
  "argument_error_reply = [Error (of_error_type ARGUMENT_ERROR)]"

definition myecho_compute :: "'x conversions \<Rightarrow> 'x object \<Rightarrow> 'x object \<Rightarrow> 'x reply list" where
  "myecho_compute cv method params =
     (case e_string cv method of
        None \<Rightarrow> argument_error_reply
      | Some m \<Rightarrow>
          if m = ''add'' then
            (case e_ints cv params of None \<Rightarrow> argument_error_reply | Some (a1, a2) \<Rightarrow> [Result (e_of_int cv (a1 + a2))])
          else if m = ''echo'' then
            (case e_string1 cv params of None \<Rightarrow> argument_error_reply | Some msg \<Rightarrow> [Result (e_of_string cv msg)])
          else if m = ''echo_huge'' then
            (case e_raw1 cv params of None \<Rightarrow> argument_error_reply | Some msg \<Rightarrow> [Result (e_of_raw cv msg)])
          else if m = ''err'' then
            (case e_unit cv params of None \<Rightarrow> argument_error_reply | Some _ \<Rightarrow> [Error (e_of_string cv ''always fail'')])
          else if m = ''timeout'' then []
          else [Error (of_error_type NO_METHOD_ERROR)])"

text \<open>Over TCP no reply throws, so that the \<^verbatim>\<open>catch\<close> clauses see conversions only.\<close>

lemma request_reply_tcp_returns: "fst (request_reply pk (server_ms_send a) q r w) = None"
proof (cases "is_sent q w")
  case False
  then obtain k where k: "r_ms (rq w q) = Some k" by (auto simp: is_sent_def)
  show ?thesis unfolding request_reply_pending[OF k] request_send_data_tcp[OF k] by simp
qed (simp add: request_reply_sent)

lemmas myecho_defs = myecho_try_def myecho_add_def myecho_echo_def myecho_echo_huge_def myecho_err_def

lemma myecho_dispatch_compute:
  "myecho_dispatch cv pk (server_ms_send a) q w = reply_dispatch pk a (myecho_compute cv) q w"
proof -
  define g where "g r = snd (request_reply pk (server_ms_send a) q r w)" for r
  have reply: "request_reply pk (server_ms_send a) q r w = (None, g r)" for r
    using request_reply_tcp_returns[of pk a q r w] by (simp add: g_def prod_eq_iff)
  let ?p = "r_params (rq w q)"
  show ?thesis
  proof (cases "e_string cv (r_method (rq w q))")
    case None
    then show ?thesis
      by (simp add: myecho_dispatch_def reply_dispatch_def myecho_compute_def argument_error_reply_def myecho_defs reply
          del: request_reply.simps)
  next
    case (Some m)
    then show ?thesis
      by (cases "e_ints cv ?p"; cases "e_string1 cv ?p"; cases "e_raw1 cv ?p"; cases "e_unit cv ?p")
         (simp_all add: myecho_dispatch_def reply_dispatch_def myecho_compute_def argument_error_reply_def myecho_defs
           reply split_beta del: request_reply.simps)
  qed
qed

interpretation myecho: server_program "myecho_dispatch cv pk (server_ms_send a)" for cv pk a
  by unfold_locales (simp add: myecho_dispatch_compute replying.dispatch_progress)

section \<open>Calls of the program\<close>

text \<open>A connection whose program is \<open>myecho\<close>; the reads of the server dispatch to \<open>myecho\<close>.\<close>

definition serves_myecho :: "('x, 'b, 'u, 'ip) link \<Rightarrow> 'x conversions \<Rightarrow> bool" where
  "serves_myecho L cv \<longleftrightarrow>
     k_compute L = myecho_compute cv \<and> k_answers L = (\<lambda>m p r. r \<in> set (myecho_compute cv m p)) \<and>
     (\<forall>m. e_string cv (k_method L m) = Some m) \<and>
     k_copy L NIL = NIL \<and> (\<forall>u. k_copy L (POSITIVE_INTEGER u) = POSITIVE_INTEGER u) \<and>
     (\<forall>s. \<exists>x. k_copy L (e_of_string cv s) = Opaque x)"

lemma myecho_server_reads:
  "serves_myecho L cv \<Longrightarrow> server_reads L c v =
     snd (stream_on_read (k_server_decoder L)
       (server_vt (k_server_asio L) (myecho_dispatch cv (k_packer L) (server_ms_send (k_server_asio L))) (k_sock L)) 0 c v)"
  by (simp add: server_reads_def serves_myecho_def myecho_dispatch_compute[abs_def])

text \<open>
  What \<open>get\<close> gives for a call of \<open>m\<close> with the parameters \<open>p\<close> (as received): \<open>None\<close> for the
  method that never answers.
\<close>

definition myecho_outcome ::
  "('x, 'b, 'u, 'ip) link \<Rightarrow> 'x conversions \<Rightarrow> ('x object \<Rightarrow> string) \<Rightarrow> fid \<Rightarrow> string \<Rightarrow> 'x object \<Rightarrow> (exn + 'x object) option"
where
  "myecho_outcome L cv sh f m p =
     (if m = ''add'' then
        Some (case e_ints cv p of None \<Rightarrow> Inl new_argument_error | Some (a1, a2) \<Rightarrow> Inr (k_copy L (e_of_int cv (a1 + a2))))
      else if m = ''echo'' then
        Some (case e_string1 cv p of None \<Rightarrow> Inl new_argument_error | Some msg \<Rightarrow> Inr (k_copy L (e_of_string cv msg)))
      else if m = ''echo_huge'' then
        Some (case e_raw1 cv p of None \<Rightarrow> Inl new_argument_error | Some msg \<Rightarrow> Inr (k_copy L (e_of_raw cv msg)))
      else if m = ''err'' then
        Some (case e_unit cv p of None \<Rightarrow> Inl new_argument_error
              | Some _ \<Rightarrow> Inl (remote_error (''remote error: '' @ sh (k_copy L (e_of_string cv ''always fail''))) f))
      else if m = ''timeout'' then None
      else Some (Inl new_no_method_error))"

lemma reply_outcome:
  assumes "serves_myecho L cv" "r \<in> set (myecho_compute cv (k_method L m) p)"
    "f_result fi = k_copy L (reply_result r)" "f_error fi = k_copy L (reply_error r)"
  shows "Some (outcome sh f fi) = myecho_outcome L cv sh f m p"
proof -
  have c: "k_copy L NIL = NIL" "\<And>u. k_copy L (POSITIVE_INTEGER u) = POSITIVE_INTEGER u"
    "e_string cv (k_method L m) = Some m" using assms(1) by (simp_all add: serves_myecho_def)
  obtain x where x: "k_copy L (e_of_string cv ''always fail'') = Opaque x"
    using assms(1) unfolding serves_myecho_def by metis
  show ?thesis
    using assms(2-4) c x
    by (auto simp: myecho_compute_def argument_error_reply_def myecho_outcome_def outcome_def throw_exception_def
        of_error_type_def protocol_consts split: if_splits option.splits prod.splits)
qed

lemma outcome_timeout: "f_error fi = TIMEOUT_ERROR \<Longrightarrow> outcome sh f fi = Inl new_timeout_error"
  by (simp add: outcome_def throw_exception_def TIMEOUT_ERROR_def)

section \<open>Properties\<close>


text \<open>The unit test \<open>Add\<close>: the sum of -12 and 13.\<close>

fun sample_ints :: "msg_value object \<Rightarrow> (32 word \<times> 32 word) option" where
  "sample_ints (Opaque (Arr [Opaque (Num a), Opaque (Num b)])) = Some (a, b)"
| "sample_ints _ = None"

fun sample_string :: "msg_value object \<Rightarrow> string option" where
  "sample_string (Opaque (Str s)) = Some s"
| "sample_string _ = None"

fun sample_string1 :: "msg_value object \<Rightarrow> string option" where
  "sample_string1 (Opaque (Arr [ob])) = sample_string ob"
| "sample_string1 _ = None"

fun sample_unit :: "msg_value object \<Rightarrow> unit option" where
  "sample_unit (Opaque (Arr [])) = Some ()"
| "sample_unit _ = None"

definition sample_conversions :: "msg_value conversions" where
  "sample_conversions =
     \<lparr>e_string = sample_string, e_ints = sample_ints, e_string1 = sample_string1, e_raw1 = sample_string1,
      e_unit = sample_unit, e_of_int = (\<lambda>a. Opaque (Num a)), e_of_string = (\<lambda>s. Opaque (Str s)),
      e_of_raw = (\<lambda>s. Opaque (Str s)), e_what = (\<lambda>e. [])\<rparr>"

definition add_link :: "(msg_value, wire, wire list, nat) link" where
  "add_link = codec_link (myecho_compute sample_conversions) (\<lambda>m p r. r \<in> set (myecho_compute sample_conversions m p))"

definition add_client :: "(msg_value, nat, wire list tcp_client, wire list) world" where
  "add_client = link_call add_link ''add'' [Opaque (Num (- 12)), Opaque (Num 13)] None echo_client"

definition add_server :: "(msg_value, nat, wire list, wire list) server" where
  "add_server = server_reads add_link (w_net add_client) stream_server"

definition add_done :: "(msg_value, nat, wire list tcp_client, wire list) world" where
  "add_done = client_reads add_link (v_net add_server) (add_client\<lparr>w_net := []\<rparr>)"

definition add_calls :: "msg_value outgoing list" where
  "add_calls = [Out_request 1 ''add'' [Opaque (Num (- 12)), Opaque (Num 13)] None]"

lemma add_link_ok: "link_ok add_link" "serves_myecho add_link sample_conversions"
  by (simp_all add: add_link_def codec_link_ok, simp add: serves_myecho_def codec_link_def sample_conversions_def)

lemma add_client_simps:
  "w_net add_client = [Head, Body (Req ''add'' [Opaque (Num (- 12)), Opaque (Num 13)] 1)]"
  "sh_open (conn add_link add_client)" "s_msgid_rr (ses echo_client 0) = 1"
  by (code_simp, code_simp, code_simp)

lemma add_run_answered: "system add_link add_calls (add_client\<lparr>w_net := []\<rparr>) add_server"
proof -
  have l: "k_session add_link = 0" "k_sock add_link = 0" "k_sendable add_link m" for m by (simp_all add: add_link_def codec_link_def)
  have "system add_link [] echo_client echo_server" unfolding add_link_def by (rule codec_init)
  from sys_call[OF this l(3), of "''add''" "[Opaque (Num (- 12)), Opaque (Num 13)]" None]
  have "system add_link add_calls add_client echo_server" by (simp add: l add_client_simps add_calls_def add_client_def)
  from codec_accept[OF this[unfolded add_link_def]] add_client_simps(2)
  have "system add_link add_calls add_client stream_server" by (simp add: add_link_def)
  from sys_server_read[OF this, of "w_net add_client" "[]"] stream_server_ready show ?thesis
    by (simp add: l add_server_def connection_ready_def)
qed

lemma add_run: "system add_link add_calls add_done (add_server\<lparr>v_net := []\<rparr>)"
  using sys_client_read[OF add_run_answered, of "v_net add_server" "[]"] by (simp add: add_done_def)

lemma add_ready: "0 < length (h_futures add_done)" "ready add_done 0"
proof -
  obtain dn td where "sys_inv add_link add_calls dn td (add_client\<lparr>w_net := []\<rparr>) add_server"
    using system_inv[OF add_run_answered add_link_ok(1)] by (auto simp: add_calls_def)
  from client_read_inv[OF add_link_ok(1) this, of "v_net add_server" "[]"]
  have net: "w_net add_done = []" by (simp add: add_done_def add_calls_def)
  have "q_requests add_server = [new_request_impl None 1 (Opaque (Str ''add''))
      (Opaque (Arr [Opaque (Num (- 12)), Opaque (Num 13)])) (Some 0)]"
    using server_reads_eq[OF add_link_ok(1), of stream_server "w_net add_client"
        "[(Opaque (Req ''add'' [Opaque (Num (- 12)), Opaque (Num 13)] 1), 0, [])]" "[]" add_calls] stream_server_ready
    by (simp add: add_server_def add_link_def codec_link_def codec_decoder_def max_message_size_def add_calls_def
        add_client_simps myecho_compute_def sample_conversions_def)
  then have "\<forall>q < length (q_requests (add_server\<lparr>v_net := []\<rparr>)). is_sent q (add_server\<lparr>v_net := []\<rparr>)"
    by (simp add: is_sent_def new_request_impl_def)
  from quiescent_all_ready[OF add_run add_link_ok(1) _ net _ this] system_inv[OF add_run add_link_ok(1)]
  show "0 < length (h_futures add_done)" "ready add_done 0" by (auto simp: add_calls_def sys_inv_def client_inv_def)
qed


end
