(* ===== verification/RPC_Handles.thy ===== *)
theory RPC_Handles
  imports RPC_Caller RPC_Server
begin

text \<open>
  The handle classes of the public interface: \<open>session\<close> (\<^verbatim>\<open>session.h\<close>, end of \<^verbatim>\<open>session.cc\<close>),
  \<open>request\<close> (\<^verbatim>\<open>request.cc\<close>), \<open>future\<close> (\<^verbatim>\<open>future.cc\<close>), \<open>session_pool\<close> (\<^verbatim>\<open>session_pool.cc\<close>) and
  \<open>server\<close> (\<^verbatim>\<open>server.cc\<close>). A handle holds a shared pointer to an implementation object and forwards to
  it; the constructors of \<open>session\<close>, \<open>request\<close> and \<open>future\<close> accept a null pointer, which every member
  dereferences.
\<close>

section \<open>Definitions\<close>

text \<open>\<^verbatim>\<open>m_pimpl->f(...)\<close> on a pointer that may be null.\<close>

definition deref :: "('p \<Rightarrow> 'w \<Rightarrow> (exn + 'a) \<times> 'w) \<Rightarrow> 'p option \<Rightarrow> 'w \<Rightarrow> (exn + 'a) \<times> 'w" where
  "deref f pimpl w = (case pimpl of None \<Rightarrow> (Inl Null_dereference, w) | Some p \<Rightarrow> f p w)"

definition returns :: "exn option \<times> 'w \<Rightarrow> (exn + unit) \<times> 'w" where
  "returns r = (case fst r of None \<Rightarrow> Inr () | Some e \<Rightarrow> Inl e, snd r)"

subsection \<open>session\<close>

record session =
  sn_pimpl :: "sid option"

definition session_get_address :: "session \<Rightarrow> ('x, 'ip, 't, 'n, 'z) world_scheme \<Rightarrow>
   (exn + 'ip address) \<times> ('x, 'ip, 't, 'n, 'z) world_scheme"
where
  "session_get_address h = deref (\<lambda>s w. (Inr (s_addr (ses w s)), w)) (sn_pimpl h)"

definition session_get_loop :: "session \<Rightarrow> ('x, 'ip, 't, 'n, 'z) world_scheme \<Rightarrow>
   (exn + lid) \<times> ('x, 'ip, 't, 'n, 'z) world_scheme"
where
  "session_get_loop h = deref (\<lambda>s w. (Inr (s_loop (ses w s)), w)) (sn_pimpl h)"

definition handle_set_timeout :: "session \<Rightarrow> uint \<Rightarrow> ('x, 'ip, 't, 'n, 'z) world_scheme \<Rightarrow>
   (exn + unit) \<times> ('x, 'ip, 't, 'n, 'z) world_scheme"
where
  "handle_set_timeout h sec = deref (\<lambda>s w. (Inr (), session_set_timeout s sec w)) (sn_pimpl h)"

definition handle_get_timeout :: "session \<Rightarrow> ('x, 'ip, 't, 'n, 'z) world_scheme \<Rightarrow>
   (exn + uint) \<times> ('x, 'ip, 't, 'n, 'z) world_scheme"
where
  "handle_get_timeout h = deref (\<lambda>s w. (Inr (session_get_timeout s w), w)) (sn_pimpl h)"

text \<open>Both overloads of \<open>send_request_impl\<close> and of \<open>send_notify_impl\<close>: one block or a vector.\<close>

definition handle_send_request ::
  "('b, ('x, 'ip, 't, 'n, 'z) world_scheme) send_data \<Rightarrow> session \<Rightarrow> msgid \<Rightarrow> string \<Rightarrow> 'b outbuf \<Rightarrow>
   ('x, 'ip, 't, 'n, 'z) world_scheme \<Rightarrow> (exn + future) \<times> ('x, 'ip, 't, 'n, 'z) world_scheme"
where
  "handle_send_request send h msgid method buf =
     deref (\<lambda>s. send_request_impl send s msgid method buf) (sn_pimpl h)"

definition handle_send_notify ::
  "('b, ('x, 'ip, 't, 'n, 'z) world_scheme) send_data \<Rightarrow> session \<Rightarrow> 'b outbuf \<Rightarrow>
   ('x, 'ip, 't, 'n, 'z) world_scheme \<Rightarrow> (exn + unit) \<times> ('x, 'ip, 't, 'n, 'z) world_scheme"
where
  "handle_send_notify send h buf = deref (\<lambda>s w. returns (send_notify_impl send s buf w)) (sn_pimpl h)"

definition handle_next_msgid :: "session \<Rightarrow> ('x, 'ip, 't, 'n, 'z) world_scheme \<Rightarrow>
   (exn + msgid) \<times> ('x, 'ip, 't, 'n, 'z) world_scheme"
where
  "handle_next_msgid h = deref (\<lambda>s w. apfst Inr (next_msgid s w)) (sn_pimpl h)"

text \<open>\<open>~session_impl\<close>, and \<open>session_impl::step_timeout\<close> on the table of the session.\<close>

definition session_impl_destroy ::
  "sid \<Rightarrow> ('x, 'ip, 't, 'n, 'z) world_scheme \<Rightarrow> ('x, 'ip, 't, 'n, 'z) world_scheme" where
  "session_impl_destroy s w = disarm_step_timer s w"

definition session_step_timeout ::
  "fid list \<Rightarrow> sid \<Rightarrow> ('x, 'ip, 't, 'n, 'z) world_scheme \<Rightarrow> fid list \<times> ('x, 'ip, 't, 'n, 'z) world_scheme" where
  "session_step_timeout timedout s w =
     (let (timedout', m, fs) = reqtable_step_timeout timedout (table w s) (h_futures w)
      in (timedout', put_table s m (w\<lparr>h_futures := fs\<rparr>)))"

subsection \<open>request\<close>

record request =
  rh_pimpl :: "nat option"

definition request_method :: "request \<Rightarrow> ('x, 'ms, 'z) req_heap_scheme \<Rightarrow>
   (exn + 'x object) \<times> ('x, 'ms, 'z) req_heap_scheme"
where
  "request_method h = deref (\<lambda>q w. (Inr (r_method (rq w q)), w)) (rh_pimpl h)"

definition request_params :: "request \<Rightarrow> ('x, 'ms, 'z) req_heap_scheme \<Rightarrow>
   (exn + 'x object) \<times> ('x, 'ms, 'z) req_heap_scheme"
where
  "request_params h = deref (\<lambda>q w. (Inr (r_params (rq w q)), w)) (rh_pimpl h)"

definition request_is_sent :: "request \<Rightarrow> ('x, 'ms, 'z) req_heap_scheme \<Rightarrow>
   (exn + bool) \<times> ('x, 'ms, 'z) req_heap_scheme"
where
  "request_is_sent h = deref (\<lambda>q w. (Inr (is_sent q w), w)) (rh_pimpl h)"

definition request_get_msgid :: "request \<Rightarrow> ('x, 'ms, 'z) req_heap_scheme \<Rightarrow>
   (exn + 32 word) \<times> ('x, 'ms, 'z) req_heap_scheme"
where
  "request_get_msgid h = deref (\<lambda>q w. (Inr (get_msgid q w), w)) (rh_pimpl h)"

definition handle_send_data ::
  "('b, 'ms, ('x, 'ms, 'z) req_heap_scheme) ms_send \<Rightarrow> request \<Rightarrow> 'b outbuf \<Rightarrow>
   ('x, 'ms, 'z) req_heap_scheme \<Rightarrow> (exn + unit) \<times> ('x, 'ms, 'z) req_heap_scheme"
where
  "handle_send_data send h buf = deref (\<lambda>q w. returns (request_send_data send q buf w)) (rh_pimpl h)"

definition request_zone :: "request \<Rightarrow> ('x, 'ms, 'z) req_heap_scheme \<Rightarrow>
   (exn + zone option) \<times> ('x, 'ms, 'z) req_heap_scheme"
where
  "request_zone h = deref (\<lambda>q w. (Inr (r_zone (rq w q)), w)) (rh_pimpl h)"

subsection \<open>future\<close>

definition null_future :: future where
  "null_future = \<lparr>fu_method = [], fu_pimpl = None\<rparr>"

definition new_future :: "fid option \<Rightarrow> future" where
  "new_future pimpl = \<lparr>fu_method = [], fu_pimpl = pimpl\<rparr>"

definition new_method_future :: "string \<Rightarrow> fid option \<Rightarrow> future" where
  "new_method_future method pimpl = \<lparr>fu_method = method, fu_pimpl = pimpl\<rparr>"

definition future_method :: "future \<Rightarrow> string" where
  "future_method fu = fu_method fu"

definition future_zone :: "future \<Rightarrow> ('x, 'z) heap_scheme \<Rightarrow> (exn + zone option) \<times> ('x, 'z) heap_scheme" where
  "future_zone fu = deref (\<lambda>f w. (Inr (f_zone (fut w f)), w)) (fu_pimpl fu)"

text \<open>\<^verbatim>\<open>future::type<T>\<close>: a future whose result has the type that \<open>as\<close> converts to.\<close>

definition future_type_get ::
  "('x object \<Rightarrow> string) \<Rightarrow> ('x object \<Rightarrow> 'a option) \<Rightarrow> ('x, 'z) heap_scheme blocking \<Rightarrow> future \<Rightarrow>
   ('x, 'z) heap_scheme \<Rightarrow> ((exn + 'a) \<times> ('x, 'z) heap_scheme) option"
where
  "future_type_get show_object as env fu h = future_get show_object as env fu h"

definition future_type_get_zone ::
  "('x object \<Rightarrow> string) \<Rightarrow> ('x object \<Rightarrow> 'a option) \<Rightarrow> ('x, 'z) heap_scheme blocking \<Rightarrow> future \<Rightarrow>
   ('x, 'z) heap_scheme \<Rightarrow> ((exn + 'a) \<times> zone option \<times> ('x, 'z) heap_scheme) option"
where
  "future_type_get_zone show_object as env fu h = future_get_zone show_object as env fu h"

definition future_type_result ::
  "('x object \<Rightarrow> 'a option) \<Rightarrow> ('x, 'z) heap_scheme \<Rightarrow> future \<Rightarrow> exn + 'a" where
  "future_type_result as h fu =
     (case future_result h fu of
        Inl e \<Rightarrow> Inl e
      | Inr ob \<Rightarrow> (case as ob of None \<Rightarrow> Inl type_error | Some v \<Rightarrow> Inr v))"

subsection \<open>session\_pool and server\<close>

text \<open>The default argument \<^verbatim>\<open>loop lo = loop()\<close> of the constructors is a new loop.\<close>

definition default_loop :: "('x, 'z) heap_scheme \<Rightarrow> lid \<times> ('x, 'z) heap_scheme" where
  "default_loop w = (length (h_loops w), w\<lparr>h_loops := h_loops w @ [new_loop]\<rparr>)"

definition session_pool_default ::
  "('x, 'b, 'u) decoder \<Rightarrow> lid \<Rightarrow> ('x, 'ip, 'u tcp_client, 'n) world \<Rightarrow> ('x, 'ip, 'u tcp_client, 'n) pool" where
  "session_pool_default d lo w = new_session_pool (tcp_build d new_tcp_builder) lo w"

definition session_pool_builder ::
  "('ip, 't, 'n) builder \<Rightarrow> lid \<Rightarrow> ('x, 'ip, 't, 'n) world \<Rightarrow> ('x, 'ip, 't, 'n) pool" where
  "session_pool_builder b lo w = new_session_pool b lo w"

text \<open>\<open>get_session\<close> wraps what the implementation returns; \<open>get_loop\<close> and \<open>set_timeout\<close> forward.\<close>

definition pool_get_session_address ::
  "'ip::linorder address \<Rightarrow> ('x, 'ip, 't, 'n, 'z) pool_scheme \<Rightarrow> session \<times> ('x, 'ip, 't, 'n, 'z) pool_scheme" where
  "pool_get_session_address addr w = apfst (\<lambda>s. \<lparr>sn_pimpl = Some s\<rparr>) (get_session addr w)"

definition pool_get_loop :: "('x, 'ip, 't, 'n, 'z) pool_scheme \<Rightarrow> lid" where
  "pool_get_loop w = p_loop w"

definition handle_pool_set_timeout ::
  "uint \<Rightarrow> ('x, 'ip, 't, 'n, 'z) pool_scheme \<Rightarrow> ('x, 'ip, 't, 'n, 'z) pool_scheme" where
  "handle_pool_set_timeout sec w = pool_set_timeout sec w"

text \<open>\<open>start\<close> and the others of \<open>session_pool\<close>, on the loop of a server.\<close>

definition server_loop_try ::
  "(loop_impl \<Rightarrow> exn + loop_impl) \<Rightarrow> ('x, 'ip, 'u, 'n, 'z) server_scheme \<Rightarrow>
   exn option \<times> ('x, 'ip, 'u, 'n, 'z) server_scheme"
where
  "server_loop_try g v = (case g (v_loop v) of Inl e \<Rightarrow> (Some e, v) | Inr lo \<Rightarrow> (None, v\<lparr>v_loop := lo\<rparr>))"

definition server_start ::
  "nat \<Rightarrow> ('x, 'ip, 'u, 'n, 'z) server_scheme \<Rightarrow> exn option \<times> ('x, 'ip, 'u, 'n, 'z) server_scheme" where
  "server_start num v = server_loop_try (loop_start num) v"

text \<open>
  The constructors of a server: its part apart from the pool, which gets the builder and the loop;
  and the members that ask the implementation.
\<close>

definition server_on_loop :: "loop_impl \<Rightarrow> 'n \<Rightarrow> ('x, 'ip, 'u, 'n) server" where
  "server_on_loop lo n = new_server lo n"

definition server_get_local_endpoint ::
  "('ip \<Rightarrow> bool) \<Rightarrow> 'ip resolver \<Rightarrow> ('x, 'ip, 'u, 'n, 'z) server_scheme \<Rightarrow> exn + 'ip address" where
  "server_get_local_endpoint is_v4 resolver w = get_local_endpoint is_v4 resolver w"

text \<open>The numbers are returned as \<^verbatim>\<open>int\<close>: the size of the set of connections wraps at 32 bits.\<close>

definition server_get_connection_num :: "('x, 'ip, 'u, 'n, 'z) server_scheme \<Rightarrow> int" where
  "server_get_connection_num w = sint (of_nat (get_connection_num w) :: 32 word)"

definition server_get_request_num :: "('x, 'ip, 'u, 'n, 'z) server_scheme \<Rightarrow> int" where
  "server_get_request_num w = sint (of_nat (get_request_num w) :: 32 word)"

definition server_serve :: "('x, 'ip, 'u, 'n, 'z) server_scheme \<Rightarrow> ('x, 'ip, 'u, 'n, 'z) server_scheme" where
  "server_serve v = serve v"

definition server_listen_listener ::
  "('ip, 'b, 'n) server_asio \<Rightarrow> ('x, 'b, 'u) decoder \<Rightarrow> 'ip tcp_listener \<Rightarrow>
   ('x, 'ip, 'u, 'n, 'z) server_scheme \<Rightarrow> exn option \<times> ('x, 'ip, 'u, 'n, 'z) server_scheme"
where
  "server_listen_listener a d l w = server_impl_listen a d l w"

definition server_impl_destroy ::
  "('ip, 'b, 'n) server_asio \<Rightarrow> ('x, 'ip, 'u, 'n, 'z) server_scheme \<Rightarrow> ('x, 'ip, 'u, 'n, 'z) server_scheme" where
  "server_impl_destroy a w = (server_impl_close a w)\<lparr>v_alive := False\<rparr>"

section \<open>Lemmas\<close>

lemma deref_simps [simp]: "deref f None w = (Inl Null_dereference, w)" "deref f (Some p) w = f p w"
  by (simp_all add: deref_def)

text \<open>The step of the timer is \<open>session_step_timeout\<close> and the completion of what it took.\<close>

lemma step_timer_steps:
  "step_timer_handler False s w =
     (let (timedout, w1) = session_step_timeout [] s w
      in arm_step_timer s (if timedout \<noteq> [] then complete_all TIMEOUT_ERROR timedout w1 else w1))"
  by (simp add: step_timer_handler_def session_step_timeout_def split_beta Let_def)

text \<open>\<open>session::send_request\<close> is made of the members of the handle.\<close>

lemma send_request_handle:
  "send_request pk send s m p z w =
     (case handle_next_msgid \<lparr>sn_pimpl = Some s\<rparr> w of
        (Inl e, w1) \<Rightarrow> (Inl e, w1)
      | (Inr i, w1) \<Rightarrow>
          handle_send_request send \<lparr>sn_pimpl = Some s\<rparr> i m
            (if z \<noteq> None then Vbuf (vpack_request pk (new_msg_request m p i)) else Sbuf (pack_request pk (new_msg_request m p i))) w1)"
  by (simp add: send_request_def handle_next_msgid_def handle_send_request_def split_beta Let_def)

text \<open>
  \<open>type::get\<close> on a completed future without an error is \<open>type::result\<close>; the number of connections is
  exact below 2 ^ 31.
\<close>

lemma future_type_get_result:
  assumes "fu_pimpl fu = Some f" "ready w f" "f_error (fut w f) = NIL"
  shows "future_type_get sh as env fu w = Some (future_type_result as w fu, w)"
  using assms get_impl_ready[of fu f w sh env]
  by (simp add: future_type_get_def future_type_result_def future_get_def future_result_def outcome_def)

lemma server_connection_num_exact:
  assumes "get_connection_num w < 2 ^ 31"
  shows "server_get_connection_num w = int (get_connection_num w)"
proof -
  have "take_bit 31 (int (get_connection_num w)) = int (get_connection_num w)"
    using assms by (intro take_bit_int_eq_self) simp_all
  then show ?thesis
    using assms by (simp add: server_get_connection_num_def signed_of_nat signed_take_bit_int_eq_self)
qed

text \<open>The destructor of a server, whose last reference destroys the implementation.\<close>

lemma server_destroy_steps:
  "server_destroy fails a w =
     (let w1 = server_close a w
      in server_impl_destroy a (w1\<lparr>v_loop := loop_join fails (loop_end (loop_flush (v_loop w1)))\<rparr>))"
  by (simp add: server_destroy_def server_impl_destroy_def Let_def)

end
