(* ===== verification/RPC_Unittest.thy ===== *)
theory RPC_Unittest
  imports RPC_Echo RPC_Handles
begin

text \<open>
  The unit tests (\<^verbatim>\<open>unittest/unittest.cpp\<close>) as programs. Each test starts a server with the
  dispatcher \<open>myecho\<close>, connects to it from the same process and observes what a call returns or
  throws. The state of a test is that process: its futures, loops and sessions, its session pool and
  its server. What Boost and msgpack contribute is the argument \<open>platform\<close>; as an example the
  tests are then run on one platform, whose network is a pair of queues and whose server may be late.
  What they report on any platform without a connection is \<open>RPC_Unreachable\<close>.
\<close>

section \<open>Definitions\<close>

record ('x, 'ip, 'u, 'n) testbed = "('x, 'ip, 'u tcp_client, 'n) pool" +
  tb_server :: "('x, 'ip, 'u, 'n) server"

record ('x, 'ip, 'b, 'u, 'n) platform =
  pf_is_v4 :: "'ip \<Rightarrow> bool"
  pf_resolver :: "'ip resolver"
  pf_asio :: "('ip, 'b, 'n) asio"
  pf_server_asio :: "('ip, 'b, 'n) server_asio"
  pf_decoder :: "('x, 'b, 'u) decoder"
  pf_packer :: "('x, 'b) packer"
  pf_of_int :: "32 word \<Rightarrow> 'x object"
  pf_as_int :: "'x object \<Rightarrow> 32 word option"
  pf_show :: "'x object \<Rightarrow> string"
  pf_join_fails :: "nat \<Rightarrow> bool"
  pf_blocking :: "('x, 'ip, 'u, 'n) testbed blocking"

text \<open>A statement returns or throws, or never ends (\<open>None\<close>).\<close>

type_synonym ('a, 'w) stmt = "'w \<Rightarrow> ((exn + 'a) \<times> 'w) option"

definition stmt_return :: "'a \<Rightarrow> ('a, 'w) stmt" where
  "stmt_return x w = Some (Inr x, w)"

definition stmt_bind :: "('a, 'w) stmt \<Rightarrow> ('a \<Rightarrow> ('c, 'w) stmt) \<Rightarrow> ('c, 'w) stmt" where
  "stmt_bind m k w =
     (case m w of
        None \<Rightarrow> None
      | Some (Inl e, w') \<Rightarrow> Some (Inl e, w')
      | Some (Inr x, w') \<Rightarrow> k x w')"

text \<open>A local object: its destructor runs when the rest of the block returns or throws.\<close>

definition stmt_local :: "('a, 'w) stmt \<Rightarrow> ('a \<Rightarrow> 'w \<Rightarrow> 'w) \<Rightarrow> ('a \<Rightarrow> ('c, 'w) stmt) \<Rightarrow> ('c, 'w) stmt" where
  "stmt_local m destroy k = stmt_bind m (\<lambda>x w. map_option (apsnd (destroy x)) (k x w))"

definition stmt_total :: "('w \<Rightarrow> 'a \<times> 'w) \<Rightarrow> ('a, 'w) stmt" where
  "stmt_total f w = (let (x, w') = f w in Some (Inr x, w'))"

definition stmt_fn :: "('w \<Rightarrow> (exn + 'a) \<times> 'w) \<Rightarrow> ('a, 'w) stmt" where
  "stmt_fn f w = Some (f w)"

definition stmt_proc :: "('w \<Rightarrow> exn option \<times> 'w) \<Rightarrow> (unit, 'w) stmt" where
  "stmt_proc f w = (let (e, w') = f w in Some (case e of None \<Rightarrow> Inr () | Some ex \<Rightarrow> Inl ex, w'))"

text \<open>
  The assertions of Google Test that a test reports. An exception that no \<^verbatim>\<open>catch\<close> clause takes is
  reported by the framework; a null dereference is no exception and ends the process.
\<close>

datatype verdict = SUCCEED | ADD_FAILURE string | FAIL string | EXPECT_EQ bool | Uncaught exn

fun verdict_ok :: "verdict \<Rightarrow> bool" where
  "verdict_ok SUCCEED = True"
| "verdict_ok (EXPECT_EQ b) = b"
| "verdict_ok _ = False"

definition try_catch :: "(exn \<Rightarrow> verdict list option) \<Rightarrow> (verdict list, 'w) stmt \<Rightarrow> 'w \<Rightarrow> (verdict list \<times> 'w) option" where
  "try_catch clauses m w =
     map_option (\<lambda>(r, w').
        (case r of
           Inr vs \<Rightarrow> vs
         | Inl e \<Rightarrow> (case clauses e of Some vs \<Rightarrow> vs | None \<Rightarrow> [Uncaught e]), w')) (m w)"

fun catch_any :: "verdict list \<Rightarrow> exn \<Rightarrow> verdict list option" where
  "catch_any vs Null_dereference = None"
| "catch_any vs _ = Some vs"

definition catch_std :: "verdict list \<Rightarrow> exn \<Rightarrow> verdict list option" where
  "catch_std vs e = (if is_std_exception e then Some vs else None)"

subsection \<open>The statements of the tests\<close>

text \<open>The server of the process works on the network of the process.\<close>

definition on_server ::
  "(('x, 'ip, 'u, 'n) server \<Rightarrow> exn option \<times> ('x, 'ip, 'u, 'n) server) \<Rightarrow>
   ('x, 'ip, 'u, 'n) testbed \<Rightarrow> exn option \<times> ('x, 'ip, 'u, 'n) testbed"
where
  "on_server g w =
     (let (e, v) = g ((tb_server w)\<lparr>v_net := w_net w\<rparr>) in (e, w\<lparr>tb_server := v, w_net := v_net v\<rparr>))"

definition make_server :: "(unit, ('x, 'ip, 'u, 'n) testbed) stmt" where
  "make_server = stmt_total (\<lambda>w. ((), w\<lparr>tb_server := new_server new_loop (w_net w)\<rparr>))"

definition drop_server :: "('x, 'ip, 'b, 'u, 'n) platform \<Rightarrow> unit \<Rightarrow> ('x, 'ip, 'u, 'n) testbed \<Rightarrow> ('x, 'ip, 'u, 'n) testbed" where
  "drop_server P _ w =
     snd (on_server (\<lambda>v. (None, server_destroy (pf_join_fails P) (pf_server_asio P) v)) w)"

text \<open>\<^verbatim>\<open>server.serve(...); server.listen("0.0.0.0", PORT);\<close> and \<^verbatim>\<open>server.start(num);\<close>\<close>

definition PORT :: "16 word" where
  "PORT = 18811"

definition serve_echo :: "('x, 'ip, 'b, 'u, 'n) platform \<Rightarrow> (unit, ('x, 'ip, 'u, 'n) testbed) stmt" where
  "serve_echo P =
     stmt_bind (stmt_proc (on_server (\<lambda>v. (None, serve v))))
       (\<lambda>_. stmt_proc (on_server
          (server_listen_host (pf_is_v4 P) (pf_resolver P) (pf_server_asio P) (pf_decoder P) ''0.0.0.0'' PORT)))"

definition start_server :: "nat \<Rightarrow> (unit, ('x, 'ip, 'u, 'n) testbed) stmt" where
  "start_server num = stmt_proc (on_server (server_start num))"

definition make_client :: "('x, 'ip, 'b, 'u, 'n) platform \<Rightarrow> string \<Rightarrow> 16 word \<Rightarrow> (sid, ('x, 'ip, 'u, 'n) testbed) stmt" where
  "make_client P host port =
     stmt_bind (stmt_total default_loop)
       (\<lambda>lo. stmt_fn (client_host_port (pf_is_v4 P) (pf_resolver P) (pf_decoder P) host port lo))"

definition make_pool :: "('x, 'ip, 'b, 'u, 'n) platform \<Rightarrow> (unit, ('x, 'ip, 'u, 'n) testbed) stmt" where
  "make_pool P =
     stmt_bind (stmt_total default_loop)
       (\<lambda>lo. stmt_total (\<lambda>w. ((), pool_arm_step_timer
          (w\<lparr>p_loop := lo, p_table := [], p_builder := tcp_build (pf_decoder P) new_tcp_builder, p_timer := False\<rparr>))))"

definition call_method ::
  "('x, 'ip, 'b, 'u, 'n) platform \<Rightarrow> sid \<Rightarrow> string \<Rightarrow> 'x object list \<Rightarrow> (future, ('x, 'ip, 'u, 'n) testbed) stmt"
where
  "call_method P s name params =
     stmt_fn (call_plain (send_request (pf_packer P) (tcp_send_data (pf_asio P) (pf_decoder P)) s) name params)"

definition call_method0 ::
  "('x, 'ip, 'b, 'u, 'n) platform \<Rightarrow> sid \<Rightarrow> string \<Rightarrow> (future, ('x, 'ip, 'u, 'n) testbed) stmt"
where
  "call_method0 P s name =
     stmt_fn (call0 (send_request (pf_packer P) (tcp_send_data (pf_asio P) (pf_decoder P)) s) name)"

definition notify_method0 ::
  "('x, 'ip, 'b, 'u, 'n) platform \<Rightarrow> sid \<Rightarrow> string \<Rightarrow> (unit, ('x, 'ip, 'u, 'n) testbed) stmt"
where
  "notify_method0 P s name =
     stmt_proc (notify0 (send_notify (pf_packer P) (tcp_send_data (pf_asio P) (pf_decoder P)) s) name)"

definition get_int :: "('x, 'ip, 'b, 'u, 'n) platform \<Rightarrow> future \<Rightarrow> (32 word, ('x, 'ip, 'u, 'n) testbed) stmt" where
  "get_int P fu = future_get (pf_show P) (pf_as_int P) (pf_blocking P) fu"

text \<open>\<^verbatim>\<open>cli.get_loop()->flush()\<close>: \<open>poll\<close> runs the handlers that are ready.\<close>

definition flush_loop :: "('x, 'ip, 'b, 'u, 'n) platform \<Rightarrow> sid \<Rightarrow> (unit, ('x, 'ip, 'u, 'n) testbed) stmt" where
  "flush_loop P s = stmt_proc (\<lambda>w.
     let (evs, n) = io_poll (pf_asio P) (w_net w)
     in run_client_events (pf_decoder P) evs ((on_loop (s_loop (ses w s)) loop_flush w)\<lparr>w_net := n\<rparr>))"

subsection \<open>The tests\<close>

type_synonym ('x, 'ip, 'b, 'u, 'n) unit_test =
  "('x, 'ip, 'b, 'u, 'n) platform \<Rightarrow> ('x, 'ip, 'u, 'n) testbed \<Rightarrow> (verdict list \<times> ('x, 'ip, 'u, 'n) testbed) option"

definition test_Add :: "('x, 'ip, 'b, 'u, 'n) unit_test" where
  "test_Add P =
     try_catch
       (\<lambda>e. case e of
          argument_error what \<Rightarrow> Some [ADD_FAILURE (''argument_error exception '' @ what)]
        | system_error ec \<Rightarrow> Some [ADD_FAILURE []]
        | _ \<Rightarrow> catch_any [ADD_FAILURE ''Uncaught exception''] e)
       (stmt_local make_server (drop_server P) (\<lambda>_.
        stmt_bind (serve_echo P) (\<lambda>_.
        stmt_bind (start_server 5) (\<lambda>_.
        stmt_local (make_client P ''127.0.0.1'' PORT) session_release (\<lambda>cli.
        let a = -12; b = 13 in
        stmt_bind (call_method P cli ''add'' [pf_of_int P a, pf_of_int P b]) (\<lambda>cc.
        stmt_bind (get_int P cc) (\<lambda>i.
        stmt_return [EXPECT_EQ (a + b = i)])))))))"

definition test_IncorrectPort :: "('x, 'ip, 'b, 'u, 'n) unit_test" where
  "test_IncorrectPort P =
     try_catch
       (\<lambda>e. case e of
          argument_error what \<Rightarrow>
            Some [ADD_FAILURE (''argument_error exception '' @ what), ADD_FAILURE ''Didn't throw exception as expected'']
        | connect_error what \<Rightarrow> Some [SUCCEED]
        | _ \<Rightarrow> catch_any [FAIL ''Uncaught exception''] e)
       (stmt_local make_server (drop_server P) (\<lambda>_.
        stmt_bind (serve_echo P) (\<lambda>_.
        stmt_local (make_client P ''127.0.0.1'' 16296) session_release (\<lambda>cli.
        stmt_bind (call_method P cli ''add'' [pf_of_int P 1, pf_of_int P 2]) (\<lambda>fu.
        stmt_bind (get_int P fu) (\<lambda>_.
        stmt_return [ADD_FAILURE ''Didn't throw exception as expected'']))))))"

definition test_NoMethodError :: "('x, 'ip, 'b, 'u, 'n) unit_test" where
  "test_NoMethodError P =
     try_catch
       (\<lambda>e. case e of
          argument_error what \<Rightarrow>
            Some [ADD_FAILURE (''argument_error exception '' @ what), ADD_FAILURE ''Didn't throw exception as expected'']
        | no_method_error what \<Rightarrow> Some [SUCCEED]
        | _ \<Rightarrow> catch_any [FAIL ''Uncaught exception''] e)
       (stmt_local make_server (drop_server P) (\<lambda>_.
        stmt_bind (serve_echo P) (\<lambda>_.
        stmt_bind (start_server 1) (\<lambda>_.
        stmt_local (make_client P ''127.0.0.1'' PORT) session_release (\<lambda>cli.
        stmt_bind (call_method P cli ''sub'' [pf_of_int P 1, pf_of_int P 2]) (\<lambda>fu.
        stmt_bind (get_int P fu) (\<lambda>_.
        stmt_return [ADD_FAILURE ''Didn't throw exception as expected''])))))))"

definition test_TimeoutErrorSession :: "('x, 'ip::linorder, 'b, 'u, 'n) unit_test" where
  "test_TimeoutErrorSession P =
     try_catch
       (\<lambda>e. case e of timeout_error what \<Rightarrow> Some [SUCCEED] | _ \<Rightarrow> catch_std [FAIL ''Uncaught exception''] e)
       (stmt_local make_server (drop_server P) (\<lambda>_.
        stmt_bind (serve_echo P) (\<lambda>_.
        stmt_bind (start_server 1) (\<lambda>_.
        stmt_local (make_pool P) (\<lambda>_. session_pool_destroy (pf_join_fails P)) (\<lambda>_.
        stmt_bind (stmt_proc (pool_start 1)) (\<lambda>_.
        stmt_local (stmt_fn (pool_get_session_host (pf_is_v4 P) (pf_resolver P) ''127.0.0.1'' PORT)) session_release (\<lambda>s.
        stmt_bind (stmt_total (\<lambda>w. ((), session_set_timeout s 3 w))) (\<lambda>_.
        stmt_bind (call_method0 P s ''timeout'') (\<lambda>fu.
        stmt_bind (get_int P fu) (\<lambda>_.
        stmt_return []))))))))))"

definition test_TimeoutErrorClient :: "('x, 'ip, 'b, 'u, 'n) unit_test" where
  "test_TimeoutErrorClient P =
     try_catch
       (\<lambda>e. case e of timeout_error what \<Rightarrow> Some [SUCCEED] | _ \<Rightarrow> catch_std [FAIL ''Uncaught exception''] e)
       (stmt_local make_server (drop_server P) (\<lambda>_.
        stmt_bind (serve_echo P) (\<lambda>_.
        stmt_bind (start_server 1) (\<lambda>_.
        stmt_local (make_client P ''127.0.0.1'' PORT) session_release (\<lambda>cli.
        stmt_bind (stmt_total (\<lambda>w. ((), session_set_timeout cli 3 w))) (\<lambda>_.
        stmt_bind (call_method0 P cli ''timeout'') (\<lambda>fu.
        stmt_bind (get_int P fu) (\<lambda>_.
        stmt_return []))))))))"

definition test_Err :: "('x, 'ip, 'b, 'u, 'n) unit_test" where
  "test_Err P =
     try_catch
       (\<lambda>e. if is_std_exception e then Some [SUCCEED] else catch_any [FAIL ''Uncaught exception''] e)
       (stmt_local make_server (drop_server P) (\<lambda>_.
        stmt_bind (serve_echo P) (\<lambda>_.
        stmt_bind (start_server 5) (\<lambda>_.
        stmt_local (make_client P ''127.0.0.1'' PORT) session_release (\<lambda>cli.
        stmt_bind (call_method0 P cli ''err'') (\<lambda>fu.
        stmt_bind (get_int P fu) (\<lambda>_.
        stmt_return [ADD_FAILURE ''Didn't throw exception as expected''])))))))"

definition test_Notify :: "('x, 'ip, 'b, 'u, 'n) unit_test" where
  "test_Notify P =
     try_catch
       (\<lambda>e. case e of
          argument_error what \<Rightarrow> Some [ADD_FAILURE (''argument_error exception '' @ what)]
        | system_error ec \<Rightarrow> Some [ADD_FAILURE ''system_error exception '']
        | _ \<Rightarrow> catch_any [FAIL ''Uncaught exception''] e)
       (stmt_local make_server (drop_server P) (\<lambda>_.
        stmt_bind (serve_echo P) (\<lambda>_.
        stmt_bind (start_server 5) (\<lambda>_.
        stmt_local (make_client P ''127.0.0.1'' PORT) session_release (\<lambda>cli.
        stmt_bind (notify_method0 P cli ''echo'') (\<lambda>_.
        stmt_bind (flush_loop P cli) (\<lambda>_.
        stmt_return [])))))))"

subsection \<open>A platform\<close>

text \<open>
  A network with the ports that are listened on and a queue of bytes in each direction, on which the
  server threads are late by \<open>n_delay\<close> seconds: for so long only the step timer of the client has
  something to do. A connection to a port that nobody listens on is refused.
\<close>

record net =
  n_ports :: "16 word list"
  n_up :: "wire list"
  n_down :: "wire list"
  n_delay :: nat

definition ECONNREFUSED :: errno where "ECONNREFUSED = 111"

definition net_asio :: "(nat, wire, net) asio" where
  "net_asio =
     \<lparr>sock_connect = (\<lambda>s ad n. (if m_port ad \<in> set (n_ports n) then 0 else ECONNREFUSED, True, n)),
      sock_write = (\<lambda>s bs n. (None, n\<lparr>n_up := n_up n @ bs\<rparr>)),
      io_poll = (\<lambda>n. if n_down n = [] then ([], n) else ([Ev_read 0 0 (n_down n)], n\<lparr>n_down := []\<rparr>))\<rparr>"

definition net_server_asio :: "(nat, wire, net) server_asio" where
  "net_server_asio =
     \<lparr>sock_listen = (\<lambda>ad n. (Inr ad, n\<lparr>n_ports := m_port ad # n_ports n\<rparr>)),
      server_write = (\<lambda>k bs n. (None, n\<lparr>n_down := n_down n @ bs\<rparr>)),
      remote_endpoint = (\<lambda>k n. None)\<rparr>"

type_synonym net_testbed = "(msg_value, nat, wire list, net) testbed"

text \<open>The server threads, if there are any, accept the connection and read what has arrived.\<close>

definition server_accepts :: "net_testbed \<Rightarrow> net_testbed" where
  "server_accepts w =
     (if sh_open (tc_conn (tcp w 0)) \<and> \<not> sh_open (v_socks (tb_server w) ! 0)
      then snd (on_server (on_accept net_server_asio codec_decoder 0) w) else w)"

definition server_takes :: "net_testbed \<Rightarrow> net_testbed" where
  "server_takes w =
     (if n_up (w_net w) = [] then w
      else snd (on_server (stream_on_read codec_decoder
             (server_vt net_server_asio
               (myecho_dispatch sample_conversions codec_packer (server_ms_send net_server_asio)) 0) 0 (n_up (w_net w)))
           (w\<lparr>w_net := (w_net w)\<lparr>n_up := []\<rparr>\<rparr>)))"

definition server_threads :: "net_testbed \<Rightarrow> net_testbed" where
  "server_threads w = (if is_running (v_loop (tb_server w)) then server_takes (server_accepts w) else w)"

text \<open>One handler of the client: the step timer, or the data that the server has sent.\<close>

definition client_handler :: "net_testbed \<Rightarrow> net_testbed" where
  "client_handler w =
     (if 0 < n_delay (w_net w)
      then step_timer_handler False 0 (w\<lparr>w_net := (w_net w)\<lparr>n_delay := n_delay (w_net w) - 1\<rparr>\<rparr>)
      else let w1 = server_threads w
           in if n_down (w_net w1) = [] then step_timer_handler False 0 w1
              else snd (stream_on_read codec_decoder (tcp_client_vt 0) 0 (n_down (w_net w1))
                     (w1\<lparr>w_net := (w_net w1)\<lparr>n_down := []\<rparr>\<rparr>)))"

text \<open>A thread that waits for some seconds is woken by \<^verbatim>\<open>notify_all\<close>, or the time is over.\<close>

fun wait_seconds :: "nat \<Rightarrow> net_testbed \<Rightarrow> bool \<times> net_testbed" where
  "wait_seconds 0 w = (False, w)"
| "wait_seconds (Suc k) w =
     (let w1 = client_handler w
      in if h_log w1 \<noteq> h_log w then (True, w1) else wait_seconds k w1)"

definition net_platform :: "(msg_value, nat, wire, wire list, net) platform" where
  "net_platform =
     \<lparr>pf_is_v4 = (\<lambda>_. True),
      pf_resolver = (\<lambda>host service.
        if service = ''18811'' then Inr [(if host = ''0.0.0.0'' then 0 else 1, 18811)]
        else if service = ''16296'' then Inr [(1, 16296)] else Inr []),
      pf_asio = net_asio, pf_server_asio = net_server_asio,
      pf_decoder = codec_decoder, pf_packer = codec_packer,
      pf_of_int = (\<lambda>a. Opaque (Num a)),
      pf_as_int = (\<lambda>ob. case ob of Opaque (Num a) \<Rightarrow> Some a | _ \<Rightarrow> None),
      pf_show = (\<lambda>ob. []), pf_join_fails = (\<lambda>t. False),
      pf_blocking = \<lparr>cond_wait = client_handler, cond_timed_wait = (\<lambda>ms. wait_seconds (unat ms div 1000)),
        run_one = client_handler\<rparr>\<rparr>"

definition fresh_process :: "nat \<Rightarrow> net_testbed" where
  "fresh_process delay =
     (let n = \<lparr>n_ports = [], n_up = [], n_down = [], n_delay = delay\<rparr>
      in \<lparr>h_futures = [], h_loops = [], h_log = [], w_sessions = [], w_net = n, p_loop = 0, p_table = [],
          p_builder = tcp_build codec_decoder new_tcp_builder, p_timer = False,
          tb_server = (new_server new_loop n)\<lparr>v_alive := False\<rparr>\<rparr>)"

section \<open>The states of the tests\<close>

text \<open>
  The states that the tests go through: the server before a connection, the client before its call,
  the wait for the answer, and its end by a timeout or by a reply.
\<close>

definition listening_server :: "nat \<Rightarrow> nat \<Rightarrow> (msg_value, nat, wire list, net) server" where
  "listening_server k d =
     \<lparr>q_requests = [], v_dp = True, v_alive = True,
      v_stran = Some \<lparr>ts_acceptor = True, ts_accepting = True, ts_conn = Some 0, ts_local = Address 0 PORT, ts_connections = []\<rparr>,
      v_socks = [\<lparr>sh_pac = [], sh_open = False, sh_reading = False\<rparr>],
      v_loop = \<lparr>l_workers = [0..<k], l_calls = map Thread_spawn [0..<k], l_next = k\<rparr>,
      v_net = \<lparr>n_ports = [PORT], n_up = [], n_down = [], n_delay = d\<rparr>\<rparr>"

definition connecting :: "(msg_value, nat, wire list, net) server \<Rightarrow> uint \<Rightarrow> nat \<Rightarrow> net_testbed" where
  "connecting v T d =
     \<lparr>h_futures = [], h_loops = [new_loop], h_log = [],
      w_sessions = [\<lparr>s_addr = Address 1 PORT, s_loop = 0, s_tran = Some (new_tcp_client codec_decoder new_tcp_builder),
        s_msgid_rr = 1, s_reqtable = [], s_timeout = T, s_timer = True, s_handles = 1\<rparr>],
      w_net = \<lparr>n_ports = [PORT], n_up = [], n_down = [], n_delay = d\<rparr>,
      p_loop = 0, p_table = [], p_builder = tcp_build codec_decoder new_tcp_builder, p_timer = False, tb_server = v\<rparr>"

text \<open>A thread that waits for the answer to its first call, with \<open>t\<close> seconds left.\<close>

record setting =
  g_loop :: loop_impl
  g_handles :: nat
  g_timeout :: uint
  g_table :: "(nat address \<times> sid \<times> uint) list"
  g_timer :: bool

definition waiting :: "setting \<Rightarrow> (msg_value, nat, wire list, net) server \<Rightarrow> wire list \<Rightarrow> uint \<Rightarrow> nat \<Rightarrow> net_testbed" where
  "waiting g v up t d =
     \<lparr>h_futures = [new_future_impl 1 0 0 t], h_loops = [g_loop g], h_log = [],
      w_sessions = [\<lparr>s_addr = Address 1 PORT, s_loop = 0,
        s_tran = Some \<lparr>tc_connect_timeout = 10, tc_reconnect_limit = 3,
          tc_conn = \<lparr>sh_pac = [], sh_open = True, sh_reading = True\<rparr>,
          tc_connecting = 1, tc_timer = False, tc_timer_secs = 10\<rparr>,
        s_msgid_rr = 2, s_reqtable = [(1, 0)], s_timeout = g_timeout g, s_timer = True, s_handles = g_handles g\<rparr>],
      w_net = \<lparr>n_ports = [PORT], n_up = up, n_down = [], n_delay = d\<rparr>,
      p_loop = 0, p_table = g_table g, p_builder = tcp_build codec_decoder new_tcp_builder, p_timer = g_timer g,
      tb_server = v\<rparr>"

definition client_setting :: "uint \<Rightarrow> setting" where
  "client_setting T = \<lparr>g_loop = \<lparr>l_workers = [], l_calls = [Io_poll, Io_poll], l_next = 0\<rparr>, g_handles = 1,
     g_timeout = T, g_table = [], g_timer = False\<rparr>"

definition pool_setting :: setting where
  "pool_setting = \<lparr>g_loop = \<lparr>l_workers = [0], l_calls = [Thread_spawn 0], l_next = 1\<rparr>, g_handles = Suc 1,
     g_timeout = 3, g_table = [(Address 1 PORT, 0, 60)], g_timer = True\<rparr>"

definition timed_out :: "net_testbed \<Rightarrow> bool" where
  "timed_out w \<longleftrightarrow> ready w 0 \<and> f_error (fut w 0) = TIMEOUT_ERROR"

definition holds_reply :: "msg_value object \<Rightarrow> msg_value object \<Rightarrow> net_testbed \<Rightarrow> bool" where
  "holds_reply r e w \<longleftrightarrow> ready w 0 \<and> f_result (fut w 0) = r \<and> f_error (fut w 0) = e"

abbreviation echo_request :: "string \<Rightarrow> msg_value object list \<Rightarrow> wire list" where
  "echo_request m p \<equiv> [Head, Body (Req m p 1)]"

text \<open>A server that never answers.\<close>

definition silent :: "(msg_value, nat, wire list, net) server \<Rightarrow> wire list \<Rightarrow> bool" where
  "silent v up \<longleftrightarrow> up = [] \<and> sh_open (v_socks v ! 0) \<or>
     (\<exists>k d. 0 < k \<and> v = listening_server k d \<and> up = echo_request ''timeout'' [])"

definition reported :: "(exn \<Rightarrow> verdict list option) \<Rightarrow> ('a \<Rightarrow> verdict list) \<Rightarrow> exn + 'a \<Rightarrow> verdict list" where
  "reported clauses vs r =
     (case r of Inr x \<Rightarrow> vs x | Inl e \<Rightarrow> (case clauses e of Some ws \<Rightarrow> ws | None \<Rightarrow> [Uncaught e]))"

section \<open>Evaluation of the statements\<close>

lemmas stmt_defs =
  try_catch_def stmt_local_def stmt_bind_def stmt_total_def stmt_fn_def stmt_proc_def stmt_return_def
lemmas step_defs =
  make_server_def drop_server_def on_server_def server_start_def server_loop_try_def serve_echo_def start_server_def default_loop_def
  make_client_def make_pool_def call_method_def call_method0_def notify_method0_def get_int_def flush_loop_def
lemmas lib_defs =
  new_server_def serve_def server_listen_host_def server_listen_defs address_host_port_def resolve_def
  start_accept_def loop_start_def is_running_def new_loop_def new_stream_handler_def client_host_port_def
  session_create_def session_build_def arm_step_timer_def put_session_def new_session_impl_def tcp_build_def
  new_tcp_builder_def new_tcp_client_def new_reqtable_def caller_defs send_request_def next_msgid_def
  atomic_increment_def new_msg_request_def send_request_impl_def register_future_def session_get_timeout_def
  new_future_impl_def put_table_def reqtable_insert_def tcp_send_data_def flush_if_idle_def tcp_connect_def tcp_def
  put_tcp_def tcp_put_conn_def tcp_cancel_timer_def on_connect_success_def stream_start_def on_loop_def
  loop_flush_def io_log_def stream_send_data_def tcp_sock_write_def tcp_client_vt_def trunc_rat_def Let_def
  add_worker_eq
lemma decimal_ports: "decimal 18811 = ''18811''" "decimal 16296 = ''16296''"
  by (simp_all add: decimal.simps char_of_def bit_0)

lemma platform_simps:
  "pf_is_v4 net_platform ip" "pf_asio net_platform = net_asio" "pf_server_asio net_platform = net_server_asio"
  "pf_decoder net_platform = codec_decoder" "pf_packer net_platform = codec_packer"
  "pf_of_int net_platform = (\<lambda>a. Opaque (Num a))" "pf_join_fails net_platform = (\<lambda>_. False)"
  "pf_resolver net_platform ''0.0.0.0'' ''18811'' = Inr [(0, 18811)]"
  "pf_resolver net_platform ''127.0.0.1'' ''18811'' = Inr [(1, 18811)]"
  "pf_resolver net_platform ''127.0.0.1'' ''16296'' = Inr [(1, 16296)]"
  "cond_timed_wait (pf_blocking net_platform) = (\<lambda>ms. wait_seconds (unat ms div 1000))"
  "run_one (pf_blocking net_platform) = client_handler" "pf_show net_platform = (\<lambda>_. [])"
  by (simp_all add: net_platform_def)

lemma io_simps:
  "sock_connect net_asio s ad n = (if m_port ad \<in> set (n_ports n) then 0 else ECONNREFUSED, True, n)"
  "sock_write net_asio s bs n = (None, n\<lparr>n_up := n_up n @ bs\<rparr>)"
  "io_poll net_asio n = (if n_down n = [] then ([], n) else ([Ev_read 0 0 (n_down n)], n\<lparr>n_down := []\<rparr>))"
  "sock_listen net_server_asio ad n = (Inr ad, n\<lparr>n_ports := m_port ad # n_ports n\<rparr>)"
  "server_write net_server_asio k bs n = (None, n\<lparr>n_down := n_down n @ bs\<rparr>)"
  "remote_endpoint net_server_asio k n = None"
  by (simp_all add: net_asio_def net_server_asio_def)

lemma codec_simps:
  "pac_new codec_decoder = []" "pac_reserve codec_decoder u = u" "pac_consumed codec_decoder bs u = u @ bs"
  "pac_next_all codec_decoder u = (let (xs, rest) = codec_parse u in (map (\<lambda>x. (Opaque x, 0, rest)) xs, None, rest))"
  "pac_message_size codec_decoder u = length u"
  "pack_request codec_packer r = [Head, Body (Req (req_method r) (req_param r) (req_msgid r))]"
  "pack_notify codec_packer ntf = [Head, Body (Ntf (ntf_method ntf) (ntf_param ntf))]"
  "pack_response codec_packer rs = [Head, Body (Res (res_result rs) (res_error rs) (res_msgid rs))]"
  "conv_rpc codec_decoder = codec_rpc" "conv_request codec_decoder = codec_request"
  "conv_response codec_decoder = codec_response" "conv_notify codec_decoder = codec_notify"
  by (simp_all add: codec_decoder_def codec_packer_def)

lemmas bench_simps =
  stmt_defs step_defs lib_defs try_connect.simps platform_simps io_simps codec_simps decimal_ports PORT_def

lemma client_ready:
  assumes "0 < k"
  shows "stmt_local make_server D (\<lambda>_. stmt_bind (serve_echo net_platform) (\<lambda>_. stmt_bind (start_server k) (\<lambda>_.
      stmt_local (make_client net_platform ''127.0.0.1'' PORT) E body))) (fresh_process d) =
    map_option (apsnd (D ())) (map_option (apsnd (E 0)) (body 0 (connecting (listening_server k d) 30 d)))"
  using assms by (simp add: bench_simps fresh_process_def listening_server_def connecting_def)

lemma session_set_timeout_connecting: "session_set_timeout 0 n (connecting v T d) = connecting v n d"
  by (simp add: session_set_timeout_def connecting_def put_session_def)

lemma client_calls:
  "call_method net_platform 0 m p (connecting v T d) =
     Some (Inr \<lparr>fu_method = m, fu_pimpl = Some 0\<rparr>, waiting (client_setting T) v (echo_request m p) T d)"
  by (simp add: bench_simps connecting_def waiting_def client_setting_def)

lemma call_method0_eq: "call_method0 P s m = call_method P s m []"
  by (simp add: call_method0_def call_method_def caller_defs stmt_fn_def fun_eq_iff)

lemma tick_waiting:
  "t \<noteq> 0 \<Longrightarrow> client_handler (waiting g v up t (Suc d)) = waiting g v up (t - 1) d"
  by (simp add: client_handler_def waiting_def step_timer_handler_def step_timeout_def new_future_impl_def word_gt_0 lib_defs)

lemma tick_expired: "timed_out (client_handler (waiting g v up 0 (Suc d)))"
  by (simp add: client_handler_def waiting_def step_timer_handler_def step_timeout_def new_future_impl_def
      complete_all_def set_result_def put_future_def log_effects_def is_ready_def timed_out_def lib_defs)

lemmas handler_defs =
  client_handler_def server_threads_def server_accepts_def server_takes_def on_accept_def stream_on_read_def
  set_pac_def stream_on_message_def server_vt_def put_sock_def sock_on_request_def server_on_request_def
  dispatch_new_def myecho_dispatch_def myecho_try_def myecho_add_def myecho_echo_def myecho_echo_huge_def
  myecho_err_def request_call_def request_send_data_def is_sent_def get_msgid_def server_ms_send_def
  server_sock_write_def new_request_impl_def new_msg_response_def of_error_type_def client_on_response_def
  on_response_def session_alive_def use_count_def reqtable_take_def set_result_def put_future_def log_effects_def
  is_ready_def complete_all_def step_timer_handler_def step_timeout_def protocol_consts

lemma replies:
  assumes "0 < k"
  shows "holds_reply (Opaque (Num (a + b))) NIL
      (client_handler (waiting g (listening_server k d) (echo_request ''add'' [Opaque (Num a), Opaque (Num b)]) t 0))"
    and "holds_reply NIL (of_error_type NO_METHOD_ERROR)
      (client_handler (waiting g (listening_server k d) (echo_request ''sub'' p) t 0))"
    and "holds_reply NIL (Opaque (Str ''always fail''))
      (client_handler (waiting g (listening_server k d) (echo_request ''err'' []) t 0))"
  using assms
  by (simp_all add: handler_defs waiting_def listening_server_def bench_simps sample_conversions_def holds_reply_def)

lemma served_timeout:
  assumes "0 < k"
  shows "\<exists>v'. server_threads (waiting g (listening_server k d) (echo_request ''timeout'' []) t 0) =
      waiting g v' [] t 0 \<and> sh_open (v_socks v' ! 0)"
  using assms
  by (simp add: handler_defs waiting_def listening_server_def bench_simps sample_conversions_def)

lemma handler_served:
  "sh_open (v_socks v ! 0) \<Longrightarrow> server_threads (waiting g v [] t 0) = waiting g v [] t 0"
  by (simp add: server_threads_def server_takes_def server_accepts_def waiting_def)

lemma waiting_simps [simp]:
  "\<not> ready (waiting g v up t d) 0" "f_timeout (fut (waiting g v up t d) 0) = t"
  "f_loop (fut (waiting g v up t d) 0) = 0" "h_loops (waiting g v up t d) = [g_loop g]" "h_log (waiting g v up t d) = []"
  by (simp_all add: waiting_def new_future_impl_def is_ready_def)

lemma unat_pred:
  assumes "Suc n \<le> unat (t :: uint)"
  shows "t \<noteq> 0" "Suc (unat (t - 1)) = unat t"
proof -
  show "t \<noteq> 0" using assms by auto
  then show "Suc (unat (t - 1)) = unat t" using assms by (simp add: unat_minus_one)
qed

lemma recv_handler:
  "recv (pf_blocking net_platform) 0 (waiting g v up t d) =
     recv (pf_blocking net_platform) 0 (client_handler (waiting g v up t d))"
  by (subst recv.simps) (simp add: platform_simps)

lemma recv_delayed:
  "n \<le> unat t \<Longrightarrow> recv (pf_blocking net_platform) 0 (waiting g v up t (n + d)) =
     recv (pf_blocking net_platform) 0 (waiting g v up (t - of_nat n) d)"
proof (induction n arbitrary: t)
  case (Suc n)
  then have t: "t \<noteq> 0" "n \<le> unat (t - 1)" using unat_pred[of n t] by simp_all
  then show ?case using Suc.IH[OF t(2)] by (subst recv_handler) (simp add: tick_waiting diff_diff_eq)
qed simp

text \<open>A server that is late beyond the timeout.\<close>

lemma recv_late:
  assumes "unat t < d"
  shows "\<exists>w'. recv (pf_blocking net_platform) 0 (waiting g v up t d) = Some w' \<and> timed_out w'"
proof -
  obtain e where d: "d = unat t + Suc e" using assms less_imp_Suc_add by fastforce
  have "recv (pf_blocking net_platform) 0 (waiting g v up t d) = recv (pf_blocking net_platform) 0 (waiting g v up 0 (Suc e))"
    unfolding d by (subst recv_delayed) simp_all
  also have "\<dots> = Some (client_handler (waiting g v up 0 (Suc e)))"
    using tick_expired[of g v up e] by (subst recv_handler) (simp add: recv_ready timed_out_def)
  finally show ?thesis using tick_expired[of g v up e] by blast
qed

lemma silent_threads:
  assumes "silent v up"
  shows "\<exists>v'. server_threads (waiting g v up t 0) = waiting g v' [] t 0 \<and> silent v' []"
  using assms handler_served served_timeout unfolding silent_def by metis

lemma tick_no_delay:
  "server_threads (waiting g v up t 0) = waiting g v' [] t 0 \<Longrightarrow>
   client_handler (waiting g v up t 0) = client_handler (waiting g v' [] t 1)"
  by (simp add: client_handler_def, simp add: waiting_def)

lemma silent_handler:
  assumes "silent v up"
  shows "t \<noteq> 0 \<Longrightarrow> \<exists>v' up' d'. client_handler (waiting g v up t d) = waiting g v' up' (t - 1) d' \<and> silent v' up'"
    and "t = 0 \<Longrightarrow> timed_out (client_handler (waiting g v up t d))"
proof -
  obtain v' up' d' where c: "client_handler (waiting g v up t d) = client_handler (waiting g v' up' t (Suc d'))" "silent v' up'"
  proof (cases d)
    case 0
    obtain v' where v': "server_threads (waiting g v up t 0) = waiting g v' [] t 0" "silent v' []"
      using silent_threads[OF assms] by metis
    show thesis by (rule that[of v' "[]" 0]) (use tick_no_delay[OF v'(1)] v'(2) 0 in simp_all)
  qed (use assms that in simp)
  show "\<exists>v' up' d'. client_handler (waiting g v up t d) = waiting g v' up' (t - 1) d' \<and> silent v' up'" if "t \<noteq> 0"
    using c tick_waiting[OF that] by metis
  show "timed_out (client_handler (waiting g v up t d))" if "t = 0"
    using tick_expired c(1) that by simp
qed

lemma recv_silent:
  "silent v up \<Longrightarrow> \<exists>w'. recv (pf_blocking net_platform) 0 (waiting g v up t d) = Some w' \<and> timed_out w'"
proof (induction "unat t" arbitrary: t v up d)
  case 0
  have "t = 0" using 0(1) by (simp add: unsigned_eq_0_iff)
  then have "timed_out (client_handler (waiting g v up t d))" using silent_handler(2)[OF 0(2)] by blast
  then show ?case by (subst recv_handler) (auto simp: recv_ready timed_out_def)
next
  case (Suc n)
  then have t: "t \<noteq> 0" "n = unat (t - 1)" using unat_pred[of n t] by simp_all
  from silent_handler(1)[OF Suc.prems t(1)] obtain v' up' d' where
    "client_handler (waiting g v up t d) = waiting g v' up' (t - 1) d'" "silent v' up'" by blast
  with Suc.hyps(1)[OF t(2) this(2)] show ?case by (subst recv_handler) simp
qed

lemma wait_silent:
  "silent v up \<Longrightarrow> n \<le> unat t \<Longrightarrow> \<exists>v' up' d'. wait_seconds n (waiting g v up t d) = (False, waiting g v' up' (t - of_nat n) d')"
proof (induction n arbitrary: t v up d)
  case (Suc n)
  then have t: "t \<noteq> 0" "n \<le> unat (t - 1)" using unat_pred[of n t] by simp_all
  from silent_handler(1)[OF Suc.prems(1) t(1)] obtain v' up' d' where
    "client_handler (waiting g v up t d) = waiting g v' up' (t - 1) d'" "silent v' up'" by blast
  with Suc.IH[OF this(2) t(2)] show ?case by (simp add: diff_diff_eq)
qed auto

lemma get_received:
  assumes "recv (pf_blocking net_platform) 0 (waiting (client_setting T) v up t d) = Some w'" "ready w' 0"
  shows "get_int net_platform \<lparr>fu_method = m, fu_pimpl = Some 0\<rparr> (waiting (client_setting T) v up t d) =
    Some (case outcome (\<lambda>_. []) 0 (fut w' 0) of
        Inl e \<Rightarrow> Inl e | Inr ob \<Rightarrow> (case pf_as_int net_platform ob of None \<Rightarrow> Inl type_error | Some v \<Rightarrow> Inr v), w')"
  using assms
  by (simp add: get_int_def future_get_def get_impl_def join_def is_running_def client_setting_def outcome_def platform_simps)

lemma timed_out_outcome: "timed_out w \<Longrightarrow> outcome sh 0 (fut w 0) = Inl new_timeout_error"
  by (simp add: timed_out_def outcome_timeout)

text \<open>What \<open>get\<close> gives if the server is late by \<open>d\<close> seconds.\<close>

lemma get_timed_out:
  assumes "\<exists>w'. recv (pf_blocking net_platform) 0 (waiting (client_setting T) v up t d) = Some w' \<and> timed_out w'"
  shows "\<exists>w'. get_int net_platform \<lparr>fu_method = m, fu_pimpl = Some 0\<rparr> (waiting (client_setting T) v up t d) =
    Some (Inl (timeout_error ''request timed out''), w')"
proof -
  obtain w' where w': "recv (pf_blocking net_platform) 0 (waiting (client_setting T) v up t d) = Some w'" "timed_out w'"
    using assms by blast
  then have "ready w' 0" by (simp add: timed_out_def)
  from get_received[OF w'(1) this, of m] show ?thesis by (simp add: timed_out_outcome[OF w'(2)] exn_consts)
qed

lemma get_in_time:
  assumes "d \<le> unat t" "\<And>t. holds_reply r e (client_handler (waiting (client_setting T) v up t 0))"
  shows "\<exists>w'. get_int net_platform \<lparr>fu_method = m, fu_pimpl = Some 0\<rparr> (waiting (client_setting T) v up t d) =
    Some (if e = NIL then (case pf_as_int net_platform r of None \<Rightarrow> Inl type_error | Some v \<Rightarrow> Inr v)
          else Inl (throw_exception (\<lambda>_. []) 0 ((new_future_impl 0 0 0 0)\<lparr>f_error := e\<rparr>)), w')"
proof -
  let ?w' = "client_handler (waiting (client_setting T) v up (t - of_nat d) 0)"
  have w': "ready ?w' 0" "f_result (fut ?w' 0) = r" "f_error (fut ?w' 0) = e"
    using assms(2) by (simp_all add: holds_reply_def)
  have "recv (pf_blocking net_platform) 0 (waiting (client_setting T) v up t d) =
      recv (pf_blocking net_platform) 0 (waiting (client_setting T) v up (t - of_nat d) 0)"
    using recv_delayed[OF assms(1), of _ v up 0] by simp
  also have "\<dots> = Some ?w'" using w'(1) by (subst recv_handler) (simp add: recv_ready)
  finally show ?thesis
    using get_received[of T v up t d ?w' m] w' by (auto simp: outcome_def throw_exception_def)
qed

text \<open>The tests of a client: what is reported depends on what \<open>get\<close> gives.\<close>

lemma client_body:
  assumes "\<exists>w'. get_int net_platform \<lparr>fu_method = m, fu_pimpl = Some 0\<rparr>
      (waiting (client_setting T) v (echo_request m p) T d) = Some (r, w')"
  shows "\<exists>w'. stmt_bind (call_method net_platform 0 m p) (\<lambda>fu. stmt_bind (get_int net_platform fu) (\<lambda>x. stmt_return (vs x)))
      (connecting v T d) = Some (map_sum id vs r, w')"
proof -
  obtain w' where "get_int net_platform \<lparr>fu_method = m, fu_pimpl = Some 0\<rparr>
      (waiting (client_setting T) v (echo_request m p) T d) = Some (r, w')" using assms by blast
  then show ?thesis by (cases r) (simp_all add: stmt_bind_def client_calls stmt_return_def)
qed

lemma unit_bind: "stmt_bind (stmt_total (\<lambda>w. ((), h w))) k w = k () (h w)"
  by (simp add: stmt_bind_def stmt_total_def)

lemma client_test:
  assumes "\<exists>w'. get_int net_platform \<lparr>fu_method = m, fu_pimpl = Some 0\<rparr>
      (waiting (client_setting 30) (listening_server k d) (echo_request m p) 30 d) = Some (r, w')" "0 < k"
  shows "map_option fst (try_catch clauses (stmt_local make_server D (\<lambda>_. stmt_bind (serve_echo net_platform) (\<lambda>_.
      stmt_bind (start_server k) (\<lambda>_. stmt_local (make_client net_platform ''127.0.0.1'' PORT) E (\<lambda>cli.
      stmt_bind (call_method net_platform cli m p) (\<lambda>fu. stmt_bind (get_int net_platform fu) (\<lambda>x. stmt_return (vs x)))))))) (fresh_process d)) =
    Some (reported clauses vs r)"
proof -
  obtain w' where "stmt_bind (call_method net_platform 0 m p) (\<lambda>fu. stmt_bind (get_int net_platform fu) (\<lambda>x. stmt_return (vs x)))
      (connecting (listening_server k d) 30 d) = Some (map_sum id vs r, w')" using client_body[OF assms(1)] by blast
  then show ?thesis by (cases r) (simp_all add: try_catch_def client_ready[OF assms(2)] reported_def)
qed

lemma client_test_timeout:
  assumes "\<exists>w'. get_int net_platform \<lparr>fu_method = m, fu_pimpl = Some 0\<rparr>
      (waiting (client_setting T) (listening_server k d) (echo_request m p) T d) = Some (r, w')" "0 < k"
  shows "map_option fst (try_catch clauses (stmt_local make_server D (\<lambda>_. stmt_bind (serve_echo net_platform) (\<lambda>_.
      stmt_bind (start_server k) (\<lambda>_. stmt_local (make_client net_platform ''127.0.0.1'' PORT) E (\<lambda>cli.
      stmt_bind (stmt_total (\<lambda>w. ((), session_set_timeout cli T w))) (\<lambda>_.
      stmt_bind (call_method net_platform cli m p) (\<lambda>fu. stmt_bind (get_int net_platform fu) (\<lambda>x. stmt_return (vs x))))))))) (fresh_process d)) =
    Some (reported clauses vs r)"
proof -
  obtain w' where "stmt_bind (call_method net_platform 0 m p) (\<lambda>fu. stmt_bind (get_int net_platform fu) (\<lambda>x. stmt_return (vs x)))
      (connecting (listening_server k d) T d) = Some (map_sum id vs r, w')" using client_body[OF assms(1)] by blast
  then show ?thesis
    by (cases r) (simp_all add: try_catch_def client_ready[OF assms(2)] reported_def unit_bind session_set_timeout_connecting)
qed

lemmas late = client_test[OF get_timed_out[OF recv_late]]
lemmas in_time = client_test[OF get_in_time]

lemma unittest_add:
  "map_option fst (test_Add net_platform (fresh_process d)) =
     Some [if d \<le> 30 then EXPECT_EQ True else ADD_FAILURE ''Uncaught exception'']"
proof (cases "d \<le> 30")
  case True
  have "map_option fst (test_Add net_platform (fresh_process d)) = Some [EXPECT_EQ ((-12) + 13 = (1 :: 32 word))]"
    unfolding test_Add_def Let_def platform_simps
    by (subst in_time[OF _ replies(1)]) (use True in \<open>simp_all add: net_platform_def reported_def\<close>)
  then show ?thesis using True by simp
next
  case False
  show ?thesis unfolding test_Add_def Let_def
    by (subst late) (use False in \<open>simp_all add: reported_def\<close>)
qed

lemma unittest_no_method:
  "map_option fst (test_NoMethodError net_platform (fresh_process d)) =
     Some [if d \<le> 30 then SUCCEED else FAIL ''Uncaught exception'']"
proof (cases "d \<le> 30")
  case True
  show ?thesis unfolding test_NoMethodError_def
    by (subst in_time[OF _ replies(2)])
       (use True in \<open>simp_all add: reported_def of_error_type_def throw_exception_def protocol_consts exn_consts\<close>)
next
  case False
  show ?thesis unfolding test_NoMethodError_def
    by (subst late) (use False in \<open>simp_all add: reported_def\<close>)
qed

lemma unittest_err: "map_option fst (test_Err net_platform (fresh_process d)) = Some [SUCCEED]"
proof (cases "d \<le> 30")
  case True
  show ?thesis unfolding test_Err_def call_method0_eq
    by (subst in_time[OF _ replies(3)]) (use True in \<open>simp_all add: reported_def throw_exception_def\<close>)
next
  case False
  show ?thesis unfolding test_Err_def call_method0_eq
    by (subst late) (use False in \<open>simp_all add: reported_def\<close>)
qed

lemma unittest_timeout_client: "map_option fst (test_TimeoutErrorClient net_platform (fresh_process d)) = Some [SUCCEED]"
proof -
  have "silent (listening_server 1 d) (echo_request ''timeout'' [])" by (auto simp: silent_def)
  note get = client_test_timeout[OF get_timed_out[OF recv_silent[OF this]]]
  show ?thesis unfolding test_TimeoutErrorClient_def call_method0_eq
    by (subst get) (simp_all add: reported_def)
qed

lemma unittest_notify: "map_option fst (test_Notify net_platform (fresh_process d)) = Some []"
  by (simp add: test_Notify_def try_catch_def fresh_process_def bench_simps send_notify_def send_notify_impl_def
      new_msg_notify_def)

lemma unittest_incorrect_port: "map_option fst (test_IncorrectPort net_platform (fresh_process d)) = Some [SUCCEED]"
  by (simp add: test_IncorrectPort_def fresh_process_def bench_simps ECONNREFUSED_def ETIMEDOUT_def connect_give_up_def
      tcp_close_socket_def on_connect_failed_def complete_all_def set_result_def put_future_def log_effects_def
      exn_consts)

lemma pool_ready:
  "stmt_local make_server D (\<lambda>_. stmt_bind (serve_echo net_platform) (\<lambda>_. stmt_bind (start_server 1) (\<lambda>_.
     stmt_local (make_pool net_platform) E (\<lambda>_. stmt_bind (stmt_proc (pool_start 1)) (\<lambda>_.
     stmt_local (stmt_fn (pool_get_session_host (pf_is_v4 net_platform) (pf_resolver net_platform) ''127.0.0.1'' PORT)) F (\<lambda>s.
     stmt_bind (stmt_total (\<lambda>w. ((), session_set_timeout s 3 w))) (\<lambda>_.
     stmt_bind (call_method0 net_platform s ''timeout'') body)))))))
     (fresh_process d) =
   map_option (apsnd (D ())) (map_option (apsnd (E ())) (map_option (apsnd (F 0))
     (body \<lparr>fu_method = ''timeout'', fu_pimpl = Some 0\<rparr>
        (waiting pool_setting (listening_server 1 d) (echo_request ''timeout'' []) 3 d))))"
  by (simp add: waiting_def pool_setting_def listening_server_def fresh_process_def bench_simps pool_arm_step_timer_def
      pool_start_def pool_loop_try_def pool_get_session_host_def get_session_def session_copy_def
      SESSION_POOL_TIME_LIMIT_def session_set_timeout_def)

lemma get_pool:
  assumes "silent v up"
  shows "\<exists>w'. get_int net_platform \<lparr>fu_method = m, fu_pimpl = Some 0\<rparr> (waiting pool_setting v up 3 d) =
    Some (Inl (timeout_error ''request timed out''), w')"
proof -
  obtain v' up' d' where w: "wait_seconds 3 (waiting pool_setting v up 3 d) = (False, waiting pool_setting v' up' 0 d')"
    using wait_silent[OF assms, of 3 3 pool_setting d] by auto
  have "timed_wait (pf_blocking net_platform) 0 3000 (waiting pool_setting v up 3 d) =
      Some (False, set_result 0 NIL TIMEOUT_ERROR None (waiting pool_setting v' up' 0 d'))"
    by (subst timed_wait.simps) (simp add: platform_simps w)
  moreover have "f_error (fut (set_result 0 NIL TIMEOUT_ERROR None (waiting pool_setting v' up' 0 d')) 0) = TIMEOUT_ERROR"
    by (simp add: fut_set_result waiting_def)
  ultimately show ?thesis
    by (simp add: get_int_def future_get_def get_impl_def join_def is_running_def pool_setting_def platform_simps exn_consts)
qed

lemma unittest_timeout_session: "map_option fst (test_TimeoutErrorSession net_platform (fresh_process d)) = Some [SUCCEED]"
proof -
  have "silent (listening_server 1 d) (echo_request ''timeout'' [])" by (auto simp: silent_def)
  from get_pool[OF this, of "''timeout''" d] obtain w' where
    "get_int net_platform \<lparr>fu_method = ''timeout'', fu_pimpl = Some 0\<rparr>
       (waiting pool_setting (listening_server 1 d) (echo_request ''timeout'' []) 3 d) =
     Some (Inl (timeout_error ''request timed out''), w')" by blast
  then show ?thesis unfolding test_TimeoutErrorSession_def try_catch_def by (subst pool_ready) (simp add: stmt_bind_def)
qed

section \<open>The verdicts on this platform\<close>

text \<open>
  The verdicts of all seven unit tests on \<open>net_platform\<close>, an example of a network and of the schedule of the
  threads, for a server that is late by any number of seconds. If the
  server answers within the timeout of 30 seconds every test passes, and \<open>IncorrectPort\<close>,
  \<open>TimeoutErrorSession\<close>, \<open>TimeoutErrorClient\<close> and \<open>Notify\<close> pass at any delay; every test ends. A later
  server fails \<open>Add\<close> and \<open>NoMethodError\<close> with the timeout of the call, while \<open>Err\<close> passes even then,
  since it accepts any exception.
\<close>

lemma unittest_verdicts:
  "map (\<lambda>t. map_option fst (t net_platform (fresh_process d)))
     [test_Add, test_IncorrectPort, test_NoMethodError, test_TimeoutErrorSession, test_TimeoutErrorClient, test_Err, test_Notify] =
   [Some [if d \<le> 30 then EXPECT_EQ True else ADD_FAILURE ''Uncaught exception''],
    Some [SUCCEED],
    Some [if d \<le> 30 then SUCCEED else FAIL ''Uncaught exception''],
    Some [SUCCEED], Some [SUCCEED], Some [SUCCEED], Some []]"
  by (simp only: list.map unittest_add unittest_incorrect_port unittest_no_method unittest_timeout_session
      unittest_timeout_client unittest_err unittest_notify)

end
