(* ===== verification/RPC_Unreachable.thy ===== *)
theory RPC_Unreachable
  imports RPC_Unittest
begin

text \<open>
  The unit tests on any platform on which no connection can be made: whatever the resolver, the
  network, the codec and the threads of the platform do otherwise, each test ends with the same
  verdict. A test of a server that cannot be reached should fail, and \<open>IncorrectPort\<close>, which expects
  the connection error, should pass.
\<close>

section \<open>Calls that cannot connect\<close>

text \<open>A network that makes no connection, and a loop that has nothing ready when it is polled.\<close>

definition unreachable :: "('ip, 'b, 'n) asio \<Rightarrow> bool" where
  "unreachable a \<longleftrightarrow> (\<forall>s ad n. fst (sock_connect a s ad n) \<noteq> 0) \<and> (\<forall>n. fst (io_poll a n) = [])"

lemma flush_quiet:
  assumes "unreachable a"
  shows "\<exists>w1. flush_if_idle a d s w = (None, w1) \<and> w_sessions w1 = w_sessions w"
  using assms by (auto simp: flush_if_idle_def unreachable_def on_loop_def split_beta)

lemma try_connect_unreachable:
  assumes "unreachable a" "s < length (w_sessions w)" "try_connect a d s limit c w = (e, w')"
  shows "e = None \<and> \<not> sh_open (tc_conn (tcp w' s))"
  using assms
proof (induction a d s limit c w arbitrary: e w' rule: try_connect.induct)
  case (1 a d s limit c w)
  from flush_quiet[OF 1(2)] obtain w1 where fl: "flush_if_idle a d s w = (None, w1)" and len: "s < length (w_sessions w1)"
    using 1(3) by metis
  define w2 where "w2 = put_tcp s ((tcp w1 s)\<lparr>tc_connecting := c + 1\<rparr>) w1"
  obtain ec op n where co: "sock_connect a s (s_addr (ses w2 s)) (w_net w2) = (ec, op, n)"
    by (cases "sock_connect a s (s_addr (ses w2 s)) (w_net w2)")
  define w3 where "w3 = tcp_put_conn s ((tc_conn (tcp w2 s))\<lparr>sh_open := op\<rparr>) (w2\<lparr>w_net := n\<rparr>)"
  have ec: "ec \<noteq> 0" using 1(2) co unfolding unreachable_def by (metis fst_conv)
  have len3: "s < length (w_sessions w3)" using len by (simp add: w3_def w2_def)
  note step = try_connect_step[OF fl w2_def co w3_def, of limit]
  show ?case
  proof (cases "ec \<noteq> ETIMEDOUT \<and> c + 1 < limit")
    case True
    with 1(4) step ec have "try_connect a d s limit (c + 1) w3 = (e, w')" by simp
    with 1(1)[OF fl[symmetric] refl w2_def refl co[symmetric] refl w3_def ec True 1(2) len3] show ?thesis by blast
  next
    case False
    with 1(4) step ec have "e = None" "w' = connect_give_up s w3" by auto
    with give_up_simps(1)[OF len3] show ?thesis by simp
  qed
qed

lemma send_unreachable:
  assumes "unreachable a" "s < length (w_sessions w)" "\<not> sh_open (tc_conn (tcp w s))"
  shows "fst (tcp_send_data a d s buf w) = Some new_connect_error"
proof -
  from flush_quiet[OF assms(1)] obtain w1 where fl: "flush_if_idle a d s w = (None, w1)" "w_sessions w1 = w_sessions w" by blast
  then have w1: "s < length (w_sessions w1)" "\<not> sh_open (tc_conn (tcp w1 s))" using assms(2,3) by (simp_all add: tcp_def)
  define w2 where "w2 = put_tcp s ((tcp w1 s)\<lparr>tc_timer_secs := trunc_rat (tc_connect_timeout (tcp w1 s)),
      tc_timer := True, tc_connecting := 0\<rparr>) w1"
  obtain e w3 where t: "try_connect a d s (tc_reconnect_limit (tcp w2 s)) 0 w2 = (e, w3)"
    by (cases "try_connect a d s (tc_reconnect_limit (tcp w2 s)) 0 w2")
  have "s < length (w_sessions w2)" using w1(1) by (simp add: w2_def)
  from try_connect_unreachable[OF assms(1) this t] t fl(1) w1(2) show ?thesis
    by (simp add: tcp_send_data_def tcp_connect_def Let_def flip: w2_def)
qed

lemma call_unreachable:
  assumes "unreachable a" "s < length (w_sessions w)" "\<not> sh_open (tc_conn (tcp w s))"
  shows "fst (send_request pk (tcp_send_data a d) s m p z w) = Inl new_connect_error"
    "fst (send_notify pk (tcp_send_data a d) s m p z w) = Some new_connect_error"
proof -
  have "s < length (w_sessions (registered s w))" "\<not> sh_open (tc_conn (tcp (registered s w) s))"
    using assms(2,3) by (simp_all add: registered_simps)
  note r = send_unreachable[OF assms(1) this, of d "request_buf pk m p z (s_msgid_rr (ses w s))"]
  then show "fst (send_request pk (tcp_send_data a d) s m p z w) = Inl new_connect_error"
    by (cases "tcp_send_data a d s (request_buf pk m p z (s_msgid_rr (ses w s))) (registered s w)") (simp add: send_request_eq)
  show "fst (send_notify pk (tcp_send_data a d) s m p z w) = Some new_connect_error"
    using send_unreachable[OF assms] by (simp add: send_notify_def send_notify_impl_def Let_def)
qed

section \<open>What a block returns or throws\<close>

definition ends :: "('a, 'w) stmt \<Rightarrow> 'w \<Rightarrow> (exn + 'a) option" where
  "ends m w = map_option fst (m w)"

lemma try_catch_ends: "map_option fst (try_catch clauses m w) = map_option (reported clauses id) (ends m w)"
  by (cases "m w") (auto simp: try_catch_def ends_def reported_def split: sum.split)

lemma ends_local: "m w = Some (Inr x, w1) \<Longrightarrow> ends (stmt_local m destroy k) w = ends (k x) w1"
  by (simp add: ends_def stmt_local_def stmt_bind_def option.map_comp comp_def)

lemma ends_bind: "m w = Some (Inr x, w1) \<Longrightarrow> ends (stmt_bind m k) w = ends (k x) w1"
  by (simp add: ends_def stmt_bind_def)

lemma ends_throws: "ends m w = Some (Inl e) \<Longrightarrow> ends (stmt_bind m k) w = Some (Inl e)"
  by (auto simp: ends_def stmt_bind_def)

section \<open>The tests\<close>

text \<open>What is assumed of the platform: addresses are resolved, listening works, connecting does not.\<close>

definition cut_off :: "('x, 'ip, 'b, 'u, 'n) platform \<Rightarrow> bool" where
  "cut_off P \<longleftrightarrow> unreachable (pf_asio P) \<and>
     (\<forall>(host, port) \<in> {(''0.0.0.0'', PORT), (''127.0.0.1'', PORT), (''127.0.0.1'', 16296)}.
        \<exists>ad. address_host_port (pf_is_v4 P) (pf_resolver P) host port = Inr ad) \<and>
     (\<forall>ad n. \<exists>lep n'. sock_listen (pf_server_asio P) ad n = (Inr lep, n'))"

definition not_connected :: "sid \<Rightarrow> ('x, 'ip, 'u, 'n) testbed \<Rightarrow> bool" where
  "not_connected s w \<longleftrightarrow> s < length (w_sessions w) \<and> \<not> sh_open (tc_conn (tcp w s))"

lemma server_returns:
  assumes "cut_off P"
  shows "\<exists>w1 w2. make_server w = Some (Inr (), w1) \<and> serve_echo P w1 = Some (Inr (), w2) \<and> \<not> is_running (v_loop (tb_server w2))"
proof -
  obtain la where la: "address_host_port (pf_is_v4 P) (pf_resolver P) ''0.0.0.0'' PORT = Inr la"
    using assms by (auto simp: cut_off_def)
  obtain lep n' where "sock_listen (pf_server_asio P) la (w_net w) = (Inr lep, n')" using assms unfolding cut_off_def by metis
  then show ?thesis
    by (simp add: la make_server_def stmt_total_def serve_echo_def stmt_bind_def stmt_proc_def on_server_def serve_def
        server_listen_host_def server_listen_defs new_server_def start_accept_def Let_def is_running_def new_loop_def)
qed

lemma start_returns:
  "\<not> is_running (v_loop (tb_server w)) \<Longrightarrow> \<exists>w1. start_server k w = Some (Inr (), w1)"
  by (simp add: start_server_def stmt_proc_def on_server_def server_start_def server_loop_try_def loop_start_def Let_def)

lemma client_returns:
  assumes "cut_off P" "port \<in> {PORT, 16296}"
  shows "\<exists>s w1. make_client P ''127.0.0.1'' port w = Some (Inr s, w1) \<and> not_connected s w1"
proof -
  obtain ad where "address_host_port (pf_is_v4 P) (pf_resolver P) ''127.0.0.1'' port = Inr ad"
    using assms by (auto simp: cut_off_def)
  then show ?thesis
    by (simp add: make_client_def stmt_bind_def stmt_total_def stmt_fn_def default_loop_def client_host_port_def session_create_def
        session_build_def arm_step_timer_def put_session_def tcp_build_def new_tcp_client_def new_session_impl_def
        new_stream_handler_def not_connected_def tcp_def Let_def)
qed

lemma pool_returns:
  assumes "cut_off P"
  shows "\<exists>w1 w2 s w3. make_pool P w = Some (Inr (), w1) \<and> stmt_proc (pool_start 1) w1 = Some (Inr (), w2) \<and>
    stmt_fn (pool_get_session_host (pf_is_v4 P) (pf_resolver P) ''127.0.0.1'' PORT) w2 = Some (Inr s, w3) \<and> not_connected s w3"
proof -
  obtain ad where "address_host_port (pf_is_v4 P) (pf_resolver P) ''127.0.0.1'' PORT = Inr ad"
    using assms by (auto simp: cut_off_def)
  then show ?thesis
    by (simp add: make_pool_def stmt_bind_def stmt_total_def stmt_fn_def stmt_proc_def default_loop_def pool_arm_step_timer_def
        pool_start_def pool_loop_try_def loop_start_def is_running_def new_loop_def on_loop_def pool_get_session_host_def
        get_session_def session_create_def session_build_def arm_step_timer_def put_session_def tcp_build_def
        new_tcp_client_def new_session_impl_def session_copy_def new_stream_handler_def not_connected_def tcp_def Let_def)
qed

lemma set_timeout_returns:
  "not_connected s w \<Longrightarrow> \<exists>w1. stmt_total (\<lambda>w. ((), session_set_timeout s sec w)) w = Some (Inr (), w1) \<and> not_connected s w1"
  by (simp add: stmt_total_def session_set_timeout_def not_connected_def tcp_def ses_put_session)

lemma calls_throw:
  assumes "cut_off P" "not_connected s w"
  shows "ends (call_method P s m p) w = Some (Inl new_connect_error)" "ends (call_method0 P s m) w = Some (Inl new_connect_error)"
    "ends (notify_method0 P s m) w = Some (Inl new_connect_error)"
  using assms call_unreachable[of "pf_asio P" s w]
  by (simp_all add: ends_def cut_off_def not_connected_def call_method_def call_method0_def notify_method0_def stmt_fn_def
      stmt_proc_def call_plain_def call0_def notify0_def split_beta Let_def)

text \<open>The blocks of the tests up to the call.\<close>

lemma server_block:
  assumes "cut_off P"
  shows "\<exists>w1. \<not> is_running (v_loop (tb_server w1)) \<and>
    (\<forall>D k. ends (stmt_local make_server D (\<lambda>_. stmt_bind (serve_echo P) k)) w = ends (k ()) w1)"
  using server_returns[OF assms, of w] ends_local[of make_server w] ends_bind[of "serve_echo P"] by metis

lemma client_block:
  assumes "cut_off P"
  shows "\<exists>s w1. not_connected s w1 \<and>
    (\<forall>D E body. ends (stmt_local make_server D (\<lambda>_. stmt_bind (serve_echo P) (\<lambda>_. stmt_bind (start_server k) (\<lambda>_.
       stmt_local (make_client P ''127.0.0.1'' PORT) E body)))) w = ends (body s :: (verdict list, _) stmt) w1)"
proof -
  obtain w1 where w1: "\<not> is_running (v_loop (tb_server w1))"
    "\<And>D k. ends (stmt_local make_server D (\<lambda>_. stmt_bind (serve_echo P) k)) w = ends (k () :: (verdict list, _) stmt) w1"
    using server_block[OF assms] by blast
  obtain w2 where w2: "start_server k w1 = Some (Inr (), w2)" using start_returns[OF w1(1)] by blast
  obtain s w3 where w3: "make_client P ''127.0.0.1'' PORT w2 = Some (Inr s, w3)" "not_connected s w3"
    using client_returns[OF assms, of PORT w2] by auto
  show ?thesis by (intro exI[of _ s] exI[of _ w3]) (simp add: w1(2) ends_bind[where m = "start_server k", OF w2] ends_local[where m = "make_client P ''127.0.0.1'' PORT", OF w3(1)] w3(2))
qed

lemma pool_block:
  assumes "cut_off P"
  shows "\<exists>s w1. not_connected s w1 \<and>
    (\<forall>D E F body. ends (stmt_local make_server D (\<lambda>_. stmt_bind (serve_echo P) (\<lambda>_. stmt_bind (start_server k) (\<lambda>_.
       stmt_local (make_pool P) E (\<lambda>_. stmt_bind (stmt_proc (pool_start 1)) (\<lambda>_.
       stmt_local (stmt_fn (pool_get_session_host (pf_is_v4 P) (pf_resolver P) ''127.0.0.1'' PORT)) F body)))))) w = ends (body s :: (verdict list, _) stmt) w1)"
proof -
  obtain w1 where w1: "\<not> is_running (v_loop (tb_server w1))"
    "\<And>D k. ends (stmt_local make_server D (\<lambda>_. stmt_bind (serve_echo P) k)) w = ends (k () :: (verdict list, _) stmt) w1"
    using server_block[OF assms] by blast
  obtain w2 where w2: "start_server k w1 = Some (Inr (), w2)" using start_returns[OF w1(1)] by blast
  obtain w3 w4 s w5 where w: "make_pool P w2 = Some (Inr (), w3)" "stmt_proc (pool_start 1) w3 = Some (Inr (), w4)"
    "stmt_fn (pool_get_session_host (pf_is_v4 P) (pf_resolver P) ''127.0.0.1'' PORT) w4 = Some (Inr s, w5)" "not_connected s w5"
    using pool_returns[OF assms] by blast
  show ?thesis
    by (intro exI[of _ s] exI[of _ w5])
       (simp only: w1(2) ends_bind[where m = "start_server k", OF w2] ends_local[where m = "make_pool P", OF w(1)]
         ends_bind[where m = "stmt_proc (pool_start 1)", OF w(2)]
         ends_local[where m = "stmt_fn (pool_get_session_host (pf_is_v4 P) (pf_resolver P) ''127.0.0.1'' PORT)", OF w(3)] w(4) simp_thms)
qed

lemma set_timeout_block:
  assumes "not_connected s w"
  shows "\<exists>w1. not_connected s w1 \<and>
    (\<forall>k. ends (stmt_bind (stmt_total (\<lambda>w. ((), session_set_timeout s sec w))) k) w = ends (k ()) w1)"
  using set_timeout_returns[OF assms, of sec] ends_bind by metis

lemma unreachable_client_tests:
  assumes "cut_off P"
  shows "map_option fst (test_Add P w) = Some [ADD_FAILURE ''Uncaught exception'']"
    "map_option fst (test_NoMethodError P w) = Some [FAIL ''Uncaught exception'']"
    "map_option fst (test_Err P w) = Some [SUCCEED]"
    "map_option fst (test_Notify P w) = Some [FAIL ''Uncaught exception'']"
    "map_option fst (test_TimeoutErrorClient P w) = Some [FAIL ''Uncaught exception'']"
proof -
  note throws = ends_throws[OF calls_throw(1)[OF assms]] ends_throws[OF calls_throw(2)[OF assms]] ends_throws[OF calls_throw(3)[OF assms]]
  have block: "\<exists>s w1. not_connected s w1 \<and>
    (\<forall>D E body. ends (stmt_local make_server D (\<lambda>_. stmt_bind (serve_echo P) (\<lambda>_. stmt_bind (start_server k) (\<lambda>_.
       stmt_local (make_client P ''127.0.0.1'' PORT) E body)))) w = ends (body s :: (verdict list, _) stmt) w1)" for k
    by (rule client_block[OF assms])
  obtain s1 w1 where 1: "not_connected s1 w1" and b1: "\<And>D E body. ends (stmt_local make_server D (\<lambda>_. stmt_bind (serve_echo P)
      (\<lambda>_. stmt_bind (start_server 1) (\<lambda>_. stmt_local (make_client P ''127.0.0.1'' PORT) E body)))) w = ends (body s1 :: (verdict list, _) stmt) w1"
    using block[of 1] by blast
  obtain s5 w5 where 5: "not_connected s5 w5" and b5: "\<And>D E body. ends (stmt_local make_server D (\<lambda>_. stmt_bind (serve_echo P)
      (\<lambda>_. stmt_bind (start_server 5) (\<lambda>_. stmt_local (make_client P ''127.0.0.1'' PORT) E body)))) w = ends (body s5 :: (verdict list, _) stmt) w5"
    using block[of 5] by blast
  show "map_option fst (test_Add P w) = Some [ADD_FAILURE ''Uncaught exception'']"
    unfolding test_Add_def try_catch_ends b5 Let_def throws(1)[OF 5] by (simp add: reported_def exn_consts)
  show "map_option fst (test_NoMethodError P w) = Some [FAIL ''Uncaught exception'']"
    unfolding test_NoMethodError_def try_catch_ends b1 throws(1)[OF 1] by (simp add: reported_def exn_consts)
  show "map_option fst (test_Err P w) = Some [SUCCEED]"
    unfolding test_Err_def try_catch_ends b5 throws(2)[OF 5] by (simp add: reported_def exn_consts)
  show "map_option fst (test_Notify P w) = Some [FAIL ''Uncaught exception'']"
    unfolding test_Notify_def try_catch_ends b5 throws(3)[OF 5] by (simp add: reported_def exn_consts)
  obtain w2 where 2: "not_connected s1 w2" "\<And>k. ends (stmt_bind (stmt_total (\<lambda>w. ((), session_set_timeout s1 3 w))) k) w1 = ends (k ()  :: (verdict list, _) stmt) w2"
    using set_timeout_block[OF 1] by blast
  show "map_option fst (test_TimeoutErrorClient P w) = Some [FAIL ''Uncaught exception'']"
    unfolding test_TimeoutErrorClient_def try_catch_ends b1 2(2) throws(2)[OF 2(1)] by (simp add: reported_def exn_consts catch_std_def)
qed

lemma unreachable_port_test:
  assumes "cut_off P"
  shows "map_option fst (test_IncorrectPort P w) = Some [SUCCEED]"
proof -
  obtain w1 where w1: "\<And>D k. ends (stmt_local make_server D (\<lambda>_. stmt_bind (serve_echo P) k)) w = ends (k () :: (verdict list, _) stmt) w1"
    using server_block[OF assms] by blast
  obtain s w2 where w2: "make_client P ''127.0.0.1'' 16296 w1 = Some (Inr s, w2)" "not_connected s w2"
    using client_returns[OF assms, of 16296 w1] by auto
  show ?thesis
    unfolding test_IncorrectPort_def try_catch_ends w1 ends_local[where m = "make_client P ''127.0.0.1'' 16296", OF w2(1)] ends_throws[OF calls_throw(1)[OF assms w2(2)]]
    by (simp add: reported_def exn_consts)
qed

lemma unreachable_pool_test:
  assumes "cut_off P"
  shows "map_option fst (test_TimeoutErrorSession P w) = Some [FAIL ''Uncaught exception'']"
proof -
  obtain s w1 where 1: "not_connected s w1" and b: "\<And>D E F body. ends (stmt_local make_server D (\<lambda>_. stmt_bind (serve_echo P)
      (\<lambda>_. stmt_bind (start_server 1) (\<lambda>_. stmt_local (make_pool P) E (\<lambda>_. stmt_bind (stmt_proc (pool_start 1)) (\<lambda>_.
      stmt_local (stmt_fn (pool_get_session_host (pf_is_v4 P) (pf_resolver P) ''127.0.0.1'' PORT)) F body)))))) w =
      ends (body s :: (verdict list, _) stmt) w1"
    using pool_block[OF assms, of 1 w] by blast
  obtain w2 where 2: "not_connected s w2" "\<And>k. ends (stmt_bind (stmt_total (\<lambda>w. ((), session_set_timeout s 3 w))) k) w1 = ends (k () :: (verdict list, _) stmt) w2"
    using set_timeout_block[OF 1] by blast
  show ?thesis
    unfolding test_TimeoutErrorSession_def try_catch_ends b 2(2) ends_throws[OF calls_throw(2)[OF assms 2(1)]]
    by (simp add: reported_def exn_consts catch_std_def)
qed

section \<open>Properties\<close>

text \<open>The platform of \<open>RPC_Unittest\<close> with a network that refuses every connection.\<close>

definition refusing_platform :: "(msg_value, nat, wire, wire list, net) platform" where
  "refusing_platform = net_platform\<lparr>pf_asio :=
     \<lparr>sock_connect = (\<lambda>s ad n. (ECONNREFUSED, False, n)), sock_write = (\<lambda>s bs n. (Some 32, n)), io_poll = (\<lambda>n. ([], n))\<rparr>\<rparr>"

lemma refusing_cut_off: "cut_off refusing_platform"
  by (auto simp: cut_off_def unreachable_def refusing_platform_def net_platform_def net_server_asio_def ECONNREFUSED_def
      address_host_port_def resolve_def PORT_def decimal_ports)



end
