(* ===== verification/Spec2Isabelle.thy ===== *)
theory Spec2Isabelle
  imports RPC_Buffer RPC_Threads RPC_Udp_System RPC_Pool_Run RPC_Server_Run RPC_Reconnect RPC_Lifetime RPC_Unreachable
begin

text \<open>
  \<^bold>\<open>MessagePack-RPC over Boost.Asio.\<close>

  The library under \<^verbatim>\<open>src/src/msgpack/rpc\<close> lets a program call functions of another program. A
  \<^emph>\<open>session\<close> sends a request with a fresh message identifier over a \<^emph>\<open>transport\<close> (TCP or UDP) and
  enters a \<^emph>\<open>future\<close> in its \<^emph>\<open>request table\<close>. The event \<^emph>\<open>loop\<close> runs the handlers of the sockets and
  timers: a response that is read completes the future with its identifier, an error of the
  connection completes all of them, and a timer that ticks every second completes those whose time
  is over. The user waits for the future, polls it or attaches a callback. On the other side a
  \<^emph>\<open>server\<close> accepts connections, hands each request to the user's dispatcher and sends its first
  reply back. A \<^emph>\<open>session pool\<close> keeps one session per address.

  \<^bold>\<open>How the code is modelled.\<close> Objects behind shared pointers live in lists and are named by their
  index; a null pointer is \<open>None\<close>. The heap of futures and loops (\<open>heap\<close>) is extended by the sessions
  and the network (\<open>world\<close>), and this by the pool (\<open>pool\<close>); a server process has its own state
  (\<open>server\<close>, \<open>udp_process\<close>). Every member function is a function on these states; what it throws is
  the exception in its result. \<^verbatim>\<open>unsigned int\<close> and the message identifiers are 32-bit words, ports
  16-bit words. Handlers of the loop and calls of the user are taken as atomic, as the
  mutexes and strands of the code intend; for futures, \<open>RPC_Threads\<close> proves that they are. Calls of Boost.Asio, of the msgpack decoder and packer, of the resolver, of
  condition variables and of the user's program are parameters, the fields of the records \<open>asio\<close>,
  \<open>udp_asio\<close>, \<open>server_asio\<close>, \<open>decoder\<close>, \<open>packer\<close>, \<open>blocking\<close>, or function arguments; theorems that need
  something of them say so in their assumptions.

  \<^bold>\<open>The theories, from the bottom up.\<close>

  \<^item> \<open>RPC_Prelude\<close>: identities, machine types, msgpack objects, lemmas on lists and words.

  \<^item> \<open>RPC_Protocol\<close> (\<^verbatim>\<open>protocol.h, atomic_ops.h, exception.h\<close>): messages, the atomic counter, the
    exceptions. Identifiers are distinct for 2 ^ 32 requests in spite of the wrap-around.

  \<^item> \<open>RPC_Address\<close> (\<^verbatim>\<open>address.h, address.cc\<close>): construction, resolution, order and printing of
    addresses. The order is a strict linear order, and an instance of \<open>linorder\<close>; IPv4 addresses are
    printed and read back, IPv6 addresses are not.

  \<^item> \<open>RPC_Buffer\<close> (\<^verbatim>\<open>buffer.h, buffer.cc\<close>): buffers over an explicit memory; copies do not alias.

  \<^item> \<open>RPC_Loop\<close> (\<^verbatim>\<open>loop.h, loop.cc\<close>): the workers of a loop and the calls to \<^verbatim>\<open>io_service\<close>.

  \<^item> \<open>RPC_Future\<close> (\<^verbatim>\<open>future.h, future_impl.h, future.cc, exception.cc\<close>): completion, waiting,
    callbacks, \<open>get\<close>. The three waiting loops may run forever and are partial functions in the option
    monad; that \<open>get\<close> returns is proved, not assumed, from the number of handlers after which the
    future is complete. A callback is delivered exactly once.

  \<^item> \<open>RPC_Threads\<close> (\<^verbatim>\<open>future_impl.h, future.cc\<close>): any number of threads inside the member functions of one
    future, with a step for each access, the mutex and the condition variable. Every interleaving has
    the effect of the atomic operations of \<open>RPC_Future\<close>; no thread sleeps through the completion; what
    \<open>get\<close> reads without the mutex is one whole completion, unless the future is completed twice.

  \<^item> \<open>RPC_Reqtable\<close> (\<^verbatim>\<open>reqtable.h, reqtable.cc\<close>): the table as an association list; the locale
    \<open>request_table\<close> is its contract, a finite map, and the table of the code an interpretation of it.

  \<^item> \<open>RPC_Session\<close> (\<^verbatim>\<open>session.h, session_impl.h, session.cc, transport.h, message_sendable.h\<close>):
    sending, responses, failures, the step timer, and the reference count of a session. Invariants:
    \<open>table_wf\<close> (the tables hold existing futures under their own identifiers, each once), \<open>no_orphan\<close>
    (a waiting future is in the table of its session). The relation \<open>retires\<close> says what any event may
    do to futures and tables; the locale \<open>client_transport\<close> asks it of a transport's \<open>send_data\<close>.

  \<^item> \<open>RPC_Process\<close>: runs of a client process over any transport, as an inductive step relation over calls,
    notifications, events, callbacks and waits in any order. The locale \<open>client_process\<close> extends
    \<open>client_transport\<close> by the law of the events; in it no future is orphaned and completed futures do not
    change, and in \<open>client_runs\<close> the invariant holds in every state that is reached. The bound of 2 ^ 32
    calls is that of the message identifiers.

  \<^item> \<open>RPC_Stream\<close> (\<^verbatim>\<open>transport/stream_handler.h, .cc\<close>): reading and writing on a stream socket over a
    table of the virtual functions; the locale \<open>message_handler\<close> carries a relation of the handlers
    over to \<open>on_read\<close> and \<open>send_data\<close>.

  \<^item> \<open>RPC_Framing\<close>: messages on a byte stream. \<open>frames\<close> is the law of a streaming decoder; in the locale
    \<open>framed_reader\<close> a socket whose handlers cannot fail handles exactly the messages that have become
    complete, in order, however the stream is cut, and keeps the rest.

  \<^item> \<open>RPC_Tcp\<close> (\<^verbatim>\<open>transport/tcp.h\<close>, client part of \<^verbatim>\<open>transport/tcp.cc\<close>): connecting with retries (a
    recursion whose measure is the number of attempts left), the connect timer, sending. The locale
    \<open>tcp_events\<close> carries a relation kept by the handlers of a session over to every event of the loop;
    it is interpreted on \<open>retires\<close> here and on the references of a session in \<open>RPC_Pool_Run\<close>.

  \<^item> \<open>RPC_Reconnect\<close>: a connection that is lost and the calls after it. A failed write completes its call
    with the connection error, and the next call connects again; the read that the loss has aborted may
    be delivered late and then fails the new connection.

  \<^item> \<open>RPC_Request\<close> (\<^verbatim>\<open>request.h, request_impl.h, request.cc\<close>) and \<open>RPC_Server\<close> (\<^verbatim>\<open>server.h,
    server_impl.h, server.cc\<close>, server part of \<^verbatim>\<open>transport/tcp.cc\<close>): replies, dispatch, accepting and
    closing connections. The locale \<open>server_program\<close> is what a dispatcher must keep; a program that
    answers at once is an interpretation. A request is answered at most once, a notification never;
    the answers do not depend on how the stream is cut; destroying a server closes its connections.

  \<^item> \<open>RPC_Lifetime\<close> (\<^verbatim>\<open>server.cc\<close>, server part of \<^verbatim>\<open>transport/tcp.cc\<close>): the server with the identities of its
    transports, since sockets and pending accepts hold plain pointers to the transport that made them.
    Worker threads take handlers from the loop and run them later, also after the loop was stopped.
    The locale \<open>owned_program\<close> is what a dispatcher must keep of the pointers. With one \<open>listen\<close>, and if
    the server is closed only while no handler is running (as after \<open>end\<close> and \<open>join\<close>), no handler uses a
    destroyed transport; \<open>close\<close> while a handler is running, and a second \<open>listen\<close>, lead to such a use.

  \<^item> \<open>RPC_Codec\<close>: a two-byte codec that satisfies the laws assumed of msgpack, for concrete examples.

  \<^item> \<open>RPC_Dgram\<close> (\<^verbatim>\<open>transport/dgram_handler.h, .cc, transport/udp.h, udp.cc\<close>): datagram sockets,
    the UDP client and the UDP server socket, with the locale \<open>datagram_handler\<close> and a second
    interpretation of \<open>client_transport\<close>. \<open>RPC_Udp_Server\<close>: the UDP server transport, its listener, and
    \<open>listen\<close> and \<open>close\<close> of a server on it. \<open>RPC_Udp_System\<close>: a client process over UDP as an
    interpretation of \<open>client_process\<close>, and a client and a server on a network that loses, repeats and
    reorders datagrams: each future gets the answer to its own request or the timeout error, every
    request ends, and repeated answers change nothing. The locale \<open>datagram_socket\<close> reads one datagram
    for both sides.

  \<^item> \<open>RPC_Pool\<close> (\<^verbatim>\<open>session_pool.h, session_pool_impl.h, session_pool.cc\<close>): the pool over an ordered
    map (locale \<open>address_map\<close>), its invariant and the eviction of unused sessions.

  \<^item> \<open>RPC_Caller\<close> (\<^verbatim>\<open>caller.h, client.h, client.cc\<close>): the forms of \<open>call\<close> and \<open>notify\<close>, which are
    equivalent, and the constructors of a client.

  \<^item> \<open>RPC_Handles\<close> (\<^verbatim>\<open>session.h, session.cc, request.cc, future.cc, session_pool.cc, server.cc\<close>): the
    handle classes of the interface, whose members forward to the implementation objects and
    dereference a pointer that may be null.

  \<^item> \<open>RPC_Run\<close>: the runs of a client over TCP, an interpretation of \<open>client_process\<close>. In all of them no future
    is orphaned, every request ends, and results do not change.

  \<^item> \<open>RPC_Pool_Run\<close>: runs of a process with a pool: taking, copying and dropping sessions, calls, events
    and ticks of the pool in any order. Sessions in use have different addresses, the references to
    every session are accounted for, and what the pool evicts is used by nobody.

  \<^item> \<open>RPC_Server_Run\<close>: runs of a TCP server with any number of connections, which are accepted, read, fail and
    are closed in any order, with a program that replies at once or later and may throw, and peers that
    may be lost. The server goes on accepting and reading, and each connection gets the replies to its own
    requests, once and whole; what a lost peer, for which \<open>remote_endpoint\<close> throws, changes of this is stated
    in the theorems. The locale \<open>socket_invariant\<close> carries an invariant of the virtual functions over to read events.

  \<^item> \<open>RPC_System\<close>: a client and a server over a connection, with the bytes in flight as two queues and
    the steps of both sides in any order; replies may be given at once or later. Requests are
    dispatched in the order of the calls, each future gets the answer to its own request, and a
    system at rest has completed all futures.

  \<^item> \<open>RPC_Echo\<close> (\<^verbatim>\<open>unittest/echo_server.h\<close>): the class \<open>myecho\<close> as a program on the server. It answers
    at once, and calls of its methods have the outcomes that the unit tests expect.

  \<^item> \<open>RPC_Unittest\<close> (\<^verbatim>\<open>unittest/unittest.cpp\<close>): the seven unit tests as programs over the library, with
    their catch clauses and the destructors of their local objects, over a platform whose fields are Boost
    and msgpack; as an example their verdicts on a network with two queues and a server that may be late.
    \<open>RPC_Unreachable\<close>: their verdicts on every platform on which no connection can be made.

  \<^item> This theory: a call from the client's \<open>send_request\<close> over the server's \<open>on_read\<close> and back to the
    client's \<open>get\<close>.

  \<^bold>\<open>Properties that document defects.\<close> A malformed datagram stops a UDP socket from receiving
  (\<open>RPC_Dgram\<close>); a timed wait may overwrite a result and leaves its future in the request table
  (\<open>RPC_Future\<close>, \<open>RPC_Pool\<close>), and a concurrent \<open>get\<close> may then return a mixture of both completions
  (\<open>RPC_Threads\<close>); a callback that takes the mutex of its future never returns (\<open>RPC_Threads\<close>); an exception in the log statement of \<open>on_accept\<close> ends accepting
  (\<open>RPC_Server\<close>); printed IPv6 addresses cannot be read (\<open>RPC_Address\<close>); sizes from 2 ^ 31 on are
  negative (\<open>RPC_Buffer\<close>); \<open>close\<close> of the UDP server transport does nothing (\<open>RPC_Udp_Server\<close>); a
  connection whose peer is gone is not closed by \<open>stop\<close> (\<open>RPC_Server\<close>); listening twice, or
  closing while a worker thread runs a handler, lets handlers use a destroyed transport (\<open>RPC_Lifetime\<close>); a late aborted read fails the connection
  that replaced its own (\<open>RPC_Reconnect\<close>).

  \<^bold>\<open>Not modelled.\<close> The version functions (constants of the build), the template processor that
  generates \<^verbatim>\<open>caller.h\<close>, and the programs under \<^verbatim>\<open>src/test\<close>, which call the library in a loop and
  print; log output, except where computing its arguments can throw; socket options and sleeping between
  attempts, which change no state of the program; destructors that only release memory; the order on
  futures, which compares addresses in memory. Threads are interleaved inside the member functions of
  \<open>future_impl\<close> only: elsewhere a whole handler or call is a step (in \<open>RPC_Lifetime\<close>, two: it is taken by a
  thread and then run). In \<open>RPC_System\<close> and \<open>RPC_Udp_System\<close> there
  is one client, whose connection does not break; failures of a connection are covered for the two sides
  apart, by \<open>RPC_Run\<close>, \<open>RPC_Reconnect\<close> and \<open>RPC_Server_Run\<close>. A server is also a session pool; its outgoing
  sessions are those of \<open>RPC_Pool\<close> and are not part of the state \<open>server\<close>.
\<close>

section \<open>Definitions\<close>

text \<open>
  msgpack as the two sides of a connection rely on it: a decoder between two messages (\<open>idle\<close>) that
  receives the bytes of one packed request or response finds exactly that message, below the limit on
  the message size, and is between two messages again. \<open>em\<close> and \<open>ep\<close> give the method and the
  parameters as objects, \<open>rd\<close> the receiver's copy of an object.
\<close>

definition transmits ::
  "('x, 'b, 'u) decoder \<Rightarrow> 'u \<Rightarrow> 'b list \<Rightarrow> 'x object \<Rightarrow> zone \<Rightarrow> 'u \<Rightarrow> bool" where
  "transmits d u bytes ob zn u' \<longleftrightarrow>
     pac_next_all d (pac_consumed d bytes u) = ([(ob, zn, u')], None, u') \<and>
     pac_message_size d u' \<le> max_message_size"

definition request_codec ::
  "('x, 'b, 'u) decoder \<Rightarrow> ('x, 'b) packer \<Rightarrow> ('u \<Rightarrow> bool) \<Rightarrow> (string \<Rightarrow> 'x object) \<Rightarrow>
   ('x object list \<Rightarrow> 'x object) \<Rightarrow> bool"
where
  "request_codec d pk idle em ep \<longleftrightarrow>
     (\<forall>u m p z i. idle u \<longrightarrow> (\<exists>ob zn u'.
        transmits d u (outbuf_bytes (request_buf pk m p z i)) ob zn u' \<and> idle u' \<and>
        conv_rpc d ob = Some \<lparr>rpc_type = REQUEST\<rparr> \<and>
        conv_request d ob = Some (new_msg_request (em m) (ep p) i)))"

definition response_codec ::
  "('x, 'b, 'u) decoder \<Rightarrow> ('x, 'b) packer \<Rightarrow> ('u \<Rightarrow> bool) \<Rightarrow> ('x object \<Rightarrow> 'x object) \<Rightarrow> bool" where
  "response_codec d pk idle rd \<longleftrightarrow>
     (\<forall>u r i. idle u \<longrightarrow> (\<exists>ob zn u'.
        transmits d u (outbuf_bytes (reply_buf pk i r)) ob zn u' \<and> idle u' \<and>
        conv_rpc d ob = Some \<lparr>rpc_type = RESPONSE\<rparr> \<and>
        conv_response d ob = Some (new_msg_response (rd (reply_result r)) (rd (reply_error r)) i)))"

section \<open>The two halves of a call\<close>

lemma server_answers_call:
  assumes "v_alive v" "v_dp v" "k < length (v_socks v)" "sh_open (v_socks v ! k)" "idle (sh_pac (v_socks v ! k))"
    and "request_codec d pk idle em ep" "compute (em m) (ep p) = r # rs"
    and "server_write b k (outbuf_bytes (reply_buf pk i r)) (v_net v) = (None, n)"
  shows "\<exists>v1. stream_on_read d (server_vt b (reply_dispatch pk b compute) k) 0 (outbuf_bytes (request_buf pk m p z i)) v = (None, v1) \<and>
    v_net v1 = n \<and> sh_reading (v_socks v1 ! k) \<and> is_sent (length (q_requests v)) v1"
proof -
  from assms(5,6) obtain ob zn u where req: "transmits d (sh_pac (v_socks v ! k)) (outbuf_bytes (request_buf pk m p z i)) ob zn u"
    "conv_rpc d ob = Some \<lparr>rpc_type = REQUEST\<rparr>" "conv_request d ob = Some (new_msg_request (em m) (ep p) i)"
    unfolding request_codec_def by meson
  have "\<exists>v1. stream_on_read d (server_vt b (reply_dispatch pk b compute) k) 0 (outbuf_bytes (request_buf pk m p z i)) v = (None, v1) \<and>
      v_net v1 = n \<and> sh_open (v_socks v1 ! k) \<and> sh_reading (v_socks v1 ! k) \<and>
      q_requests v1 = q_requests v @ [new_request_impl None (req_msgid (new_msg_request (em m) (ep p) i))
        (req_method (new_msg_request (em m) (ep p) i)) (req_param (new_msg_request (em m) (ep p) i)) (Some zn)] \<and>
      v_stran v1 = v_stran v"
    by (rule server_reads_request[OF assms(1-4) req(1)[unfolded transmits_def, THEN conjunct1]
          req(1)[unfolded transmits_def, THEN conjunct2] req(2) _ req(3)])
       (use assms(7,8) in \<open>simp_all add: is_request_def new_msg_request_def\<close>)
  then show ?thesis by (auto simp: is_sent_def new_request_impl_def)
qed

lemma client_gets_answer:
  assumes "table_wf w" "s < length (w_sessions w)" "0 < s_handles (ses w s)" "(i, f) \<in> set (table w s)"
    and "idle (sh_pac (tc_conn (tcp w s)))" "response_codec d pk idle rd"
  shows "\<exists>w'. stream_on_read d (tcp_client_vt s) 0 (outbuf_bytes (reply_buf pk i r)) w = (None, w') \<and>
    sh_reading (tc_conn (tcp w' s)) \<and> (i, f) \<notin> set (table w' s) \<and> ready w' f \<and>
    f_result (fut w' f) = rd (reply_result r) \<and> f_error (fut w' f) = rd (reply_error r)"
proof -
  let ?res = "new_msg_response (rd (reply_result r)) (rd (reply_error r)) i"
  from assms(5,6) obtain ob zn u where res: "transmits d (sh_pac (tc_conn (tcp w s))) (outbuf_bytes (reply_buf pk i r)) ob zn u"
    "conv_rpc d ob = Some \<lparr>rpc_type = RESPONSE\<rparr>" "conv_response d ob = Some ?res"
    unfolding response_codec_def by meson
  have "\<exists>w'. stream_on_read d (tcp_client_vt s) 0 (outbuf_bytes (reply_buf pk i r)) w = (None, w') \<and>
      sh_reading (tc_conn (tcp w' s)) \<and> sh_open (tc_conn (tcp w' s)) = sh_open (tc_conn (tcp w s)) \<and>
      table w' s = AList.delete (res_msgid ?res) (table w s) \<and>
      ready w' f \<and> f_result (fut w' f) = res_result ?res \<and> f_error (fut w' f) = res_error ?res \<and>
      f_zone (fut w' f) = Some zn \<and> (\<forall>g < length (h_futures w). g \<noteq> f \<longrightarrow> fut w' g = fut w g)"
    by (rule client_reads_response[OF res(1)[unfolded transmits_def, THEN conjunct1]
          res(1)[unfolded transmits_def, THEN conjunct2] res(2) _ res(3) assms(1-3)])
       (use assms(4) in \<open>simp_all add: is_response_def new_msg_response_def\<close>)
  then show ?thesis by (auto simp: new_msg_response_def in_set_delete_iff)
qed

section \<open>Properties\<close>

text \<open>
  C1: A remote call returns what the server's program answers: a client calls over an open connection;
  the server reads the bytes of the request, its program answers; the client reads the bytes of the
  answer. Then the future of the call is completed with the receiver's copies of result and error,
  \<open>get\<close> returns the result (or throws, if the server answered with an error), the server has answered
  the request once, and both sides go on reading.
\<close>

theorem rpc_roundtrip:
  assumes client: "loop_running w s" "table_wf w" "s < length (w_sessions w)" "0 < s_handles (ses w s)"
      "sh_open (tc_conn (tcp w s))" "idle (sh_pac (tc_conn (tcp w s)))" "response_codec d pk idle rd"
    and server: "v_alive v" "v_dp v" "k < length (v_socks v)" "sh_open (v_socks v ! k)"
      "idle' (sh_pac (v_socks v ! k))" "request_codec d' pk idle' em ep" "compute (em m) (ep p) = r # rs"
    and network: "i = s_msgid_rr (ses w s)"
      "sock_write a s (outbuf_bytes (request_buf pk m p z i)) (w_net w) = (None, n)"
      "server_write b k (outbuf_bytes (reply_buf pk i r)) (v_net v) = (None, n')"
  shows "\<exists>fu f w1 v1 w2.
    send_request pk (tcp_send_data a d) s m p z w = (Inr fu, w1) \<and> fu_pimpl fu = Some f \<and> \<not> ready w1 f \<and>
    stream_on_read d' (server_vt b (reply_dispatch pk b compute) k) 0 (outbuf_bytes (request_buf pk m p z i)) v = (None, v1) \<and>
    is_sent (length (q_requests v)) v1 \<and> v_net v1 = n' \<and> sh_reading (v_socks v1 ! k) \<and>
    stream_on_read d (tcp_client_vt s) 0 (outbuf_bytes (reply_buf pk i r)) w1 = (None, w2) \<and>
    sh_reading (tc_conn (tcp w2 s)) \<and> (i, f) \<notin> set (table w2 s) \<and>
    f_result (fut w2 f) = rd (reply_result r) \<and> f_error (fut w2 f) = rd (reply_error r) \<and>
    get_impl sh env fu w2 =
      Some (if rd (reply_error r) = NIL then Inr (rd (reply_result r)) else Inl (throw_exception sh f (fut w2 f)), w2)"
proof -
  let ?f = "length (h_futures w)"
  let ?fu = "\<lparr>fu_method = m, fu_pimpl = Some ?f\<rparr>"
  define w1 where "w1 = (registered s w)\<lparr>w_net := n\<rparr>"
  have call: "send_request pk (tcp_send_data a d) s m p z w = (Inr ?fu, w1)"
    unfolding w1_def using client(1,3,5) network(1,2) by (intro send_request_open) simp_all
  from server_answers_call[where compute = compute and idle = idle' and m = m and p = p and z = z, OF server(1-7) network(3)] obtain v1 where
    v1: "stream_on_read d' (server_vt b (reply_dispatch pk b compute) k) 0 (outbuf_bytes (request_buf pk m p z i)) v = (None, v1)"
    "v_net v1 = n'" "sh_reading (v_socks v1 ! k)" "is_sent (length (q_requests v)) v1" by blast
  have w1: "table_wf w1" "s < length (w_sessions w1)" "0 < s_handles (ses w1 s)" "(i, ?f) \<in> set (table w1 s)"
    "idle (sh_pac (tc_conn (tcp w1 s)))" "\<not> ready w1 ?f"
    using client(2-4,6) network(1) registered_wf[OF client(2,3)] registered_entry[OF client(2,3)]
    by (simp_all add: w1_def registered_simps table_wf_net)
  from client_gets_answer[where idle = idle and r = r, OF w1(1-5) client(7)] obtain w2 where
    w2: "stream_on_read d (tcp_client_vt s) 0 (outbuf_bytes (reply_buf pk i r)) w1 = (None, w2)"
    "sh_reading (tc_conn (tcp w2 s))" "(i, ?f) \<notin> set (table w2 s)" "ready w2 ?f"
    "f_result (fut w2 ?f) = rd (reply_result r)" "f_error (fut w2 ?f) = rd (reply_error r)" by blast
  have "get_impl sh env ?fu w2 = Some (if rd (reply_error r) = NIL then Inr (rd (reply_result r))
      else Inl (throw_exception sh ?f (fut w2 ?f)), w2)"
    using get_impl_ready[of ?fu ?f w2 sh env] w2 by (simp add: outcome_def)
  with call v1 w1(6) w2 show ?thesis by (intro exI[of _ ?fu] exI[of _ ?f] exI[of _ w1] exI[of _ v1] exI[of _ w2]) simp
qed

text \<open>The client of \<open>RPC_System\<close> after its two calls, and the server of \<open>RPC_Server\<close>.\<close>

lemma codec_roundtrip:
  "request_codec codec_decoder codec_packer (\<lambda>u. u = []) (\<lambda>m. Opaque (Str m)) (\<lambda>p. Opaque (Arr p))"
  "response_codec codec_decoder codec_packer (\<lambda>u. u = []) id"
proof -
  have req: "outbuf_bytes (request_buf codec_packer m p z i) = [Head, Body (Req m p i)]" for m p z i
    using codec_pack_out[of "Out_request i m p z"] by simp
  show "request_codec codec_decoder codec_packer (\<lambda>u. u = []) (\<lambda>m. Opaque (Str m)) (\<lambda>p. Opaque (Arr p))"
    by (simp add: request_codec_def transmits_def req) (simp add: codec_decoder_def)
  show "response_codec codec_decoder codec_packer (\<lambda>u. u = []) id"
    by (simp add: response_codec_def transmits_def codec_pack_reply) (simp add: codec_decoder_def)
qed

lemma echo_client_sent_simps:
  "loop_running echo_client_sent 0" "0 < length (w_sessions echo_client_sent)" "0 < s_handles (ses echo_client_sent 0)"
  "s_msgid_rr (ses echo_client_sent 0) = 3" "sh_open (tc_conn (tcp echo_client_sent 0))"
  "sh_pac (tc_conn (tcp echo_client_sent 0)) = []"
  by (code_simp, code_simp, code_simp, code_simp, code_simp, code_simp)

lemma echo_client_sent_wf: "table_wf echo_client_sent"
proof -
  obtain dn td where "sys_inv echo_link echo_calls dn td (echo_client_sent\<lparr>w_net := []\<rparr>) echo_server_done"
    using system_inv[OF echo_run_answered echo_link_ok] by (auto simp: echo_calls_def)
  then have "table_wf (echo_client_sent\<lparr>w_net := []\<rparr>)"
    using client_invD(1)[of echo_link echo_calls] by (simp add: sys_inv_def echo_calls_def)
  then show ?thesis by (simp add: table_wf_net)
qed

lemma rpc_roundtrip_witness:
  "\<exists>fu w1 v1 w2.
     send_request codec_packer (tcp_send_data echo_asio codec_decoder) 0 ''echo'' [NIL] None echo_client_sent = (Inr fu, w1) \<and>
     stream_on_read codec_decoder (server_vt stream_asio
       (reply_dispatch codec_packer stream_asio (\<lambda>m p. [Result p])) 0) 0
       (outbuf_bytes (request_buf codec_packer ''echo'' [NIL] None 3)) stream_server = (None, v1) \<and>
     stream_on_read codec_decoder (tcp_client_vt 0) 0
       (outbuf_bytes (reply_buf codec_packer 3 (Result (Opaque (Arr [NIL]))))) w1 = (None, w2) \<and>
     get_impl (\<lambda>_. []) \<lparr>cond_wait = id, cond_timed_wait = (\<lambda>_ h. (False, h)), run_one = id\<rparr> fu w2 =
       Some (Inr (Opaque (Arr [NIL])), w2)"
proof -
  have srv: "v_alive stream_server" "v_dp stream_server" "0 < length (v_socks stream_server)"
    "sh_open (v_socks stream_server ! 0)" "sh_pac (v_socks stream_server ! 0) = []"
    using stream_server_ready by (simp_all add: connection_ready_def)
  show ?thesis
    using rpc_roundtrip[where w = echo_client_sent and s = 0 and d = codec_decoder and pk = codec_packer and rd = id
        and idle = "\<lambda>u. u = []" and v = stream_server and k = 0 and idle' = "\<lambda>u. u = []" and d' = codec_decoder
        and em = "\<lambda>m. Opaque (Str m)" and ep = "\<lambda>p. Opaque (Arr p)" and compute = "\<lambda>m p. [Result p]"
        and m = "''echo''" and p = "[NIL]" and r = "Result (Opaque (Arr [NIL]))" and rs = "[]" and i = 3
        and a = echo_asio and b = stream_asio and z = None and sh = "\<lambda>_. []"
        and env = "\<lparr>cond_wait = id, cond_timed_wait = (\<lambda>_ h. (False, h)), run_one = id\<rparr>",
        OF echo_client_sent_simps(1) echo_client_sent_wf echo_client_sent_simps(2,3,5) echo_client_sent_simps(6)
           codec_roundtrip(2) srv codec_roundtrip(1) refl echo_client_sent_simps(4)[symmetric]]
    by (simp add: echo_asio_def stream_asio_def) blast
qed

end
